(* ===== verification/Prelude.thy ===== *)
theory Prelude
  imports Main "HOL-Library.Word"
begin

text \<open>
  Vocabulary shared by the components of the development: machine integers at the width the
  Rust source gives them, byte strings, the two queue loops the source repeats in several
  structs (evicting from the front while over capacity, popping acknowledged entries from the
  front), decimal rendering of numbers, and the list and word lemmas the component proofs use.

  Rust strings are modelled as \<^typ>\<open>string\<close>, a list of characters of one byte each, so that
  \<open>length\<close> counts bytes as \<^verbatim>\<open>str::len\<close> does. The workspace sets no
  \<^verbatim>\<open>overflow-checks\<close> profile, so arithmetic on \<^typ>\<open>64 word\<close> wraps as it does in a release
  build.
\<close>

section \<open>Types\<close>

type_synonym u8 = "8 word"
type_synonym u32 = "32 word"
type_synonym i32 = "32 word"
type_synonym u64 = "64 word"
type_synonym bytes = "u8 list"

named_theorems queue_simps \<open>rewrite rules for the bounded front-evicting queues\<close>

section \<open>Definitions\<close>

subsection \<open>The eviction loop \<^verbatim>\<open>while q.len() > cap { q.pop_front(); }\<close>\<close>

fun evict :: "nat \<Rightarrow> 'a list \<Rightarrow> 'a list" where
  "evict cap [] = []"
| "evict cap (x # xs) = (if cap < length (x # xs) then evict cap xs else x # xs)"

abbreviation last_n :: "nat \<Rightarrow> 'a list \<Rightarrow> 'a list" where
  "last_n n xs \<equiv> drop (length xs - n) xs"

subsection \<open>The trimming loop over a queue of sequenced entries\<close>

text \<open>
  \<^verbatim>\<open>while let Some((seq, _)) = q.front() { if *seq <= ack { q.pop_front(); } else { break; } }\<close>
\<close>

fun trim_acked :: "u64 \<Rightarrow> (u64 \<times> 'a) list \<Rightarrow> (u64 \<times> 'a) list" where
  "trim_acked ack [] = []"
| "trim_acked ack ((s, d) # q) = (if s \<le> ack then trim_acked ack q else (s, d) # q)"

subsection \<open>Saturating arithmetic\<close>

definition saturating_add :: "u64 \<Rightarrow> u64 \<Rightarrow> u64" where
  "saturating_add a b = (if 2 ^ 64 \<le> unat a + unat b then - 1 else a + b)"

definition saturating_sub :: "u64 \<Rightarrow> u64 \<Rightarrow> u64" where
  "saturating_sub a b = (if a < b then 0 else a - b)"

subsection \<open>Decimal rendering, as \<^verbatim>\<open>format!("{}")\<close> gives it\<close>

definition digit_char :: "nat \<Rightarrow> char" where
  "digit_char d = char_of (48 + d)"

fun show_nat :: "nat \<Rightarrow> string" where
  "show_nat n = (if n < 10 then [digit_char n] else show_nat (n div 10) @ [digit_char (n mod 10)])"

declare show_nat.simps [simp del]

fun read_digits :: "nat \<Rightarrow> string \<Rightarrow> nat" where
  "read_digits acc [] = acc"
| "read_digits acc (c # cs) = read_digits (10 * acc + (of_char c - 48)) cs"

subsection \<open>\<^verbatim>\<open>s.chars().take(n)\<close> on the bytes of a UTF-8 string\<close>

definition utf8_continuation :: "char \<Rightarrow> bool" where
  "utf8_continuation c \<longleftrightarrow> (128 :: nat) \<le> of_char c \<and> of_char c < (192 :: nat)"

fun take_chars :: "nat \<Rightarrow> string \<Rightarrow> string" where
  "take_chars n [] = []"
| "take_chars n (c # cs) =
     (if utf8_continuation c then c # take_chars n cs
      else case n of 0 \<Rightarrow> [] | Suc m \<Rightarrow> c # take_chars m cs)"

section \<open>Lemmas\<close>

subsection \<open>Queues\<close>

lemma evict_last_n [queue_simps]: "evict cap xs = last_n cap xs"
  by (induction xs) (auto simp: Suc_diff_le)

lemma length_evict: "length (evict cap xs) \<le> cap"
  by (simp add: evict_last_n)

lemma set_evict_subset: "set (evict cap xs) \<subseteq> set xs"
  by (simp add: evict_last_n set_drop_subset)

lemma trim_acked_dropWhile: "trim_acked a q = dropWhile (\<lambda>p. fst p \<le> a) q"
  by (induction q) auto

lemma set_trim_acked_subset: "set (trim_acked a q) \<subseteq> set q"
  by (auto simp: trim_acked_dropWhile dest: set_dropWhileD)

lemma length_trim_acked: "length (trim_acked a q) \<le> length q"
  by (induction q) auto

text \<open>
  On a queue whose sequence numbers strictly increase, popping from the front removes exactly
  the acknowledged entries.
\<close>

lemma trim_acked_filter [queue_simps]:
  "sorted_wrt (<) (map fst q) \<Longrightarrow> trim_acked a q = filter (\<lambda>p. a < fst p) q"
proof (induction q)
  case (Cons p q)
  obtain s d where p: "p = (s, d)" by (cases p)
  show ?case
  proof (cases "s \<le> a")
    case True
    with Cons p show ?thesis by auto
  next
    case False
    with Cons.prems p have "\<forall>x \<in> set q. a < fst x" by (auto intro: less_trans)
    with False p show ?thesis by (auto simp: filter_id_conv)
  qed
qed simp

lemma sorted_trim_acked:
  "sorted_wrt (<) (map fst q) \<Longrightarrow> sorted_wrt (<) (map fst (trim_acked a q))"
  by (induction q) auto

lemma sorted_wrt_map_filter:
  "sorted_wrt r (map f q) \<Longrightarrow> sorted_wrt r (map f (filter P q))"
  by (induction q) auto

lemma sorted_wrt_map_drop:
  "sorted_wrt r (map f q) \<Longrightarrow> sorted_wrt r (map f (drop n q))"
  by (metis drop_map sorted_wrt_drop)

lemma sorted_evict:
  "sorted_wrt r (map f q) \<Longrightarrow> sorted_wrt r (map f (evict cap q))"
  by (simp add: evict_last_n sorted_wrt_map_drop)

subsection \<open>Suffixes of filtered queues\<close>

lemma filter_last_n:
  assumes "filter P xs = drop k xs" and "k \<le> length xs" and "\<forall>x \<in> set (take k xs). \<not> P x"
  shows "filter P (last_n n xs) = last_n n (filter P xs)"
proof -
  let ?A = "take k xs" and ?B = "drop k xs"
  have "set ?B = set (filter P xs)" using assms(1) by simp
  then have B: "\<forall>x \<in> set ?B. P x" by auto
  have fA: "filter P (drop m ?A) = []" for m
    using assms(3) by (auto simp: filter_empty_conv dest: in_set_dropD)
  have "last_n n xs = drop (length xs - n) (?A @ ?B)" by simp
  also have "\<dots> = drop (length xs - n) ?A @ drop (length xs - n - length ?A) ?B"
    by (rule drop_append)
  finally have "filter P (last_n n xs) = filter P (drop (length xs - n - length ?A) ?B)"
    using fA by (simp only: filter_append append_Nil)
  also have "\<dots> = drop (length xs - n - length ?A) ?B"
    using B by (simp only: filter_id_conv) (blast dest: in_set_dropD)
  also have "length xs - n - length ?A = length ?B - n"
    using assms(2) by simp
  finally show ?thesis using assms(1) by simp
qed

text \<open>
  The shape the outboxes need: discarding the acknowledged entries of a sorted queue commutes
  with keeping only its last \<open>n\<close> entries.
\<close>

lemma sorted_filter_eq_drop:
  fixes q :: "(u64 \<times> 'a) list" and a :: u64
  assumes "sorted_wrt (<) (map fst q)"
  defines "k \<equiv> length (takeWhile (\<lambda>p. fst p \<le> a) q)"
  shows "filter (\<lambda>p. a < fst p) q = drop k q"
    and "k \<le> length q" and "\<forall>p \<in> set (take k q). \<not> a < fst p"
proof -
  have "filter (\<lambda>p. a < fst p) q = dropWhile (\<lambda>p. fst p \<le> a) q"
    using trim_acked_filter [OF assms(1)] by (simp only: trim_acked_dropWhile)
  then show "filter (\<lambda>p. a < fst p) q = drop k q"
    by (simp add: k_def dropWhile_eq_drop)
  show "k \<le> length q" by (simp add: k_def length_takeWhile_le)
  show "\<forall>p \<in> set (take k q). \<not> a < fst p"
    by (auto simp: k_def takeWhile_eq_take [symmetric] dest: set_takeWhileD)
qed

lemma filter_unacked_last_n [queue_simps]:
  fixes q :: "(u64 \<times> 'a) list"
  assumes "sorted_wrt (<) (map fst q)"
  shows "filter (\<lambda>p. a < fst p) (last_n n q) = last_n n (filter (\<lambda>p. a < fst p) q)"
  using sorted_filter_eq_drop [OF assms] by (rule filter_last_n)

lemma last_n_append_single: "last_n n (last_n n xs @ [x]) = last_n n (xs @ [x])"
  by (cases "length xs < n") (auto simp: Suc_diff_le)

lemma last_n_append: "last_n n (last_n n ys @ xs) = last_n n (ys @ xs)"
  by (cases "length ys \<le> n") (auto simp: drop_append intro!: arg_cong [of _ _ "\<lambda>k. drop k ys"])

lemma distinct_count_list_le: "distinct xs \<Longrightarrow> count_list xs x \<le> 1"
  by (induction xs) (auto simp: count_list_0_iff)

subsection \<open>Words\<close>

lemma unat_of_nat_u64: "n < 2 ^ 64 \<Longrightarrow> unat (word_of_nat n :: u64) = n"
  by (simp add: unat_of_nat)

lemma unat_Suc_word: "(w :: u64) \<noteq> - 1 \<Longrightarrow> unat (w + 1) = Suc (unat w)"
  using unatSuc [of w] add_eq_0_iff [of 1 w] by (simp only: add.commute [of w]) blast

lemma unat_max_u64: "unat (- 1 :: u64) = 2 ^ 64 - 1"
  by (simp add: unsigned_minus_1_eq_mask mask_eq_exp_minus_1)

lemma zero_less_max_u64: "(0 :: u64) < - 1"
  by (simp add: word_less_nat_alt unat_max_u64)

lemma unat_lt2p_u64: "unat (w :: u64) < 2 ^ 64"
  using unsigned_less [of w] by (simp add: word_size)

lemma unat_saturating_add: "unat (saturating_add a b) = min (unat a + unat b) (2 ^ 64 - 1)"
  using unat_lt2p_u64 [of a] unat_lt2p_u64 [of b]
  by (auto simp: saturating_add_def unat_max_u64 unat_word_ariths min_def)

lemma unat_saturating_sub: "unat (saturating_sub a b) = unat a - unat b"
  by (auto simp: saturating_sub_def word_less_nat_alt unat_sub_if_size)

lemma unat_min: "unat (min a b) = min (unat a) (unat b)"
  by (simp add: min_def word_le_nat_alt)

lemma word_Suc_less: "(w :: u64) \<noteq> - 1 \<Longrightarrow> w < w + 1"
  by (simp add: word_less_nat_alt unat_Suc_word)

subsection \<open>Decimal rendering\<close>

lemma of_char_digit_char: "d < 10 \<Longrightarrow> of_char (digit_char d) = 48 + d"
  by (simp add: digit_char_def)

lemma show_nat_digits: "c \<in> set (show_nat n) \<Longrightarrow> 48 \<le> (of_char c :: nat) \<and> (of_char c :: nat) < 58"
proof (induction n rule: show_nat.induct)
  case (1 n)
  show ?case
  proof (cases "n < 10")
    case True
    with 1 show ?thesis by (auto simp: show_nat.simps [of n] of_char_digit_char)
  next
    case False
    with 1 show ?thesis by (auto simp: show_nat.simps [of n] of_char_digit_char)
  qed
qed

lemma colon_notin_show_nat: "CHR '':'' \<notin> set (show_nat n)"
  using show_nat_digits [of "CHR '':''" n] by auto

lemma read_digits_append: "read_digits acc (cs @ ds) = read_digits (read_digits acc cs) ds"
  by (induction cs arbitrary: acc) auto

lemma read_show_nat: "read_digits 0 (show_nat n) = n"
proof (induction n rule: show_nat.induct)
  case (1 n)
  then show ?case
    by (cases "n < 10") (auto simp: show_nat.simps [of n] of_char_digit_char read_digits_append)
qed

lemma show_nat_inject: "show_nat m = show_nat n \<longleftrightarrow> m = n"
  by (metis read_show_nat)

end
