(* ===== verification/Hub_Core.thy ===== *)
theory Hub_Core
  imports Prelude "HOL-Library.AList" "HOL-Library.Product_Lexorder" "HOL-Library.List_Lexorder"
    "HOL-Library.Char_ord"
begin

text \<open>
  The hub's job model: the error type (\<^verbatim>\<open>ahand-hub-core/src/error.rs\<close>), jobs and their status
  machine (\<^verbatim>\<open>ahand-hub-core/src/job.rs\<close>), the in-memory job store
  (\<^verbatim>\<open>MemoryJobStore\<close> in \<^verbatim>\<open>ahand-hub/src/state.rs\<close>) and the Postgres job store
  (\<^verbatim>\<open>ahand-hub-store/src/job_store.rs\<close>), whose rows carry the status as text and the timeout as a
  signed integer.

  Instants are integers; the current time is an argument of every operation that reads the
  clock, a fresh UUID an argument of every operation that draws one. A \<^verbatim>\<open>DashMap\<close> is an
  association list in its iteration order, which Rust leaves unspecified: no theorem fixes it.
\<close>

section \<open>Definitions\<close>

subsection \<open>Job status\<close>

type_synonym timestamp = int
type_synonym uuid = string

datatype JobStatus = Pending | Sent | Running | Finished | Failed | Cancelled

datatype HubError =
    DeviceNotFound string
  | DeviceAlreadyExists string
  | DeviceOwnedByDifferentUser string string
  | DeviceOffline string
  | JobNotFound string
  | JobNotCancellable string
  | IllegalJobTransition JobStatus JobStatus
  | Unauthorized
  | Forbidden
  | InvalidToken string
  | InvalidSignature
  | InvalidPeerAck u64 u64
  | OutboxLockContention string
  | Internal string

definition is_terminal_status :: "JobStatus \<Rightarrow> bool" where
  "is_terminal_status s = (case s of Finished \<Rightarrow> True | Failed \<Rightarrow> True | Cancelled \<Rightarrow> True | _ \<Rightarrow> False)"

definition resolve_status_transition :: "JobStatus \<Rightarrow> JobStatus \<Rightarrow> HubError + JobStatus" where
  "resolve_status_transition current requested =
     (if current = requested then Inr current
      else if is_terminal_status current then Inl (IllegalJobTransition current requested)
      else (case (current, requested) of
          (Pending, Sent) \<Rightarrow> Inr requested
        | (Pending, Running) \<Rightarrow> Inr requested
        | (Pending, Finished) \<Rightarrow> Inr requested
        | (Pending, Failed) \<Rightarrow> Inr requested
        | (Pending, Cancelled) \<Rightarrow> Inr requested
        | (Sent, Running) \<Rightarrow> Inr requested
        | (Sent, Finished) \<Rightarrow> Inr requested
        | (Sent, Failed) \<Rightarrow> Inr requested
        | (Sent, Cancelled) \<Rightarrow> Inr requested
        | (Running, Finished) \<Rightarrow> Inr requested
        | (Running, Failed) \<Rightarrow> Inr requested
        | (Running, Cancelled) \<Rightarrow> Inr requested
        | _ \<Rightarrow> Inl (IllegalJobTransition current requested)))"

subsection \<open>Jobs\<close>

record NewJob =
  nj_device_id :: string
  nj_tool :: string
  nj_args :: "string list"
  nj_cwd :: "string option"
  nj_env :: "(string \<times> string) list"
  nj_timeout_ms :: u64
  nj_requested_by :: string
  nj_interactive :: bool

record Job =
  job_id :: uuid
  job_device_id :: string
  job_tool :: string
  job_args :: "string list"
  job_cwd :: "string option"
  job_env :: "(string \<times> string) list"
  job_timeout_ms :: u64
  job_interactive :: bool
  job_status :: JobStatus
  job_exit_code :: "int option"
  job_error :: "string option"
  job_output_summary :: "string option"
  job_requested_by :: string
  job_created_at :: timestamp
  job_started_at :: "timestamp option"
  job_finished_at :: "timestamp option"

record JobFilter =
  jf_device_id :: "string option"
  jf_status :: "JobStatus option"

definition new_pending :: "uuid \<Rightarrow> NewJob \<Rightarrow> timestamp \<Rightarrow> Job" where
  "new_pending i job created_at =
     \<lparr> job_id = i,
       job_device_id = nj_device_id job,
       job_tool = nj_tool job,
       job_args = nj_args job,
       job_cwd = nj_cwd job,
       job_env = nj_env job,
       job_timeout_ms = nj_timeout_ms job,
       job_interactive = nj_interactive job,
       job_status = Pending,
       job_exit_code = None,
       job_error = None,
       job_output_summary = None,
       job_requested_by = nj_requested_by job,
       job_created_at = created_at,
       job_started_at = None,
       job_finished_at = None \<rparr>"

definition apply_status_transition :: "Job \<Rightarrow> JobStatus \<Rightarrow> timestamp \<Rightarrow> HubError + (Job \<times> JobStatus)" where
  "apply_status_transition job requested_status at =
     (case resolve_status_transition (job_status job) requested_status of
        Inl e \<Rightarrow> Inl e
      | Inr next_status \<Rightarrow>
          (let job = (if next_status = Running \<and> job_started_at job = None
                      then job\<lparr>job_started_at := Some at\<rparr> else job);
               job = (if is_terminal_status next_status
                      then job\<lparr>job_finished_at := Some at\<rparr> else job);
               job = job\<lparr>job_status := next_status\<rparr>
           in Inr (job, next_status)))"

subsection \<open>The in-memory job store\<close>

type_synonym MemoryJobStore = "(string \<times> Job) list"

definition insert_job :: "MemoryJobStore \<Rightarrow> uuid \<Rightarrow> timestamp \<Rightarrow> NewJob \<Rightarrow> MemoryJobStore \<times> Job" where
  "insert_job jobs i now nj =
     (let job = new_pending i nj now in (AList.update (job_id job) job jobs, job))"

definition get_job :: "MemoryJobStore \<Rightarrow> string \<Rightarrow> Job option" where
  "get_job jobs i = map_of jobs i"

definition job_matches :: "JobFilter \<Rightarrow> Job \<Rightarrow> bool" where
  "job_matches flt job =
     ((case jf_device_id flt of None \<Rightarrow> True | Some d \<Rightarrow> job_device_id job = d) \<and>
      (case jf_status flt of None \<Rightarrow> True | Some s \<Rightarrow> job_status job = s))"

definition list_jobs :: "MemoryJobStore \<Rightarrow> JobFilter \<Rightarrow> Job list" where
  "list_jobs jobs flt =
     sort_key (\<lambda>job. (job_created_at job, job_id job))
       (filter (job_matches flt) (map snd jobs))"

definition transition_status ::
  "MemoryJobStore \<Rightarrow> string \<Rightarrow> JobStatus \<Rightarrow> timestamp \<Rightarrow> HubError + (MemoryJobStore \<times> JobStatus option)" where
  "transition_status jobs i status now =
     (case map_of jobs i of
        None \<Rightarrow> Inl (JobNotFound i)
      | Some job \<Rightarrow>
          if job_status job = status then Inr (jobs, None)
          else (case apply_status_transition job status now of
                  Inl e \<Rightarrow> Inl e
                | Inr (job', next_status) \<Rightarrow> Inr (AList.update i job' jobs, Some next_status)))"

definition update_terminal ::
  "MemoryJobStore \<Rightarrow> string \<Rightarrow> int \<Rightarrow> string \<Rightarrow> string \<Rightarrow> HubError + MemoryJobStore" where
  "update_terminal jobs i exit_code err output_summary =
     (case map_of jobs i of
        None \<Rightarrow> Inl (JobNotFound i)
      | Some job \<Rightarrow>
          Inr (AList.update i (job\<lparr>job_exit_code := Some exit_code,
                                    job_error := Some err,
                                    job_output_summary := Some output_summary\<rparr>) jobs))"

subsection \<open>The Postgres job store\<close>

text \<open>
  A row of the \<^verbatim>\<open>jobs\<close> table: the columns of a job with the status as text and the timeout as a
  signed 64-bit integer. The SQL statements of the store are updates of the row with the given
  primary key.
\<close>

record JobRow =
  row_id :: uuid
  row_device_id :: string
  row_tool :: string
  row_args :: "string list"
  row_cwd :: "string option"
  row_env :: "(string \<times> string) list"
  row_timeout_ms :: int
  row_interactive :: bool
  row_status :: string
  row_exit_code :: "int option"
  row_error :: "string option"
  row_output_summary :: "string option"
  row_requested_by :: string
  row_created_at :: timestamp
  row_started_at :: "timestamp option"
  row_finished_at :: "timestamp option"

type_synonym PgJobStore = "(uuid \<times> JobRow) list"

definition encode_status :: "JobStatus \<Rightarrow> string" where
  "encode_status s = (case s of
      Pending \<Rightarrow> ''pending''
    | Sent \<Rightarrow> ''sent''
    | Running \<Rightarrow> ''running''
    | Finished \<Rightarrow> ''finished''
    | Failed \<Rightarrow> ''failed''
    | Cancelled \<Rightarrow> ''cancelled'')"

definition decode_status :: "string \<Rightarrow> HubError + JobStatus" where
  "decode_status s =
     (if s = ''pending'' then Inr Pending
      else if s = ''sent'' then Inr Sent
      else if s = ''running'' then Inr Running
      else if s = ''finished'' then Inr Finished
      else if s = ''failed'' then Inr Failed
      else if s = ''cancelled'' then Inr Cancelled
      else Inl (Internal (''unknown job status: '' @ s)))"

definition map_job :: "JobRow \<Rightarrow> HubError + Job" where
  "map_job row =
     (if row_timeout_ms row < 0 then Inl (Internal ''out of range integral type conversion attempted'')
      else (case decode_status (row_status row) of
        Inl e \<Rightarrow> Inl e
      | Inr status \<Rightarrow>
          Inr \<lparr> job_id = row_id row,
                job_device_id = row_device_id row,
                job_tool = row_tool row,
                job_args = row_args row,
                job_cwd = row_cwd row,
                job_env = row_env row,
                job_timeout_ms = word_of_int (row_timeout_ms row),
                job_interactive = row_interactive row,
                job_status = status,
                job_exit_code = row_exit_code row,
                job_error = row_error row,
                job_output_summary = row_output_summary row,
                job_requested_by = row_requested_by row,
                job_created_at = row_created_at row,
                job_started_at = row_started_at row,
                job_finished_at = row_finished_at row \<rparr>))"

text \<open>
  \<open>parse_str\<close> stands for \<^verbatim>\<open>Uuid::parse_str\<close> of the uuid crate, its error already formatted with
  the offending id; \<open>now\<close> is the column default of \<^verbatim>\<open>created_at\<close> on insertion.
\<close>

definition pg_get :: "(string \<Rightarrow> string + uuid) \<Rightarrow> PgJobStore \<Rightarrow> string \<Rightarrow> HubError + Job option" where
  "pg_get parse_str rows i =
     (case parse_str i of
        Inl err \<Rightarrow> Inl (InvalidToken err)
      | Inr parsed \<Rightarrow>
          (case map_of rows parsed of
             None \<Rightarrow> Inr None
           | Some row \<Rightarrow> (case map_job row of Inl e \<Rightarrow> Inl e | Inr job \<Rightarrow> Inr (Some job))))"

definition pg_insert ::
  "(string \<Rightarrow> string + uuid) \<Rightarrow> PgJobStore \<Rightarrow> uuid \<Rightarrow> timestamp \<Rightarrow> NewJob \<Rightarrow> HubError + (PgJobStore \<times> Job)" where
  "pg_insert parse_str rows i now nj =
     (if 2 ^ 63 \<le> uint (nj_timeout_ms nj)
      then Inl (Internal ''out of range integral type conversion attempted'')
      else if map_of rows i \<noteq> None
      then Inl (Internal ''duplicate key value violates unique constraint'')
      else
        (let row = \<lparr> row_id = i, row_device_id = nj_device_id nj, row_tool = nj_tool nj,
                     row_args = nj_args nj, row_cwd = nj_cwd nj, row_env = nj_env nj,
                     row_timeout_ms = uint (nj_timeout_ms nj), row_interactive = nj_interactive nj,
                     row_status = encode_status Pending, row_exit_code = None, row_error = None,
                     row_output_summary = None, row_requested_by = nj_requested_by nj,
                     row_created_at = now, row_started_at = None, row_finished_at = None \<rparr>;
             rows' = AList.update i row rows
         in (case pg_get parse_str rows' i of
               Inl e \<Rightarrow> Inl e
             | Inr None \<Rightarrow> Inl (Internal (''inserted job missing: '' @ i))
             | Inr (Some job) \<Rightarrow> Inr (rows', job))))"

definition pg_update_status_row :: "JobRow \<Rightarrow> string \<Rightarrow> timestamp \<Rightarrow> JobRow" where
  "pg_update_status_row row s now =
     row\<lparr> row_status := s,
          row_started_at := (if s = ''running'' \<and> row_started_at row = None
                             then Some now else row_started_at row),
          row_finished_at := (if s = ''finished'' \<or> s = ''failed'' \<or> s = ''cancelled''
                              then Some now else row_finished_at row) \<rparr>"

definition pg_transition_status ::
  "(string \<Rightarrow> string + uuid) \<Rightarrow> PgJobStore \<Rightarrow> string \<Rightarrow> JobStatus \<Rightarrow> timestamp \<Rightarrow>
   HubError + (PgJobStore \<times> JobStatus option)" where
  "pg_transition_status parse_str rows i status now =
     (case parse_str i of
        Inl err \<Rightarrow> Inl (InvalidToken err)
      | Inr parsed \<Rightarrow>
          (case map_of rows parsed of
             None \<Rightarrow> Inl (JobNotFound i)
           | Some row \<Rightarrow>
               (case decode_status (row_status row) of
                  Inl e \<Rightarrow> Inl e
                | Inr current \<Rightarrow>
                    if current = status then Inr (rows, None)
                    else (case resolve_status_transition current status of
                        Inl e \<Rightarrow> Inl e
                      | Inr next_status \<Rightarrow>
                          Inr (AList.update parsed
                                 (pg_update_status_row row (encode_status next_status) now) rows,
                               Some next_status)))))"

definition pg_update_terminal ::
  "(string \<Rightarrow> string + uuid) \<Rightarrow> PgJobStore \<Rightarrow> string \<Rightarrow> int \<Rightarrow> string \<Rightarrow> string \<Rightarrow> HubError + PgJobStore" where
  "pg_update_terminal parse_str rows i exit_code err output_summary =
     (case parse_str i of
        Inl e \<Rightarrow> Inl (InvalidToken e)
      | Inr parsed \<Rightarrow>
          (case map_of rows parsed of
             None \<Rightarrow> Inl (JobNotFound i)
           | Some row \<Rightarrow>
               Inr (AList.update parsed (row\<lparr>row_exit_code := Some exit_code,
                                               row_error := Some err,
                                               row_output_summary := Some output_summary\<rparr>) rows)))"

subsection \<open>Specification: sequences of transition requests\<close>

text \<open>
  What a client of the store does: it sends requests one after the other and goes on when one
  is refused. The result lists the effective transitions, oldest first. The store is any
  implementation of the \<^verbatim>\<open>JobStore\<close> trait, given by its transition operation.
\<close>

fun run_requests ::
  "('s \<Rightarrow> string \<Rightarrow> JobStatus \<Rightarrow> timestamp \<Rightarrow> HubError + ('s \<times> JobStatus option)) \<Rightarrow>
   's \<Rightarrow> string \<Rightarrow> (JobStatus \<times> timestamp) list \<Rightarrow> 's \<times> JobStatus list" where
  "run_requests transition st i [] = (st, [])"
| "run_requests transition st i ((s, t) # reqs) =
     (case transition st i s t of
        Inl e \<Rightarrow> run_requests transition st i reqs
      | Inr (st', None) \<Rightarrow> run_requests transition st' i reqs
      | Inr (st', Some s') \<Rightarrow>
          (case run_requests transition st' i reqs of (st'', outs) \<Rightarrow> (st'', s' # outs)))"

fun status_rank :: "JobStatus \<Rightarrow> nat" where
  "status_rank Pending = 0"
| "status_rank Sent = 1"
| "status_rank Running = 2"
| "status_rank Finished = 3"
| "status_rank Failed = 3"
| "status_rank Cancelled = 3"

text \<open>
  The consistency of a stored job: it carries a finish time exactly when its status is
  terminal, and a job that is running carries a start time.
\<close>

definition job_wf :: "Job \<Rightarrow> bool" where
  "job_wf job \<longleftrightarrow>
     (is_terminal_status (job_status job) \<longleftrightarrow> job_finished_at job \<noteq> None) \<and>
     (job_status job = Running \<longrightarrow> job_started_at job \<noteq> None) \<and>
     (status_rank (job_status job) < 2 \<longrightarrow> job_started_at job = None)"

text \<open>The instants a job carries are in order and none lies after \<open>t\<close>.\<close>

definition job_times :: "Job \<Rightarrow> timestamp \<Rightarrow> bool" where
  "job_times job t \<longleftrightarrow>
     job_created_at job \<le> t \<and>
     (case job_started_at job of None \<Rightarrow> True | Some s \<Rightarrow> job_created_at job \<le> s \<and> s \<le> t) \<and>
     (case job_finished_at job of None \<Rightarrow> True | Some f \<Rightarrow> job_created_at job \<le> f \<and> f \<le> t) \<and>
     (case (job_started_at job, job_finished_at job) of (Some s, Some f) \<Rightarrow> s \<le> f | _ \<Rightarrow> True)"

text \<open>The job a row of the Postgres table stands for.\<close>

definition row_job :: "JobRow \<Rightarrow> Job" where
  "row_job row = projr (map_job row)"

definition row_wf :: "JobRow \<Rightarrow> bool" where
  "row_wf row \<longleftrightarrow> 0 \<le> row_timeout_ms row \<and> row_timeout_ms row < 2 ^ 63 \<and>
     (\<exists>s \<in> {Pending, Sent, Running, Finished, Failed, Cancelled}. row_status row = encode_status s)"

definition pg_wf :: "PgJobStore \<Rightarrow> bool" where
  "pg_wf rows \<longleftrightarrow> (\<forall>(i, row) \<in> set rows. row_wf row)"

definition pg_abs :: "PgJobStore \<Rightarrow> MemoryJobStore" where
  "pg_abs rows = map (\<lambda>(i, row). (i, row_job row)) rows"

text \<open>A job request as a dashboard user sends it.\<close>

definition echo_job :: NewJob where
  "echo_job = \<lparr> nj_device_id = ''dev1'', nj_tool = ''echo'', nj_args = [''hi''], nj_cwd = None,
     nj_env = [], nj_timeout_ms = 30000, nj_requested_by = ''alice'', nj_interactive = False \<rparr>"

section \<open>Lemmas\<close>

subsection \<open>The status machine\<close>

lemmas status_machine_defs = resolve_status_transition_def is_terminal_status_def

lemma is_terminal_status_rank: "is_terminal_status s \<longleftrightarrow> status_rank s = 3"
  by (cases s) (auto simp: is_terminal_status_def)

lemma status_rank_le: "status_rank s \<le> 3"
  by (cases s) auto

lemma resolve_status_transition_Inr:
  "resolve_status_transition c r = Inr n \<longleftrightarrow> n = r \<and> (c = r \<or> status_rank c < status_rank r)"
  by (cases c; cases r) (auto simp: status_machine_defs)

lemma resolve_status_transition_Inl:
  "resolve_status_transition c r = Inl e \<longleftrightarrow>
     e = IllegalJobTransition c r \<and> c \<noteq> r \<and> status_rank r \<le> status_rank c"
  by (cases c; cases r) (auto simp: status_machine_defs)

lemma apply_status_transition_Inr:
  "apply_status_transition job r t = Inr (job', n) \<Longrightarrow>
     n = r \<and> job_status job' = r \<and> (job_status job = r \<or> status_rank (job_status job) < status_rank r)"
  by (auto simp: apply_status_transition_def Let_def resolve_status_transition_Inr
      split: sum.splits if_splits)

lemma apply_status_transition_wf:
  "job_wf job \<Longrightarrow> apply_status_transition job r t = Inr (job', n) \<Longrightarrow> job_wf job'"
  by (cases r)
    (auto simp: apply_status_transition_def Let_def job_wf_def resolve_status_transition_Inr
      is_terminal_status_rank split: sum.splits if_splits)

lemma new_pending_wf: "job_wf (new_pending i nj t)"
  by (simp add: new_pending_def job_wf_def is_terminal_status_def)

subsection \<open>Status text\<close>

lemma decode_encode_status [simp]: "decode_status (encode_status s) = Inr s"
  by (cases s) (simp_all add: decode_status_def encode_status_def)

lemma encode_status_inject [simp]: "encode_status s = encode_status t \<longleftrightarrow> s = t"
  by (metis decode_encode_status sum.inject(2))

lemma encode_status_texts [simp]:
  "encode_status s = ''running'' \<longleftrightarrow> s = Running"
  "encode_status s = ''finished'' \<longleftrightarrow> s = Finished"
  "encode_status s = ''failed'' \<longleftrightarrow> s = Failed"
  "encode_status s = ''cancelled'' \<longleftrightarrow> s = Cancelled"
  by (cases s; simp add: encode_status_def)+

subsection \<open>The job store contract\<close>

text \<open>
  What the hub's components rely on of an implementation of \<^verbatim>\<open>JobStore\<close>: on identifiers the
  implementation accepts, a transition that takes effect replaces the job by what
  \<^const>\<open>apply_status_transition\<close> makes of it, one that has none leaves the store alone.
\<close>

locale job_store =
  fixes get :: "'s \<Rightarrow> string \<Rightarrow> HubError + Job option"
    and transition :: "'s \<Rightarrow> string \<Rightarrow> JobStatus \<Rightarrow> timestamp \<Rightarrow> HubError + ('s \<times> JobStatus option)"
    and invar :: "'s \<Rightarrow> bool"
    and valid_id :: "string \<Rightarrow> bool"
  assumes transition_some: "invar s \<Longrightarrow> valid_id i \<Longrightarrow> transition s i r t = Inr (s', Some n) \<Longrightarrow>
      \<exists>job job'. get s i = Inr (Some job) \<and> job_status job \<noteq> r \<and>
        apply_status_transition job r t = Inr (job', n) \<and> get s' i = Inr (Some job')"
    and transition_none: "invar s \<Longrightarrow> valid_id i \<Longrightarrow> transition s i r t = Inr (s', None) \<Longrightarrow> s' = s"
    and transition_invar: "invar s \<Longrightarrow> valid_id i \<Longrightarrow> transition s i r t = Inr (s', res) \<Longrightarrow> invar s'"
begin

lemma transition_rank:
  assumes "invar s" and "valid_id i" and "transition s i r t = Inr (s', Some n)"
    and "get s i = Inr (Some job)"
  obtains job' where "get s' i = Inr (Some job')" and "job_status job' = n"
    and "status_rank (job_status job) < status_rank n"
proof -
  from transition_some [OF assms(1-3)] assms(4) obtain job' where
    j: "job_status job \<noteq> r" "apply_status_transition job r t = Inr (job', n)"
      "get s' i = Inr (Some job')"
    by auto
  with apply_status_transition_Inr [OF j(2)] show thesis by (auto intro: that)
qed

lemma status_chain:
  assumes "invar s" and "valid_id i" and "get s i = Inr (Some job)"
    and "run_requests transition s i reqs = (s', outs)"
  shows "\<exists>job'. get s' i = Inr (Some job') \<and> job_status job' = last (job_status job # outs) \<and>
    sorted_wrt (<) (map status_rank (job_status job # outs))"
  using assms
proof (induction reqs arbitrary: s job outs)
  case Nil
  then show ?case by simp
next
  case (Cons req reqs)
  obtain r t where req: "req = (r, t)" by (cases req)
  consider (err) e where "transition s i r t = Inl e"
    | (none) "transition s i r t = Inr (s, None)"
    | (some) s1 n where "transition s i r t = Inr (s1, Some n)"
    using transition_none [OF Cons.prems(1,2)]
    by (cases "transition s i r t") (force, metis not_Some_eq surj_pair)
  then show ?case
  proof cases
    case err
    with Cons req show ?thesis by simp
  next
    case none
    with Cons req show ?thesis by simp
  next
    case some
    from transition_rank [OF Cons.prems(1,2) some Cons.prems(3)] obtain job1 where
      j1: "get s1 i = Inr (Some job1)" "job_status job1 = n"
        "status_rank (job_status job) < status_rank n" .
    from some Cons.prems(4) req obtain outs1 where
      run: "run_requests transition s1 i reqs = (s', outs1)" and outs: "outs = n # outs1"
      by (auto split: prod.splits)
    from Cons.IH [OF transition_invar [OF Cons.prems(1,2) some] Cons.prems(2) j1(1) run] j1(2,3) outs
    show ?thesis by (auto) (meson less_trans)
  qed
qed

lemma terminal_absorbing:
  assumes "invar s" and "valid_id i" and "get s i = Inr (Some job)"
    and "is_terminal_status (job_status job)"
  shows "run_requests transition s i reqs = (s, [])"
proof (induction reqs)
  case (Cons req reqs)
  obtain r t where req: "req = (r, t)" by (cases req)
  have "transition s i r t \<noteq> Inr (s', Some n)" for s' n
    using transition_rank [OF assms(1,2) _ assms(3)] assms(4) status_rank_le [of n]
    by (metis is_terminal_status_rank leD)
  with transition_none [OF assms(1,2)] Cons req show ?case
    by (auto split: sum.splits option.splits)
qed simp

end


subsection \<open>Both stores provide the contract\<close>

interpretation mem: job_store "\<lambda>jobs i. Inr (get_job jobs i)" transition_status "\<lambda>_. True" "\<lambda>_. True"
proof unfold_locales
  fix s i r t s' n
  assume "transition_status s i r t = Inr (s', Some n)"
  then show "\<exists>job job'. Inr (get_job s i) = Inr (Some job) \<and> job_status job \<noteq> r \<and>
      apply_status_transition job r t = Inr (job', n) \<and> Inr (get_job s' i) = Inr (Some job')"
    by (auto simp: transition_status_def get_job_def AList.update_conv' split: option.splits if_splits sum.splits)
qed (auto simp: transition_status_def split: option.splits if_splits sum.splits)

lemma pg_wf_update: "pg_wf rows \<Longrightarrow> row_wf row \<Longrightarrow> pg_wf (AList.update i row rows)"
  unfolding pg_wf_def by (induction rows) auto

lemma pg_wf_row: "pg_wf rows \<Longrightarrow> map_of rows i = Some row \<Longrightarrow> row_wf row"
  unfolding pg_wf_def by (auto dest!: map_of_SomeD)

lemma pg_wf_update_status:
  assumes "pg_wf rows" and "map_of rows i = Some row"
  shows "pg_wf (AList.update i (pg_update_status_row row (encode_status n) t) rows)"
  using pg_wf_row [OF assms]
  by (intro pg_wf_update [OF assms(1)]) (cases n; simp add: row_wf_def pg_update_status_row_def)

text \<open>
  The \<^verbatim>\<open>UPDATE\<close> statement's three \<^verbatim>\<open>CASE\<close> columns write what \<^const>\<open>apply_status_transition\<close>
  writes into the job.
\<close>

lemma map_job_update:
  assumes "map_job row = Inr job"
    and "resolve_status_transition (job_status job) r = Inr n" and "job_status job \<noteq> r"
  shows "map_job (pg_update_status_row row (encode_status n) now)
    = Inr (fst (projr (apply_status_transition job r now)))"
  using assms
  by (cases n)
    (auto simp: map_job_def pg_update_status_row_def apply_status_transition_def is_terminal_status_def
      split: sum.splits if_splits)

lemma apply_status_transition_eq:
  "resolve_status_transition (job_status job) r = Inr n \<Longrightarrow>
   apply_status_transition job r now = Inr (fst (projr (apply_status_transition job r now)), n)"
  by (auto simp: apply_status_transition_def Let_def)

interpretation pg: job_store "pg_get parse_str" "pg_transition_status parse_str" pg_wf
  "\<lambda>i. parse_str i = Inr i" for parse_str
proof unfold_locales
  fix s i r t s' n
  assume wf: "pg_wf s" and i: "parse_str i = Inr i"
    and tr: "pg_transition_status parse_str s i r t = Inr (s', Some n)"
  then obtain row c where row: "map_of s i = Some row" and c: "decode_status (row_status row) = Inr c"
    and ne: "c \<noteq> r" and rs: "resolve_status_transition c r = Inr n"
    by (auto simp: pg_transition_status_def Let_def split: option.splits sum.splits if_splits)
  from pg_wf_row [OF wf row] c obtain job where job: "map_job row = Inr job" "job_status job = c"
    by (auto simp: map_job_def row_wf_def)
  from tr i row c ne rs map_job_update [OF job(1), of r n t] job(2)
  have "pg_get parse_str s' i = Inr (Some (fst (projr (apply_status_transition job r t))))"
    by (auto simp: pg_transition_status_def pg_get_def Let_def AList.update_conv')
  with i row job ne rs apply_status_transition_eq [of job r n t]
  show "\<exists>job job'. pg_get parse_str s i = Inr (Some job) \<and> job_status job \<noteq> r \<and>
      apply_status_transition job r t = Inr (job', n) \<and> pg_get parse_str s' i = Inr (Some job')"
    by (intro exI [of _ job] exI [of _ "fst (projr (apply_status_transition job r t))"])
      (simp add: pg_get_def)
next
  fix s i r t s'
  assume "parse_str i = Inr i" and "pg_transition_status parse_str s i r t = Inr (s', None)"
  then show "s' = s"
    by (auto simp: pg_transition_status_def Let_def split: option.splits sum.splits if_splits)
next
  fix s i r t s' res
  assume wf: "pg_wf s" and tr: "pg_transition_status parse_str s i r t = Inr (s', res)"
  then show "pg_wf s'"
    by (auto simp: pg_transition_status_def pg_wf_update_status
        split: option.splits sum.splits if_splits)
qed


subsection \<open>The life of one job\<close>

lemma apply_status_transition_times:
  assumes "job_times job t" and "t \<le> t'" and "job_finished_at job = None"
    and "apply_status_transition job r t' = Inr (job', n)"
  shows "job_times job' t' \<and> job_created_at job' = job_created_at job"
  using assms
  by (cases "job_started_at job")
    (auto simp: apply_status_transition_def Let_def job_times_def split: sum.splits if_splits option.splits)

lemma job_times_mono: "job_times job t \<Longrightarrow> t \<le> t' \<Longrightarrow> job_times job t'"
  by (auto simp: job_times_def split: option.splits)

lemma run_requests_times:
  assumes "get_job jobs i = Some job" and "job_wf job" and "job_times job t"
    and "sorted (t # map snd reqs)" and "run_requests transition_status jobs i reqs = (jobs', outs)"
  shows "\<exists>job'. get_job jobs' i = Some job' \<and> job_wf job' \<and>
    job_created_at job' = job_created_at job \<and> job_times job' (last (t # map snd reqs))"
  using assms
proof (induction reqs arbitrary: jobs job t outs)
  case (Cons req reqs)
  obtain r t' where req: "req = (r, t')" by (cases req)
  from Cons.prems(3,4) req have t': "job_times job t'" "sorted (t' # map snd reqs)" "t \<le> t'"
    by (auto intro: job_times_mono)
  show ?case
  proof (cases "\<exists>jobs1 n. transition_status jobs i r t' = Inr (jobs1, Some n)")
    case False
    then have "run_requests transition_status jobs i reqs = (jobs', outs)"
      using Cons.prems(5) req mem.transition_none [of jobs i r t']
      by (auto split: sum.splits option.splits)
    from Cons.IH [OF Cons.prems(1,2) t'(1,2) this] req show ?thesis by simp
  next
    case True
    then obtain jobs1 n where tr: "transition_status jobs i r t' = Inr (jobs1, Some n)" by blast
    from mem.transition_some [OF _ _ this] Cons.prems(1) obtain job1 where
      j1: "apply_status_transition job r t' = Inr (job1, n)" "job_status job \<noteq> r"
        "get_job jobs1 i = Some job1"
      by auto
    from apply_status_transition_Inr [OF j1(1)] j1(2) Cons.prems(2)
    have "job_finished_at job = None"
      using status_rank_le [of r] by (auto simp: job_wf_def is_terminal_status_rank)
    with apply_status_transition_times [OF t'(1) order_refl _ j1(1)]
    have "job_times job1 t'" "job_created_at job1 = job_created_at job" by auto
    moreover from Cons.prems(5) req tr obtain outs1 where
      "run_requests transition_status jobs1 i reqs = (jobs', outs1)"
      by (auto split: prod.splits)
    ultimately show ?thesis
      using Cons.IH [OF j1(3) apply_status_transition_wf [OF Cons.prems(2) j1(1)] _ t'(2)] req by simp
  qed
qed auto

lemma sorted_rank_length:
  assumes "sorted_wrt (<) (map status_rank (s # outs))"
  shows "status_rank s + length outs \<le> 3"
  using assms
proof (induction outs arbitrary: s)
  case (Cons n outs)
  then have "status_rank n + length outs \<le> 3" and "status_rank s < status_rank n" by auto
  then show ?case by simp
qed (simp add: status_rank_le)

subsection \<open>The Postgres store refines the in-memory store\<close>

lemma pg_abs_update: "pg_abs (AList.update i row rows) = AList.update i (row_job row) (pg_abs rows)"
  by (induction rows) (auto simp: pg_abs_def)

lemma map_of_pg_abs: "map_of (pg_abs rows) i = map_option row_job (map_of rows i)"
  by (induction rows) (auto simp: pg_abs_def)

lemma row_wf_map_job: "row_wf row \<Longrightarrow> \<exists>s. map_job row = Inr (row_job row) \<and>
    row_status row = encode_status s \<and> job_status (row_job row) = s"
  by (auto simp: row_job_def row_wf_def map_job_def)

section \<open>Properties\<close>

text \<open>The evaluation rules of the concrete runs.\<close>

lemmas witness_simps = echo_job_def insert_job_def get_job_def new_pending_def Let_def
  transition_status_def apply_status_transition_def status_machine_defs pg_insert_def pg_get_def
  map_job_def decode_status_def encode_status_def pg_transition_status_def pg_update_status_row_def
  pg_wf_def row_wf_def pg_abs_def row_job_def job_wf_def job_times_def

text \<open>
  C10. Whatever sequence of status requests reaches a stored job, the statuses it takes form a
  strictly increasing chain in the order pending, sent, running, terminal, so at most three
  requests take effect, and the job ends in the last of them.
\<close>

theorem job_status_chain:
  assumes "get_job jobs i = Some job"
    and "run_requests transition_status jobs i reqs = (jobs', outs)"
  shows "\<exists>job'. get_job jobs' i = Some job' \<and> job_status job' = last (job_status job # outs) \<and>
    sorted_wrt (<) (map status_rank (job_status job # outs)) \<and> length outs \<le> 3"
  using mem.status_chain [of jobs i job reqs jobs' outs] assms sorted_rank_length by fastforce

theorem job_status_chain_witness:
  "let jobs = fst (insert_job [] ''j1'' 5 echo_job);
       (jobs', outs) = run_requests transition_status jobs ''j1''
         [(Running, 7), (Sent, 8), (Finished, 9), (Failed, 10)]
   in outs = [Running, Finished] \<and> length outs \<le> 3 \<and>
      map_option job_status (get_job jobs' ''j1'') = Some Finished"
  using job_status_chain [of "fst (insert_job [] ''j1'' 5 echo_job)" "''j1''"
      "snd (insert_job [] ''j1'' 5 echo_job)"
      "[(Running, 7), (Sent, 8), (Finished, 9), (Failed, 10)]"]
  by (simp add: witness_simps)

text \<open>
  A job that has reached a terminal status is never changed again by the Postgres store:
  every later sequence of status requests leaves the table as it is, finish time included.
\<close>

theorem pg_terminal_immutable:
  assumes "pg_wf rows" and "parse_str i = Inr i" and "pg_get parse_str rows i = Inr (Some job)"
    and "is_terminal_status (job_status job)"
  shows "run_requests (pg_transition_status parse_str) rows i reqs = (rows, [])"
  using assms by (rule pg.terminal_absorbing)

theorem pg_terminal_immutable_witness:
  "let rows = fst (projr (pg_insert Inr [] ''j1'' 5 echo_job));
       rows' = fst (run_requests (pg_transition_status Inr) rows ''j1'' [(Failed, 9)])
   in run_requests (pg_transition_status Inr) rows' ''j1'' [(Finished, 10), (Failed, 11)] = (rows', [])"
  using pg_terminal_immutable [of
      "fst (run_requests (pg_transition_status Inr)
         (fst (projr (pg_insert Inr [] ''j1'' 5 echo_job))) ''j1'' [(Failed, 9)])"
      Inr "''j1''" _ "[(Finished, 10), (Failed, 11)]"]
  by (simp add: witness_simps)

text \<open>
  A job created at \<open>now\<close> and driven by requests at non-decreasing times carries a finish time
  exactly when its status is terminal, a start time whenever it is running, and the three
  instants are in order.
\<close>

theorem job_timestamps_consistent:
  assumes "insert_job jobs i now nj = (jobs1, job0)" and "sorted (now # map snd reqs)"
    and "run_requests transition_status jobs1 i reqs = (jobs', outs)"
  shows "\<exists>job. get_job jobs' i = Some job \<and> job_wf job \<and> job_created_at job = now \<and>
    job_times job (last (now # map snd reqs))"
proof -
  from assms(1) have "get_job jobs1 i = Some job0" and job0: "job0 = new_pending i nj now"
    by (auto simp: insert_job_def get_job_def Let_def AList.update_conv' new_pending_def)
  moreover have "job_wf job0" by (simp add: job0 new_pending_wf)
  moreover have "job_times job0 now" "job_created_at job0 = now"
    by (simp_all add: job0 new_pending_def job_times_def)
  ultimately show ?thesis using run_requests_times [OF _ _ _ assms(2,3)] by simp
qed

theorem job_timestamps_consistent_witness:
  "let jobs = fst (insert_job [] ''j1'' 5 echo_job);
       jobs' = fst (run_requests transition_status jobs ''j1'' [(Running, 7), (Finished, 9)])
   in \<exists>job. get_job jobs' ''j1'' = Some job \<and> job_wf job \<and> job_created_at job = 5 \<and>
      job_started_at job = Some 7 \<and> job_finished_at job = Some 9 \<and> job_times job 9"
  using job_timestamps_consistent [of "[]" "''j1''" 5 echo_job _ _ "[(Running, 7), (Finished, 9)]"]
  by (simp add: witness_simps)



end
