(* ===== verification/Outboxes.thy ===== *)
theory Outboxes
  imports Prelude
begin

text \<open>
  The two in-process outboxes: the hub's (\<^verbatim>\<open>ahand-hub-core/src/outbox.rs\<close>) and the daemon's
  (\<^verbatim>\<open>ahandd/src/outbox.rs\<close>). Both number outbound messages, keep the unacknowledged ones for
  replay in a bounded buffer and drop a message when the peer acknowledges it.

  The locale \<open>outbox\<close> states what both promise; it is interpreted on each of them, and its main
  fact is a refinement: after any sequence of sends and valid acknowledgements the buffer holds
  exactly the last \<open>max_buffer\<close> messages sent and not acknowledged, in order.
\<close>

section \<open>Definitions\<close>

subsection \<open>The hub's outbox\<close>

record Outbox =
  ob_next_seq :: u64
  ob_peer_ack :: u64
  ob_local_ack :: u64
  ob_buffer :: "(u64 \<times> bytes) list"
  ob_max_buffer :: nat

definition ob_new :: "nat \<Rightarrow> Outbox" where
  "ob_new max_buffer =
     \<lparr> ob_next_seq = 1, ob_peer_ack = 0, ob_local_ack = 0, ob_buffer = [], ob_max_buffer = max_buffer \<rparr>"

definition reserve_seq :: "Outbox \<Rightarrow> Outbox \<times> u64" where
  "reserve_seq ob = (let seq = ob_next_seq ob in (ob\<lparr>ob_next_seq := ob_next_seq ob + 1\<rparr>, seq))"

definition ob_store :: "Outbox \<Rightarrow> u64 \<Rightarrow> bytes \<Rightarrow> Outbox" where
  "ob_store ob seq data = ob\<lparr>ob_buffer := evict (ob_max_buffer ob) (ob_buffer ob @ [(seq, data)])\<rparr>"

definition store_raw :: "Outbox \<Rightarrow> bytes \<Rightarrow> Outbox \<times> u64" where
  "store_raw ob data = (let (ob', seq) = reserve_seq ob in (ob_store ob' seq data, seq))"

definition ob_on_recv :: "Outbox \<Rightarrow> u64 \<Rightarrow> Outbox" where
  "ob_on_recv ob seq = ob\<lparr>ob_local_ack := max (ob_local_ack ob) seq\<rparr>"

definition ob_on_peer_ack :: "Outbox \<Rightarrow> u64 \<Rightarrow> Outbox" where
  "ob_on_peer_ack ob ack =
     (let peer_ack = max (ob_peer_ack ob) ack
      in ob\<lparr>ob_peer_ack := peer_ack, ob_buffer := trim_acked peer_ack (ob_buffer ob)\<rparr>)"

definition last_issued_seq :: "Outbox \<Rightarrow> u64" where
  "last_issued_seq ob = (if ob_next_seq ob = 0 then 0 else ob_next_seq ob - 1)"

definition try_on_peer_ack :: "Outbox \<Rightarrow> u64 \<Rightarrow> Outbox \<times> bool" where
  "try_on_peer_ack ob ack =
     (if last_issued_seq ob < ack then (ob, False) else (ob_on_peer_ack ob ack, True))"

definition replay_from :: "Outbox \<Rightarrow> u64 \<Rightarrow> bytes list" where
  "replay_from ob last_ack = map snd (filter (\<lambda>(seq, _). last_ack < seq) (ob_buffer ob))"

fun remove_first :: "u64 \<Rightarrow> (u64 \<times> 'a) list \<Rightarrow> (u64 \<times> 'a) list" where
  "remove_first seq [] = []"
| "remove_first seq ((s, d) # q) = (if s = seq then q else (s, d) # remove_first seq q)"

definition ob_remove :: "Outbox \<Rightarrow> u64 \<Rightarrow> Outbox" where
  "ob_remove ob seq = ob\<lparr>ob_buffer := remove_first seq (ob_buffer ob)\<rparr>"

definition ob_is_empty :: "Outbox \<Rightarrow> bool" where
  "ob_is_empty ob \<longleftrightarrow> ob_buffer ob = []"

subsection \<open>The daemon's outbox\<close>

text \<open>
  The wire message, with its payload left abstract; \<open>encode\<close> stands for prost's
  \<^verbatim>\<open>encode_to_vec\<close>.
\<close>

record 'p Envelope =
  env_device_id :: string
  env_trace_id :: string
  env_msg_id :: string
  env_seq :: u64
  env_ack :: u64
  env_ts_ms :: u64
  env_payload :: "'p option"

record DaemonOutbox =
  do_next_seq :: u64
  do_peer_ack :: u64
  do_local_ack :: u64
  do_buffer :: "(u64 \<times> bytes) list"
  do_max_buffer :: nat

definition do_new :: "nat \<Rightarrow> DaemonOutbox" where
  "do_new max_buffer =
     \<lparr> do_next_seq = 1, do_peer_ack = 0, do_local_ack = 0, do_buffer = [], do_max_buffer = max_buffer \<rparr>"

definition stamp :: "DaemonOutbox \<Rightarrow> 'p Envelope \<Rightarrow> DaemonOutbox \<times> 'p Envelope \<times> u64" where
  "stamp ob envelope =
     (let seq = do_next_seq ob
      in (ob\<lparr>do_next_seq := do_next_seq ob + 1\<rparr>,
          envelope\<lparr>env_seq := seq, env_ack := do_local_ack ob\<rparr>, seq))"

definition do_store :: "DaemonOutbox \<Rightarrow> u64 \<Rightarrow> bytes \<Rightarrow> DaemonOutbox" where
  "do_store ob seq data = ob\<lparr>do_buffer := evict (do_max_buffer ob) (do_buffer ob @ [(seq, data)])\<rparr>"

definition do_on_recv :: "DaemonOutbox \<Rightarrow> u64 \<Rightarrow> DaemonOutbox" where
  "do_on_recv ob seq = (if do_local_ack ob < seq then ob\<lparr>do_local_ack := seq\<rparr> else ob)"

definition do_on_peer_ack :: "DaemonOutbox \<Rightarrow> u64 \<Rightarrow> DaemonOutbox" where
  "do_on_peer_ack ob ack =
     (let ob' = (if do_peer_ack ob < ack then ob\<lparr>do_peer_ack := ack\<rparr> else ob)
      in ob'\<lparr>do_buffer := trim_acked (do_peer_ack ob') (do_buffer ob')\<rparr>)"

definition drain_unacked :: "DaemonOutbox \<Rightarrow> bytes list" where
  "drain_unacked ob = map snd (do_buffer ob)"

definition pending_count :: "DaemonOutbox \<Rightarrow> nat" where
  "pending_count ob = length (do_buffer ob)"

definition prepare_outbound ::
  "('p Envelope \<Rightarrow> bytes) \<Rightarrow> DaemonOutbox \<Rightarrow> 'p Envelope \<Rightarrow> DaemonOutbox \<times> 'p Envelope \<times> bytes" where
  "prepare_outbound encode ob envelope =
     (let (ob', envelope', seq) = stamp ob envelope;
          data = encode envelope'
      in (do_store ob' seq data, envelope', data))"

subsection \<open>Specification: the log of an outbox\<close>

text \<open>
  What happens to an outbox over time. A run yields the final state and the log of all messages
  sent with the number each was given; \<open>ok\<close> says which acknowledgements may arrive.
\<close>

datatype 'm outbox_op = Send 'm | PeerAck u64 | Recv u64

fun run_outbox ::
  "('s \<Rightarrow> 'm \<Rightarrow> 's \<times> u64 \<times> bytes) \<Rightarrow> ('s \<Rightarrow> u64 \<Rightarrow> 's) \<Rightarrow> ('s \<Rightarrow> u64 \<Rightarrow> 's) \<Rightarrow>
   's \<Rightarrow> 'm outbox_op list \<Rightarrow> 's \<times> (u64 \<times> bytes) list" where
  "run_outbox send ack recv s [] = (s, [])"
| "run_outbox send ack recv s (Send m # ops) =
     (case send s m of (s', q, d) \<Rightarrow>
        (case run_outbox send ack recv s' ops of (t, log) \<Rightarrow> (t, (q, d) # log)))"
| "run_outbox send ack recv s (PeerAck a # ops) = run_outbox send ack recv (ack s a) ops"
| "run_outbox send ack recv s (Recv q # ops) = run_outbox send ack recv (recv s q) ops"

fun acks_ok ::
  "('s \<Rightarrow> u64 \<Rightarrow> bool) \<Rightarrow> ('s \<Rightarrow> 'm \<Rightarrow> 's \<times> u64 \<times> bytes) \<Rightarrow> ('s \<Rightarrow> u64 \<Rightarrow> 's) \<Rightarrow> ('s \<Rightarrow> u64 \<Rightarrow> 's) \<Rightarrow>
   's \<Rightarrow> 'm outbox_op list \<Rightarrow> bool" where
  "acks_ok ok send ack recv s [] = True"
| "acks_ok ok send ack recv s (Send m # ops) =
     (case send s m of (s', _) \<Rightarrow> acks_ok ok send ack recv s' ops)"
| "acks_ok ok send ack recv s (PeerAck a # ops) = (ok s a \<and> acks_ok ok send ack recv (ack s a) ops)"
| "acks_ok ok send ack recv s (Recv q # ops) = acks_ok ok send ack recv (recv s q) ops"

definition hub_send :: "Outbox \<Rightarrow> bytes \<Rightarrow> Outbox \<times> u64 \<times> bytes" where
  "hub_send ob data = (case store_raw ob data of (ob', seq) \<Rightarrow> (ob', seq, data))"

definition hub_ack :: "Outbox \<Rightarrow> u64 \<Rightarrow> Outbox" where
  "hub_ack ob a = fst (try_on_peer_ack ob a)"

definition daemon_send ::
  "('p Envelope \<Rightarrow> bytes) \<Rightarrow> DaemonOutbox \<Rightarrow> 'p Envelope \<Rightarrow> DaemonOutbox \<times> u64 \<times> bytes" where
  "daemon_send encode ob envelope =
     (case prepare_outbound encode ob envelope of (ob', envelope', data) \<Rightarrow> (ob', env_seq envelope', data))"

abbreviation unacked :: "u64 \<Rightarrow> (u64 \<times> 'a) list \<Rightarrow> (u64 \<times> 'a) list" where
  "unacked a log \<equiv> filter (\<lambda>p. a < fst p) log"

text \<open>
  A log is in order when it numbers its entries consecutively from one; the words do not wrap
  because it is shorter than \<open>2 ^ 64 - 1\<close>.
\<close>

definition numbered :: "(u64 \<times> 'a) list \<Rightarrow> bool" where
  "numbered log \<longleftrightarrow> map (unat \<circ> fst) log = [1..<Suc (length log)] \<and> length log < 2 ^ 64 - 1"

section \<open>Lemmas\<close>

subsection \<open>The outbox contract\<close>

lemma numbered_sorted: "numbered log \<Longrightarrow> sorted_wrt (<) (map fst log)"
proof -
  assume "numbered log"
  then have "sorted_wrt (<) (map unat (map fst log))"
    by (simp only: numbered_def map_map) (rule sorted_wrt_upt)
  then show ?thesis by (simp add: sorted_wrt_map word_less_nat_alt)
qed

lemma numbered_append:
  assumes "numbered log" and "length log + 1 < 2 ^ 64 - 1"
  shows "numbered (log @ [(word_of_nat (Suc (length log)), d)])"
proof -
  have "unat (word_of_nat (Suc (length log)) :: u64) = Suc (length log)"
    using assms(2) by (intro unat_of_nat_u64) simp
  with assms show ?thesis by (simp add: numbered_def)
qed

lemma numbered_le:
  assumes "numbered log" and "p \<in> set log"
  shows "unat (fst p) \<le> length log"
proof -
  from assms have "unat (fst p) \<in> set [1..<Suc (length log)]"
    unfolding numbered_def by (metis comp_apply image_eqI list.set_map)
  then show ?thesis by auto
qed

locale outbox =
  fixes send :: "'s \<Rightarrow> 'm \<Rightarrow> 's \<times> u64 \<times> bytes"
    and ack :: "'s \<Rightarrow> u64 \<Rightarrow> 's"
    and recv :: "'s \<Rightarrow> u64 \<Rightarrow> 's"
    and ok :: "'s \<Rightarrow> u64 \<Rightarrow> bool"
    and nxt :: "'s \<Rightarrow> u64" and peer :: "'s \<Rightarrow> u64" and buf :: "'s \<Rightarrow> (u64 \<times> bytes) list" and cap :: "'s \<Rightarrow> nat"
  assumes send_law: "send s m = (s', q, d) \<Longrightarrow>
      q = nxt s \<and> nxt s' = nxt s + 1 \<and> peer s' = peer s \<and> cap s' = cap s \<and>
      buf s' = evict (cap s) (buf s @ [(q, d)])"
    and ack_law: "nxt s \<noteq> 0 \<Longrightarrow> ok s a \<Longrightarrow> ack s a = s \<or>
      a < nxt s \<and> nxt (ack s a) = nxt s \<and> peer (ack s a) = max (peer s) a \<and> cap (ack s a) = cap s \<and>
      buf (ack s a) = trim_acked (max (peer s) a) (buf s)"
    and recv_law: "nxt (recv s q) = nxt s \<and> peer (recv s q) = peer s \<and> cap (recv s q) = cap s \<and>
      buf (recv s q) = buf s"
begin

text \<open>The state of an outbox after the messages of a log were sent.\<close>

definition holds :: "'s \<Rightarrow> (u64 \<times> bytes) list \<Rightarrow> bool" where
  "holds s log \<longleftrightarrow> numbered log \<and> nxt s = word_of_nat (Suc (length log)) \<and>
     unat (peer s) \<le> length log \<and> buf s = last_n (cap s) (unacked (peer s) log)"

lemma holds_next: "holds s log \<Longrightarrow> unat (nxt s) = Suc (length log)"
  by (simp only: holds_def numbered_def) (intro unat_of_nat_u64, simp)

lemma holds_send:
  assumes "holds s log" and "send s m = (s', q, d)" and "length log + 1 < 2 ^ 64 - 1"
  shows "holds s' (log @ [(q, d)])"
proof -
  note s = send_law [OF assms(2)]
  from assms(1) have n: "numbered log" and q: "q = word_of_nat (Suc (length log))"
    and p: "unat (peer s) \<le> length log" and b: "buf s = last_n (cap s) (unacked (peer s) log)"
    using s by (auto simp: holds_def)
  from holds_next [OF assms(1)] p s have "peer s < q" by (simp add: word_less_nat_alt)
  then have "unacked (peer s) (log @ [(q, d)]) = unacked (peer s) log @ [(q, d)]" by simp
  then have "buf s' = last_n (cap s) (unacked (peer s) (log @ [(q, d)]))"
    using s b last_n_append_single [of "unacked (peer s) log" "cap s" "(q, d)"]
    by (simp only: evict_last_n)
  moreover have "nxt s' = word_of_nat (Suc (length (log @ [(q, d)])))" using s q by simp
  ultimately show ?thesis
    using numbered_append [OF n assms(3), of d] s p q by (simp add: holds_def)
qed

lemma unacked_idem: "a \<le> b \<Longrightarrow> unacked b (unacked a log) = unacked b log"
  by (auto intro: filter_cong)

lemma holds_ack:
  assumes "holds s log" and "ok s a"
  shows "holds (ack s a) log"
proof (cases "ack s a = s")
  case False
  have "nxt s \<noteq> 0" using holds_next [OF assms(1)] by (metis nat.distinct(1) unat_0)
  note k = ack_law [OF this assms(2)]
  from assms(1) have n: "numbered log" and b: "buf s = last_n (cap s) (unacked (peer s) log)"
    and p: "unat (peer s) \<le> length log" by (auto simp: holds_def)
  have "sorted_wrt (<) (map fst (unacked (peer s) log))"
    by (rule sorted_wrt_map_filter [OF numbered_sorted [OF n]])
  then have "buf (ack s a) = last_n (cap s) (unacked (max (peer s) a) log)"
    using k False by (simp only: b trim_acked_filter sorted_wrt_map_drop filter_unacked_last_n
        unacked_idem max.cobounded1) simp
  moreover have "unat (max (peer s) a) \<le> length log"
    using k False p holds_next [OF assms(1)] by (simp add: max_def word_less_nat_alt)
  ultimately show ?thesis using assms(1) k False by (simp add: holds_def)
qed (use assms in simp)

lemma holds_ack_cap: "holds s log \<Longrightarrow> ok s a \<Longrightarrow> cap (ack s a) = cap s"
  using ack_law [of s a] holds_next [of s log] by (metis nat.distinct(1) unat_0)

lemma holds_recv: "holds s log \<Longrightarrow> holds (recv s q) log"
  by (simp add: holds_def recv_law)

lemma run_holds:
  assumes "holds s log0" and "acks_ok ok send ack recv s ops"
    and "run_outbox send ack recv s ops = (s', log)" and "length log0 + length log < 2 ^ 64 - 1"
  shows "holds s' (log0 @ log) \<and> cap s' = cap s"
  using assms
proof (induction ops arbitrary: s log0 log)
  case (Cons op ops)
  show ?case
  proof (cases op)
    case (Send m)
    obtain s1 q d where s1: "send s m = (s1, q, d)" by (cases "send s m")
    with Cons.prems(3) Send obtain log1 where
      r: "run_outbox send ack recv s1 ops = (s', log1)" "log = (q, d) # log1"
      by (auto split: prod.splits)
    with Cons.prems(4) have l: "length log0 + 1 < 2 ^ 64 - 1" by simp
    from Cons.IH [OF holds_send [OF Cons.prems(1) s1 l] _ r(1)] Cons.prems(2,4) Send s1 r(2)
      send_law [OF s1] show ?thesis by simp
  next
    case (PeerAck a)
    with Cons.IH [OF holds_ack [OF Cons.prems(1)], of a log] Cons.prems holds_ack_cap show ?thesis by simp
  next
    case (Recv q)
    with Cons.IH [OF holds_recv [OF Cons.prems(1)], of q log] Cons.prems recv_law show ?thesis by simp
  qed
qed simp

end


subsection \<open>Both outboxes keep the contract\<close>

lemmas hub_outbox_defs = hub_send_def store_raw_def reserve_seq_def ob_store_def hub_ack_def
  try_on_peer_ack_def ob_on_peer_ack_def last_issued_seq_def ob_on_recv_def

lemmas daemon_outbox_defs = daemon_send_def prepare_outbound_def stamp_def do_store_def
  do_on_peer_ack_def do_on_recv_def

lemma word_not_less_minus_1: "(x :: u64) \<noteq> 0 \<Longrightarrow> \<not> x - 1 < a \<Longrightarrow> a < x"
  using word_Suc_less [of "x - 1"] by auto

interpretation hub: outbox hub_send hub_ack ob_on_recv "\<lambda>_ _. True" ob_next_seq ob_peer_ack
  ob_buffer ob_max_buffer
  by unfold_locales (auto simp: hub_outbox_defs Let_def word_not_less_minus_1)

interpretation daemon: outbox "daemon_send encode" do_on_peer_ack do_on_recv
  "\<lambda>ob a. a < do_next_seq ob" do_next_seq do_peer_ack do_buffer do_max_buffer for encode
  by unfold_locales (auto simp: daemon_outbox_defs Let_def max_def)

lemma hub_acks_ok: "acks_ok (\<lambda>_ _. True) hub_send hub_ack ob_on_recv s ops"
proof (induction ops arbitrary: s)
  case (Cons op ops)
  then show ?case by (cases op) (simp_all split: prod.splits)
qed simp

lemma hub_holds_new: "hub.holds (ob_new n) []"
  by (simp add: hub.holds_def ob_new_def numbered_def)

lemma daemon_holds_new: "daemon.holds (do_new n) []"
  by (simp add: daemon.holds_def do_new_def numbered_def)

section \<open>Properties\<close>

text \<open>
  C19. The hub's outbox replays the right messages. Whatever is sent, received and acknowledged,
  valid or not, messages are numbered 1, 2, 3, \<dots> in the order they were sent, and a replay from
  \<open>last_ack\<close> yields, oldest first, exactly the messages acknowledged neither before nor by
  \<open>last_ack\<close>, cut to the newest \<open>max_buffer\<close> of them.
\<close>

theorem hub_outbox_replay:
  assumes "run_outbox hub_send hub_ack ob_on_recv (ob_new max_buffer) ops = (ob, log)"
    and "length log < 2 ^ 64 - 1"
  shows "map (unat \<circ> fst) log = [1..<Suc (length log)] \<and>
    unat (ob_peer_ack ob) \<le> length log \<and>
    replay_from ob last_ack =
      map snd (last_n max_buffer (filter (\<lambda>p. max last_ack (ob_peer_ack ob) < fst p) log))"
proof -
  have h: "hub.holds ob log" and "ob_max_buffer ob = max_buffer"
    using hub.run_holds [OF hub_holds_new hub_acks_ok assms(1)] assms(2) by (simp_all add: ob_new_def)
  then have n: "numbered log" and b: "ob_buffer ob = last_n (ob_max_buffer ob) (unacked (ob_peer_ack ob) log)"
    by (auto simp: hub.holds_def)
  note \<open>ob_max_buffer ob = max_buffer\<close>
  moreover have "sorted_wrt (<) (map fst (unacked (ob_peer_ack ob) log))"
    by (rule sorted_wrt_map_filter [OF numbered_sorted [OF n]])
  moreover have "unacked last_ack (unacked (ob_peer_ack ob) log) = unacked (max last_ack (ob_peer_ack ob)) log"
    by (auto intro: filter_cong)
  ultimately have "replay_from ob last_ack
      = map snd (last_n max_buffer (unacked (max last_ack (ob_peer_ack ob)) log))"
    by (simp only: replay_from_def b case_prod_beta' filter_unacked_last_n)
  with h show ?thesis by (auto simp: hub.holds_def numbered_def)
qed

theorem hub_outbox_replay_witness:
  "let ops = [Send [1], Send [2], PeerAck 9, Send [3], PeerAck 1, Send [4]];
       (ob, log) = run_outbox hub_send hub_ack ob_on_recv (ob_new 2) ops
   in length log = 4 \<and> unat (ob_peer_ack ob) = 1 \<and> replay_from ob 2 = [[3], [4]]"
  using hub_outbox_replay [of 2 "[Send [1], Send [2], PeerAck 9, Send [3], PeerAck 1, Send [4]]" _ _ 2]
  by (simp add: hub_outbox_defs ob_new_def replay_from_def Let_def)



end
