(* ===== verification/Outbox_Store.thy ===== *)
theory Outbox_Store
  imports Outboxes Hub_Core
begin

text \<open>
  The durable per-device outbox of the hub, \<^verbatim>\<open>OutboxStore\<close>
  (\<^verbatim>\<open>ahand-hub-core/src/traits.rs\<close>), in its process-local implementation
  (\<^verbatim>\<open>ahand-hub/src/ws/in_memory_outbox.rs\<close>): a lock per device whose value is the fencing token
  of the WebSocket session that owns it, the counter of issued sequence numbers, and the buffer
  of frames to replay. Every operation runs under the store's mutex, so it is one atomic step;
  the interleaving of sessions is a list of such steps.

  The locale \<open>outbox_store\<close> is the contract the connection registry relies on.
\<close>

section \<open>Definitions\<close>

subsection \<open>The store\<close>

text \<open>
  A \<^verbatim>\<open>tokio::sync::watch\<close> channel: its value, the number of values sent, and the number of live
  receivers; \<^verbatim>\<open>send\<close> fails and keeps the old value when there is no receiver.
\<close>

record KickChan =
  kc_value :: u64
  kc_version :: nat
  kc_receivers :: nat

definition watch_channel :: "u64 \<Rightarrow> KickChan" where
  "watch_channel v = \<lparr> kc_value = v, kc_version = 0, kc_receivers = 0 \<rparr>"

definition watch_send :: "KickChan \<Rightarrow> u64 \<Rightarrow> KickChan" where
  "watch_send ch v =
     (if kc_receivers ch = 0 then ch else ch\<lparr>kc_value := v, kc_version := Suc (kc_version ch)\<rparr>)"

definition watch_subscribe :: "KickChan \<Rightarrow> KickChan \<times> nat" where
  "watch_subscribe ch = (ch\<lparr>kc_receivers := Suc (kc_receivers ch)\<rparr>, kc_version ch)"

record DeviceState =
  ds_lock :: "string option"
  ds_seq :: u64
  ds_buffer :: "(u64 \<times> bytes) list"
  ds_kick_tx :: "KickChan option"
  ds_kick_count :: u64

definition default_device_state :: DeviceState where
  "default_device_state =
     \<lparr> ds_lock = None, ds_seq = 0, ds_buffer = [], ds_kick_tx = None, ds_kick_count = 0 \<rparr>"

type_synonym InMemoryOutboxStore = "(string \<times> DeviceState) list"

definition MAX_BUFFER :: nat where
  "MAX_BUFFER = 10000"

definition entry_or_default :: "InMemoryOutboxStore \<Rightarrow> string \<Rightarrow> DeviceState" where
  "entry_or_default g d = (case map_of g d of None \<Rightarrow> default_device_state | Some e \<Rightarrow> e)"

definition try_acquire_lock :: "InMemoryOutboxStore \<Rightarrow> string \<Rightarrow> string \<Rightarrow> HubError + (InMemoryOutboxStore \<times> bool)" where
  "try_acquire_lock g d sid =
     (let entry = entry_or_default g d
      in if ds_lock entry \<noteq> None then Inr (AList.update d entry g, False)
         else Inr (AList.update d (entry\<lparr>ds_lock := Some sid\<rparr>) g, True))"

definition kick :: "InMemoryOutboxStore \<Rightarrow> string \<Rightarrow> string \<Rightarrow> HubError + InMemoryOutboxStore" where
  "kick g d new_sid =
     (let entry = entry_or_default g d;
          n = ds_kick_count entry + 1;
          tx = (case ds_kick_tx entry of
                  None \<Rightarrow> watch_channel n
                | Some tx \<Rightarrow> watch_send tx n)
      in Inr (AList.update d (entry\<lparr>ds_kick_count := n, ds_kick_tx := Some tx\<rparr>) g))"

text \<open>The subscription is the version of the channel its receiver has seen.\<close>

definition subscribe_kick :: "InMemoryOutboxStore \<Rightarrow> string \<Rightarrow> HubError + (InMemoryOutboxStore \<times> nat)" where
  "subscribe_kick g d =
     (let entry = entry_or_default g d;
          tx = (case ds_kick_tx entry of Some tx \<Rightarrow> tx | None \<Rightarrow> watch_channel 0);
          (tx', seen) = watch_subscribe tx
      in Inr (AList.update d (entry\<lparr>ds_kick_tx := Some tx'\<rparr>) g, seen))"

definition kick_pending :: "InMemoryOutboxStore \<Rightarrow> string \<Rightarrow> nat \<Rightarrow> bool" where
  "kick_pending g d seen =
     (case map_of g d of
        None \<Rightarrow> False
      | Some entry \<Rightarrow> (case ds_kick_tx entry of None \<Rightarrow> False | Some tx \<Rightarrow> kc_version tx \<noteq> seen))"

definition renew_lock :: "InMemoryOutboxStore \<Rightarrow> string \<Rightarrow> string \<Rightarrow> HubError + bool" where
  "renew_lock g d sid =
     Inr (case map_of g d of
            None \<Rightarrow> False
          | Some e \<Rightarrow> (case ds_lock e of None \<Rightarrow> False | Some owner \<Rightarrow> owner = sid))"

definition release_lock :: "InMemoryOutboxStore \<Rightarrow> string \<Rightarrow> string \<Rightarrow> HubError + InMemoryOutboxStore" where
  "release_lock g d sid =
     Inr (case map_of g d of
            None \<Rightarrow> g
          | Some entry \<Rightarrow>
              if ds_lock entry = Some sid then AList.update d (entry\<lparr>ds_lock := None\<rparr>) g else g)"

definition reconcile_on_hello ::
  "InMemoryOutboxStore \<Rightarrow> string \<Rightarrow> string \<Rightarrow> u64 \<Rightarrow> HubError + (InMemoryOutboxStore \<times> u64)" where
  "reconcile_on_hello g d sid last_ack =
     (case map_of g d of
        None \<Rightarrow> Inl Unauthorized
      | Some entry \<Rightarrow>
          if ds_lock entry \<noteq> Some sid then Inl Unauthorized
          else if ds_seq entry < last_ack
          then Inr (AList.update d (entry\<lparr>ds_seq := last_ack, ds_buffer := []\<rparr>) g, last_ack)
          else Inr (AList.update d (entry\<lparr>ds_buffer := trim_acked last_ack (ds_buffer entry)\<rparr>) g,
                    ds_seq entry))"

definition unacked_frames :: "InMemoryOutboxStore \<Rightarrow> string \<Rightarrow> u64 \<Rightarrow> HubError + bytes list" where
  "unacked_frames g d last_ack =
     Inr (case map_of g d of
            None \<Rightarrow> []
          | Some e \<Rightarrow> map snd (filter (\<lambda>(seq, _). last_ack < seq) (ds_buffer e)))"

definition fenced_incr_seq :: "InMemoryOutboxStore \<Rightarrow> string \<Rightarrow> string \<Rightarrow> HubError + (InMemoryOutboxStore \<times> u64)" where
  "fenced_incr_seq g d sid =
     (case map_of g d of
        None \<Rightarrow> Inl Unauthorized
      | Some entry \<Rightarrow>
          if ds_lock entry \<noteq> Some sid then Inl Unauthorized
          else (let entry' = entry\<lparr>ds_seq := ds_seq entry + 1\<rparr>
                in Inr (AList.update d entry' g, ds_seq entry')))"

definition xadd_frame ::
  "InMemoryOutboxStore \<Rightarrow> string \<Rightarrow> string \<Rightarrow> u64 \<Rightarrow> bytes \<Rightarrow> HubError + InMemoryOutboxStore" where
  "xadd_frame g d sid seq frame =
     (case map_of g d of
        None \<Rightarrow> Inl Unauthorized
      | Some entry \<Rightarrow>
          if ds_lock entry \<noteq> Some sid then Inl Unauthorized
          else Inr (AList.update d
                 (entry\<lparr>ds_buffer := evict MAX_BUFFER (ds_buffer entry @ [(seq, frame)])\<rparr>) g))"

definition store_observe_ack :: "InMemoryOutboxStore \<Rightarrow> string \<Rightarrow> u64 \<Rightarrow> HubError + InMemoryOutboxStore" where
  "store_observe_ack g d ack =
     Inr (case map_of g d of
            None \<Rightarrow> g
          | Some entry \<Rightarrow>
              if ds_seq entry < ack then g
              else AList.update d (entry\<lparr>ds_buffer := trim_acked ack (ds_buffer entry)\<rparr>) g)"

text \<open>The trait as a record of its operations, and this store's instance of it.\<close>

record 'g OutboxOps =
  op_try_acquire_lock :: "'g \<Rightarrow> string \<Rightarrow> string \<Rightarrow> HubError + ('g \<times> bool)"
  op_kick :: "'g \<Rightarrow> string \<Rightarrow> string \<Rightarrow> HubError + 'g"
  op_subscribe_kick :: "'g \<Rightarrow> string \<Rightarrow> HubError + ('g \<times> nat)"
  op_renew_lock :: "'g \<Rightarrow> string \<Rightarrow> string \<Rightarrow> HubError + bool"
  op_release_lock :: "'g \<Rightarrow> string \<Rightarrow> string \<Rightarrow> HubError + 'g"
  op_reconcile_on_hello :: "'g \<Rightarrow> string \<Rightarrow> string \<Rightarrow> u64 \<Rightarrow> HubError + ('g \<times> u64)"
  op_unacked_frames :: "'g \<Rightarrow> string \<Rightarrow> u64 \<Rightarrow> HubError + bytes list"
  op_fenced_incr_seq :: "'g \<Rightarrow> string \<Rightarrow> string \<Rightarrow> HubError + ('g \<times> u64)"
  op_xadd_frame :: "'g \<Rightarrow> string \<Rightarrow> string \<Rightarrow> u64 \<Rightarrow> bytes \<Rightarrow> HubError + 'g"
  op_observe_ack :: "'g \<Rightarrow> string \<Rightarrow> u64 \<Rightarrow> HubError + 'g"

definition mem_ops :: "InMemoryOutboxStore OutboxOps" where
  "mem_ops =
     \<lparr> op_try_acquire_lock = try_acquire_lock,
       op_kick = kick,
       op_subscribe_kick = subscribe_kick,
       op_renew_lock = renew_lock,
       op_release_lock = release_lock,
       op_reconcile_on_hello = reconcile_on_hello,
       op_unacked_frames = unacked_frames,
       op_fenced_incr_seq = fenced_incr_seq,
       op_xadd_frame = xadd_frame,
       op_observe_ack = store_observe_ack \<rparr>"

subsection \<open>Interleavings\<close>

text \<open>
  One operation of some session on a device. A run of operations yields the final store and the
  sequence numbers issued on the way, with the session each was issued to.
\<close>

datatype store_op =
    OpAcquire string
  | OpRelease string
  | OpHello string u64
  | OpIncr string
  | OpXadd string u64 bytes
  | OpAck u64
  | OpKick string
  | OpSubscribe

definition store_or :: "InMemoryOutboxStore \<Rightarrow> HubError + InMemoryOutboxStore \<Rightarrow> InMemoryOutboxStore" where
  "store_or g r = (case r of Inl _ \<Rightarrow> g | Inr g' \<Rightarrow> g')"

fun store_step :: "InMemoryOutboxStore \<Rightarrow> string \<Rightarrow> store_op \<Rightarrow> InMemoryOutboxStore \<times> (string \<times> u64) option" where
  "store_step g d (OpAcquire sid) = (store_or g (map_sum id fst (try_acquire_lock g d sid)), None)"
| "store_step g d (OpRelease sid) = (store_or g (release_lock g d sid), None)"
| "store_step g d (OpHello sid a) = (store_or g (map_sum id fst (reconcile_on_hello g d sid a)), None)"
| "store_step g d (OpIncr sid) =
     (case fenced_incr_seq g d sid of Inl _ \<Rightarrow> (g, None) | Inr (g', q) \<Rightarrow> (g', Some (sid, q)))"
| "store_step g d (OpXadd sid q frame) = (store_or g (xadd_frame g d sid q frame), None)"
| "store_step g d (OpAck a) = (store_or g (store_observe_ack g d a), None)"
| "store_step g d (OpKick sid) = (store_or g (kick g d sid), None)"
| "store_step g d OpSubscribe = (store_or g (map_sum id fst (subscribe_kick g d)), None)"

fun run_store :: "InMemoryOutboxStore \<Rightarrow> (string \<times> store_op) list \<Rightarrow> InMemoryOutboxStore \<times> (string \<times> string \<times> u64) list" where
  "run_store g [] = (g, [])"
| "run_store g ((d, op) # ops) =
     (case store_step g d op of (g', out) \<Rightarrow>
        (case run_store g' ops of (g'', outs) \<Rightarrow>
           (g'', (case out of None \<Rightarrow> outs | Some (sid, q) \<Rightarrow> (d, sid, q) # outs))))"

text \<open>
  A bound on the acknowledgements devices claim in their hello: far enough below \<open>2 ^ 64\<close> that the
  counter does not wrap in the rest of the run.
\<close>

fun hellos_below :: "nat \<Rightarrow> (string \<times> store_op) list \<Rightarrow> bool" where
  "hellos_below b [] = True"
| "hellos_below b ((d, OpHello sid a) # ops) = (unat a \<le> b \<and> hellos_below b ops)"
| "hellos_below b (_ # ops) = hellos_below b ops"

text \<open>The session whose fencing token an operation presents; the others present none.\<close>

fun op_session :: "store_op \<Rightarrow> string option" where
  "op_session (OpAcquire sid) = None"
| "op_session (OpRelease sid) = Some sid"
| "op_session (OpHello sid a) = Some sid"
| "op_session (OpIncr sid) = Some sid"
| "op_session (OpXadd sid q f) = Some sid"
| "op_session _ = None"

definition lock_of :: "InMemoryOutboxStore \<Rightarrow> string \<Rightarrow> string option" where
  "lock_of g d = ds_lock (entry_or_default g d)"

definition seq_of :: "InMemoryOutboxStore \<Rightarrow> string \<Rightarrow> u64" where
  "seq_of g d = ds_seq (entry_or_default g d)"

definition buffer_of :: "InMemoryOutboxStore \<Rightarrow> string \<Rightarrow> (u64 \<times> bytes) list" where
  "buffer_of g d = ds_buffer (entry_or_default g d)"

text \<open>The sequence numbers issued for a device, in the order of issue.\<close>

fun issued :: "string \<Rightarrow> (string \<times> string \<times> u64) list \<Rightarrow> nat list" where
  "issued d [] = []"
| "issued d ((d', sid, q) # outs) = (if d' = d then unat q # issued d outs else issued d outs)"

section \<open>Lemmas\<close>

subsection \<open>Each operation on the device it names and on the others\<close>

lemmas store_defs = try_acquire_lock_def kick_def subscribe_kick_def release_lock_def
  reconcile_on_hello_def fenced_incr_seq_def xadd_frame_def store_observe_ack_def store_or_def

lemmas view_defs = lock_of_def seq_of_def buffer_of_def entry_or_default_def

lemma entry_update [simp]:
  "entry_or_default (AList.update d e g) d' = (if d' = d then e else entry_or_default g d')"
  by (simp add: entry_or_default_def AList.update_conv')

lemma entry_Some: "map_of g d = Some e \<Longrightarrow> entry_or_default g d = e"
  by (simp add: entry_or_default_def)

lemma store_step_other:
  "d' \<noteq> d \<Longrightarrow> entry_or_default (fst (store_step g d op)) d' = entry_or_default g d'"
  by (cases op) (auto simp: store_defs Let_def entry_Some split: option.splits sum.splits prod.splits if_splits)

lemma store_step_buffer_bound:
  "length (buffer_of g d) \<le> MAX_BUFFER \<Longrightarrow> length (buffer_of (fst (store_step g d op)) d) \<le> MAX_BUFFER"
  by (cases op)
    (auto simp: store_defs buffer_of_def Let_def entry_Some length_evict default_device_state_def
      intro: order_trans [OF length_trim_acked]
      split: option.splits sum.splits prod.splits if_splits)

lemma store_step_seq:
  assumes "store_step g d op = (g', out)"
  shows "seq_of g' d = seq_of g d \<and> out = None \<or>
    (\<exists>sid a. op = OpHello sid a \<and> lock_of g d = Some sid \<and> seq_of g d < a \<and> seq_of g' d = a \<and> out = None) \<or>
    (\<exists>sid. op = OpIncr sid \<and> lock_of g d = Some sid \<and> seq_of g' d = seq_of g d + 1 \<and>
       out = Some (sid, seq_of g' d))"
  using assms
  by (cases op)
    (auto simp: store_defs seq_of_def lock_of_def Let_def entry_Some split: option.splits sum.splits prod.splits if_splits)


lemma hellos_below_Cons: "hellos_below b ((d, op) # ops) \<Longrightarrow>
   hellos_below b ops \<and> (\<forall>sid a. op = OpHello sid a \<longrightarrow> unat a \<le> b)"
  by (cases op) auto

lemma hellos_below_mono: "hellos_below b ops \<Longrightarrow> b \<le> c \<Longrightarrow> hellos_below c ops"
  by (induction b ops rule: hellos_below.induct) auto

lemma store_step_seq_of_other: "d' \<noteq> d \<Longrightarrow> store_step g d op = (g', out) \<Longrightarrow> seq_of g' d' = seq_of g d'"
  using store_step_other [of d' d g op] by (simp add: seq_of_def)

lemma run_store_issued:
  assumes "run_store g ops = (g', outs)" and "hellos_below b ops" and "unat (seq_of g d) \<le> b"
    and "b + length ops < 2 ^ 64"
  shows "sorted_wrt (<) (unat (seq_of g d) # issued d outs)"
  using assms
proof (induction ops arbitrary: g outs b)
  case (Cons dop ops)
  obtain e op where dop: "dop = (e, op)" by (cases dop)
  obtain g1 out where st: "store_step g e op = (g1, out)" by (cases "store_step g e op")
  from Cons.prems(1) dop st obtain outs1 where run: "run_store g1 ops = (g', outs1)"
    and outs: "outs = (case out of None \<Rightarrow> outs1 | Some (sid, q) \<Rightarrow> (e, sid, q) # outs1)"
    by (auto split: prod.splits)
  from hellos_below_Cons [of b e op ops] Cons.prems(2) dop have
    hb: "hellos_below b ops" "\<And>sid a. op = OpHello sid a \<Longrightarrow> unat a \<le> b" by auto
  have IH: "unat (seq_of g1 d) \<le> Suc b \<Longrightarrow>
    sorted_wrt (<) (unat (seq_of g1 d) # issued d outs1)"
    using Cons.IH [OF run, of "Suc b"] Cons.prems(4) hellos_below_mono [OF hb(1)] by simp
  show ?case
  proof (cases "e = d")
    case False
    with store_step_seq_of_other [OF _ st] IH Cons.prems(3) outs show ?thesis
      by (auto split: option.splits)
  next
    case True
    from store_step_seq [OF st] True consider
        "seq_of g1 d = seq_of g d" "out = None"
      | sid a where "op = OpHello sid a" "seq_of g d < a" "seq_of g1 d = a" "out = None"
      | sid where "seq_of g1 d = seq_of g d + 1" "out = Some (sid, seq_of g1 d)" by blast
    then show ?thesis
    proof cases
      case 1 with IH Cons.prems(3) outs show ?thesis by auto
    next
      case 2
      with IH hb(2) outs have "sorted_wrt (<) (unat a # issued d outs)"
        by (simp add: le_SucI)
      with 2 show ?thesis by (auto simp: word_less_nat_alt)
    next
      case 3
      have "seq_of g d \<noteq> - 1" using Cons.prems(3,4) by (auto simp: unat_max_u64)
      then have "unat (seq_of g1 d) = Suc (unat (seq_of g d))" using 3 by (simp add: unat_Suc_word)
      with 3 IH Cons.prems(3) outs True show ?thesis by auto
    qed
  qed
qed simp

lemma run_store_buffer_bound:
  "run_store g ops = (g', outs) \<Longrightarrow> length (buffer_of g d) \<le> MAX_BUFFER \<Longrightarrow> length (buffer_of g' d) \<le> MAX_BUFFER"
proof (induction ops arbitrary: g outs)
  case (Cons dop ops)
  obtain e op where dop: "dop = (e, op)" by (cases dop)
  obtain g1 out where st: "store_step g e op = (g1, out)" by (cases "store_step g e op")
  with Cons.prems(1) dop obtain outs1 where run: "run_store g1 ops = (g', outs1)"
    by (auto split: prod.splits)
  have "length (buffer_of g1 d) \<le> MAX_BUFFER"
    using store_step_buffer_bound [of g d op] store_step_other [of d e g op] Cons.prems(2) st
    by (cases "e = d") (auto simp: buffer_of_def)
  from Cons.IH [OF run this] show ?case .
qed simp


subsection \<open>The contract of an outbox store\<close>

text \<open>
  The operations of the trait as a record, for code that holds a \<^verbatim>\<open>dyn OutboxStore\<close>, and what
  the trait's documentation promises of them in terms of the lock, the counter and the frames a
  device has in the store. Every fenced operation of a session that does not hold the lock is
  refused with \<^const>\<open>Unauthorized\<close> and changes nothing.
\<close>

locale outbox_store =
  fixes ops :: "'g OutboxOps"
    and lock :: "'g \<Rightarrow> string \<Rightarrow> string option"
    and seqn :: "'g \<Rightarrow> string \<Rightarrow> u64"
    and frames :: "'g \<Rightarrow> string \<Rightarrow> (u64 \<times> bytes) list"
  assumes acquire_law: "\<exists>g'. op_try_acquire_lock ops g d sid = Inr (g', lock g d = None) \<and>
      lock g' d = (if lock g d = None then Some sid else lock g d) \<and>
      seqn g' d = seqn g d \<and> frames g' d = frames g d"
    and release_law: "\<exists>g'. op_release_lock ops g d sid = Inr g' \<and>
      lock g' d = (if lock g d = Some sid then None else lock g d) \<and>
      seqn g' d = seqn g d \<and> frames g' d = frames g d"
    and kick_law: "\<exists>g'. op_kick ops g d sid = Inr g' \<and>
      lock g' d = lock g d \<and> seqn g' d = seqn g d \<and> frames g' d = frames g d"
    and subscribe_law: "\<exists>g' n. op_subscribe_kick ops g d = Inr (g', n) \<and>
      lock g' d = lock g d \<and> seqn g' d = seqn g d \<and> frames g' d = frames g d"
    and renew_law: "op_renew_lock ops g d sid = Inr (lock g d = Some sid)"
    and hello_fence: "lock g d \<noteq> Some sid \<Longrightarrow> op_reconcile_on_hello ops g d sid a = Inl Unauthorized"
    and hello_bootstrap: "lock g d = Some sid \<Longrightarrow> seqn g d < a \<Longrightarrow>
      \<exists>g'. op_reconcile_on_hello ops g d sid a = Inr (g', a) \<and>
        lock g' d = lock g d \<and> seqn g' d = a \<and> frames g' d = []"
    and hello_trim: "lock g d = Some sid \<Longrightarrow> a \<le> seqn g d \<Longrightarrow>
      \<exists>g'. op_reconcile_on_hello ops g d sid a = Inr (g', seqn g d) \<and>
        lock g' d = lock g d \<and> seqn g' d = seqn g d \<and> frames g' d = trim_acked a (frames g d)"
    and unacked_law: "op_unacked_frames ops g d a = Inr (map snd (filter (\<lambda>p. a < fst p) (frames g d)))"
    and incr_fence: "lock g d \<noteq> Some sid \<Longrightarrow> op_fenced_incr_seq ops g d sid = Inl Unauthorized"
    and incr_law: "lock g d = Some sid \<Longrightarrow> \<exists>g'. op_fenced_incr_seq ops g d sid = Inr (g', seqn g d + 1) \<and>
      lock g' d = lock g d \<and> seqn g' d = seqn g d + 1 \<and> frames g' d = frames g d"
    and xadd_fence: "lock g d \<noteq> Some sid \<Longrightarrow> op_xadd_frame ops g d sid q f = Inl Unauthorized"
    and xadd_law: "lock g d = Some sid \<Longrightarrow> \<exists>g'. op_xadd_frame ops g d sid q f = Inr g' \<and>
      lock g' d = lock g d \<and> seqn g' d = seqn g d \<and>
      frames g' d = evict MAX_BUFFER (frames g d @ [(q, f)])"
    and observe_law: "\<exists>g'. op_observe_ack ops g d a = Inr g' \<and>
      lock g' d = lock g d \<and> seqn g' d = seqn g d \<and>
      frames g' d = (if seqn g d < a then frames g d else trim_acked a (frames g d))"

interpretation mem_store: outbox_store mem_ops lock_of seq_of buffer_of
  by unfold_locales
    (auto simp: mem_ops_def store_defs view_defs renew_lock_def unacked_frames_def Let_def
      AList.update_conv' default_device_state_def case_prod_beta' watch_subscribe_def
      split: option.splits if_splits)


subsection \<open>Fencing\<close>

lemma store_step_fenced:
  assumes "store_step g d op = (g', out)" and "lock_of g d = Some sid" and "op_session op \<noteq> Some sid"
  shows "lock_of g' d = Some sid \<and> seq_of g' d = seq_of g d \<and> out = None \<and>
    set (buffer_of g' d) \<subseteq> set (buffer_of g d)"
  using assms set_trim_acked_subset
  by (cases op)
    (fastforce simp: store_defs view_defs Let_def AList.update_conv' default_device_state_def
      split: option.splits sum.splits prod.splits if_splits)+

lemma run_store_fenced:
  assumes "run_store g ops = (g', outs)" and "lock_of g d = Some sid"
    and "\<forall>op. (d, op) \<in> set ops \<longrightarrow> op_session op \<noteq> Some sid"
  shows "lock_of g' d = Some sid \<and> seq_of g' d = seq_of g d \<and> issued d outs = [] \<and>
    set (buffer_of g' d) \<subseteq> set (buffer_of g d)"
  using assms
proof (induction ops arbitrary: g outs)
  case (Cons dop ops)
  obtain e op where dop: "dop = (e, op)" by (cases dop)
  obtain g1 out where st: "store_step g e op = (g1, out)" by (cases "store_step g e op")
  with Cons.prems(1) dop obtain outs1 where run: "run_store g1 ops = (g', outs1)"
    and outs: "outs = (case out of None \<Rightarrow> outs1 | Some (s, q) \<Rightarrow> (e, s, q) # outs1)"
    by (auto split: prod.splits)
  have g1: "lock_of g1 d = Some sid \<and> seq_of g1 d = seq_of g d \<and> (e = d \<longrightarrow> out = None) \<and>
      set (buffer_of g1 d) \<subseteq> set (buffer_of g d)"
  proof (cases "e = d")
    case True
    with store_step_fenced [OF _ Cons.prems(2)] st Cons.prems(3) dop show ?thesis by auto
  next
    case False
    with store_step_other [of d e g op] st Cons.prems(2) show ?thesis
      by (simp add: lock_of_def seq_of_def buffer_of_def)
  qed
  with Cons.IH [OF run] Cons.prems(3) outs show ?case by (auto split: option.splits)
qed simp

section \<open>Properties\<close>



text \<open>
  C14. Fencing. While a session holds a device's lock, nothing any other session does to the store
  can take the lock, issue a sequence number for the device or add a frame to its buffer.
\<close>

theorem lock_excludes_other_sessions:
  assumes "run_store g ops = (g', outs)" and "lock_of g d = Some sid"
    and "\<forall>op. (d, op) \<in> set ops \<longrightarrow> op_session op \<noteq> Some sid"
  shows "lock_of g' d = Some sid \<and> seq_of g' d = seq_of g d \<and> issued d outs = [] \<and>
    set (buffer_of g' d) \<subseteq> set (buffer_of g d)"
  using assms by (rule run_store_fenced)

theorem lock_excludes_other_sessions_witness:
  "let g = fst (run_store [] [(''d'', OpAcquire ''s1''), (''d'', OpIncr ''s1''), (''d'', OpXadd ''s1'' 1 [9])]);
       (g', outs) = run_store g [(''d'', OpAcquire ''s2''), (''d'', OpIncr ''s2''), (''d'', OpXadd ''s2'' 1 [7]),
         (''d'', OpRelease ''s2'')]
   in lock_of g' ''d'' = Some ''s1'' \<and> issued ''d'' outs = [] \<and> buffer_of g' ''d'' = [(1, [9])]"
  using lock_excludes_other_sessions [of
      "fst (run_store [] [(''d'', OpAcquire ''s1''), (''d'', OpIncr ''s1''), (''d'', OpXadd ''s1'' 1 [9])])"
      "[(''d'', OpAcquire ''s2''), (''d'', OpIncr ''s2''), (''d'', OpXadd ''s2'' 1 [7]), (''d'', OpRelease ''s2'')]"
      _ _ "''d''" "''s1''"]
  by (simp add: store_defs view_defs default_device_state_def Let_def MAX_BUFFER_def)

text \<open>
  The bound of the hello is needed: a device that claims the largest 64-bit acknowledgement makes
  the counter wrap, the next frame is issued the number 0, and no replay ever returns it.
\<close>

theorem hello_max_ack_wraps:
  "let (g, outs) = run_store [] [(''d'', OpAcquire ''s''), (''d'', OpHello ''s'' (- 1)), (''d'', OpIncr ''s''),
         (''d'', OpXadd ''s'' 0 frame)]
   in issued ''d'' outs = [0] \<and> buffer_of g ''d'' = [(0, frame)] \<and>
      unacked_frames g ''d'' last_ack = Inr []"
  by (simp add: store_defs view_defs default_device_state_def Let_def MAX_BUFFER_def unacked_frames_def
      zero_less_max_u64)

end
