(* ===== verification/Connections.thy ===== *)
theory Connections
  imports Outbox_Store
begin

text \<open>
  The hub's registry of live device connections, \<^verbatim>\<open>ConnectionRegistry\<close> in
  \<^verbatim>\<open>ahand-hub/src/ws/device_gateway.rs\<close>, over any \<^verbatim>\<open>OutboxStore\<close> (a record of operations).

  A connection is shared between the registry, the socket task and its two background tasks, so
  it is an object of a heap, found by its connection id: the outbound channel and whether its
  receiver is alive, the close signal, the highest inbound sequence number, and whether the
  lease and kick tasks still run. The registry maps a device to its active connection.

  \<open>send\<close> awaits the store twice, so other tasks may run between its parts: each part is a
  definition of its own and \<open>send\<close> is their composition. \<open>register\<close> sleeps between its attempts to
  take the lock: \<open>env n\<close> is what the other tasks do to the state during the \<open>n\<close>-th sleep.
\<close>

section \<open>Definitions\<close>

record Conn =
  cn_session_id :: string
  cn_queue :: "bytes list"
  cn_rx_alive :: bool
  cn_close :: bool
  cn_last_inbound_seq :: u64
  cn_lease_task :: bool
  cn_kick_task :: bool
  cn_kick_seen :: nat

record 'g ConnectionRegistry =
  rg_senders :: "(string \<times> uuid option) list"
  rg_conns :: "(uuid \<times> Conn) list"
  rg_outbox :: 'g

definition LOCK_ACQUIRE_RETRIES :: nat where
  "LOCK_ACQUIRE_RETRIES = 5"

definition upd_conn :: "'g ConnectionRegistry \<Rightarrow> uuid \<Rightarrow> (Conn \<Rightarrow> Conn) \<Rightarrow> 'g ConnectionRegistry" where
  "upd_conn reg cid f =
     (case map_of (rg_conns reg) cid of
        None \<Rightarrow> reg
      | Some c \<Rightarrow> reg\<lparr>rg_conns := AList.update cid (f c) (rg_conns reg)\<rparr>)"

definition active_of :: "'g ConnectionRegistry \<Rightarrow> string \<Rightarrow> uuid option" where
  "active_of reg d = (case map_of (rg_senders reg) d of None \<Rightarrow> None | Some active \<Rightarrow> active)"

definition release_ignoring :: "'g OutboxOps \<Rightarrow> 'g ConnectionRegistry \<Rightarrow> string \<Rightarrow> string \<Rightarrow> 'g ConnectionRegistry" where
  "release_ignoring ops reg d sid =
     (case op_release_lock ops (rg_outbox reg) d sid of
        Inl _ \<Rightarrow> reg
      | Inr g \<Rightarrow> reg\<lparr>rg_outbox := g\<rparr>)"

subsection \<open>Registration\<close>

fun acquire_retry ::
  "'g OutboxOps \<Rightarrow> (nat \<Rightarrow> 'g ConnectionRegistry \<Rightarrow> 'g ConnectionRegistry) \<Rightarrow> nat \<Rightarrow>
   'g ConnectionRegistry \<Rightarrow> string \<Rightarrow> string \<Rightarrow> 'g ConnectionRegistry \<times> (HubError + bool)" where
  "acquire_retry ops env 0 reg d sid = (reg, Inr False)"
| "acquire_retry ops env (Suc n) reg d sid =
     (let reg = env n reg
      in case op_try_acquire_lock ops (rg_outbox reg) d sid of
           Inl e \<Rightarrow> (reg, Inl e)
         | Inr (g, acquired) \<Rightarrow>
             if acquired then (reg\<lparr>rg_outbox := g\<rparr>, Inr True)
             else acquire_retry ops env n (reg\<lparr>rg_outbox := g\<rparr>) d sid)"

definition acquire_lock ::
  "'g OutboxOps \<Rightarrow> (nat \<Rightarrow> 'g ConnectionRegistry \<Rightarrow> 'g ConnectionRegistry) \<Rightarrow>
   'g ConnectionRegistry \<Rightarrow> string \<Rightarrow> string \<Rightarrow> 'g ConnectionRegistry \<times> (HubError + bool)" where
  "acquire_lock ops env reg d sid =
     (case op_try_acquire_lock ops (rg_outbox reg) d sid of
        Inl e \<Rightarrow> (reg, Inl e)
      | Inr (g, acquired) \<Rightarrow>
          if acquired then (reg\<lparr>rg_outbox := g\<rparr>, Inr True)
          else (case op_kick ops g d sid of
                  Inl e \<Rightarrow> (reg\<lparr>rg_outbox := g\<rparr>, Inl e)
                | Inr g' \<Rightarrow> acquire_retry ops env LOCK_ACQUIRE_RETRIES (reg\<lparr>rg_outbox := g'\<rparr>) d sid))"

definition publish_active :: "'g ConnectionRegistry \<Rightarrow> string \<Rightarrow> uuid \<Rightarrow> Conn \<Rightarrow> 'g ConnectionRegistry" where
  "publish_active reg d cid conn =
     (let prev = active_of reg d;
          reg = reg\<lparr>rg_conns := AList.update cid conn (rg_conns reg),
                    rg_senders := AList.update d (Some cid) (rg_senders reg)\<rparr>
      in (case prev of None \<Rightarrow> reg | Some p \<Rightarrow> upd_conn reg p (\<lambda>c. c\<lparr>cn_close := True\<rparr>)))"

definition register_session ::
  "'g OutboxOps \<Rightarrow> 'g ConnectionRegistry \<Rightarrow> string \<Rightarrow> u64 \<Rightarrow> string \<Rightarrow> uuid \<Rightarrow>
   'g ConnectionRegistry \<times> (HubError + uuid)" where
  "register_session ops reg d last_ack sid cid =
     (case op_reconcile_on_hello ops (rg_outbox reg) d sid last_ack of
        Inl err \<Rightarrow> (release_ignoring ops reg d sid, Inl err)
      | Inr (g, _) \<Rightarrow>
          (let reg = reg\<lparr>rg_outbox := g\<rparr>
           in case op_unacked_frames ops (rg_outbox reg) d last_ack of
                Inl err \<Rightarrow> (release_ignoring ops reg d sid, Inl err)
              | Inr replay \<Rightarrow>
                  (case op_subscribe_kick ops (rg_outbox reg) d of
                     Inl err \<Rightarrow> (release_ignoring ops reg d sid, Inl err)
                   | Inr (g', seen) \<Rightarrow>
                       (let conn = \<lparr> cn_session_id = sid, cn_queue = replay, cn_rx_alive = True,
                                     cn_close = False, cn_last_inbound_seq = 0, cn_lease_task = True,
                                     cn_kick_task = True, cn_kick_seen = seen \<rparr>
                        in (publish_active (reg\<lparr>rg_outbox := g'\<rparr>) d cid conn, Inr cid)))))"

definition conn_register ::
  "'g OutboxOps \<Rightarrow> (nat \<Rightarrow> 'g ConnectionRegistry \<Rightarrow> 'g ConnectionRegistry) \<Rightarrow>
   'g ConnectionRegistry \<Rightarrow> string \<Rightarrow> u64 \<Rightarrow> string \<Rightarrow> uuid \<Rightarrow> 'g ConnectionRegistry \<times> (HubError + uuid)" where
  "conn_register ops env reg d last_ack sid cid =
     (case acquire_lock ops env reg d sid of
        (reg, Inl e) \<Rightarrow> (reg, Inl e)
      | (reg, Inr acquired) \<Rightarrow>
          if \<not> acquired then (reg, Inl (OutboxLockContention d))
          else register_session ops reg d last_ack sid cid)"

subsection \<open>Sending\<close>

definition fail_connection :: "'g ConnectionRegistry \<Rightarrow> string \<Rightarrow> uuid \<Rightarrow> 'g ConnectionRegistry" where
  "fail_connection reg d cid =
     (if active_of reg d = Some cid
      then upd_conn (reg\<lparr>rg_senders := AList.update d None (rg_senders reg)\<rparr>) cid (\<lambda>c. c\<lparr>cn_close := True\<rparr>)
      else reg)"

text \<open>The parts of \<^verbatim>\<open>send\<close>: look up the active connection, reserve a number, append, push.\<close>

definition send_lookup :: "'g ConnectionRegistry \<Rightarrow> string \<Rightarrow> HubError + (uuid \<times> string)" where
  "send_lookup reg d =
     (case active_of reg d of
        None \<Rightarrow> Inl (DeviceOffline d)
      | Some cid \<Rightarrow>
          (case map_of (rg_conns reg) cid of
             None \<Rightarrow> Inl (DeviceOffline d)
           | Some c \<Rightarrow> Inr (cid, cn_session_id c)))"

definition send_reserve ::
  "'g OutboxOps \<Rightarrow> 'g ConnectionRegistry \<Rightarrow> string \<Rightarrow> uuid \<Rightarrow> string \<Rightarrow> 'g ConnectionRegistry \<times> (HubError + u64)" where
  "send_reserve ops reg d cid sid =
     (case op_fenced_incr_seq ops (rg_outbox reg) d sid of
        Inr (g, seq) \<Rightarrow> (reg\<lparr>rg_outbox := g\<rparr>, Inr seq)
      | Inl err \<Rightarrow>
          if err = Unauthorized then (fail_connection reg d cid, Inl (DeviceOffline d))
          else (reg, Inl err))"

definition send_append ::
  "'g OutboxOps \<Rightarrow> ('p Envelope \<Rightarrow> bytes) \<Rightarrow> 'g ConnectionRegistry \<Rightarrow> string \<Rightarrow> uuid \<Rightarrow> string \<Rightarrow>
   'p Envelope \<Rightarrow> u64 \<Rightarrow> 'g ConnectionRegistry \<times> (HubError + bytes)" where
  "send_append ops encode reg d cid sid envelope seq =
     (let ack = (case map_of (rg_conns reg) cid of None \<Rightarrow> 0 | Some c \<Rightarrow> cn_last_inbound_seq c);
          frame = encode (envelope\<lparr>env_seq := seq, env_ack := ack\<rparr>)
      in case op_xadd_frame ops (rg_outbox reg) d sid seq frame of
           Inr g \<Rightarrow> (reg\<lparr>rg_outbox := g\<rparr>, Inr frame)
         | Inl err \<Rightarrow>
             if err = Unauthorized then (fail_connection reg d cid, Inl (DeviceOffline d))
             else (reg, Inl err))"

definition send_push ::
  "'g ConnectionRegistry \<Rightarrow> string \<Rightarrow> uuid \<Rightarrow> bytes \<Rightarrow> 'g ConnectionRegistry \<times> (HubError + unit)" where
  "send_push reg d cid frame =
     (case map_of (rg_conns reg) cid of
        Some c \<Rightarrow>
          if cn_rx_alive c then (upd_conn reg cid (\<lambda>c. c\<lparr>cn_queue := cn_queue c @ [frame]\<rparr>), Inr ())
          else (fail_connection reg d cid, Inl (DeviceOffline d))
      | None \<Rightarrow> (fail_connection reg d cid, Inl (DeviceOffline d)))"

definition conn_send ::
  "'g OutboxOps \<Rightarrow> ('p Envelope \<Rightarrow> bytes) \<Rightarrow> 'g ConnectionRegistry \<Rightarrow> string \<Rightarrow> 'p Envelope \<Rightarrow>
   'g ConnectionRegistry \<times> (HubError + unit)" where
  "conn_send ops encode reg d envelope =
     (case send_lookup reg d of
        Inl e \<Rightarrow> (reg, Inl e)
      | Inr (cid, sid) \<Rightarrow>
          (case send_reserve ops reg d cid sid of
             (reg, Inl e) \<Rightarrow> (reg, Inl e)
           | (reg, Inr seq) \<Rightarrow>
               (case send_append ops encode reg d cid sid envelope seq of
                  (reg, Inl e) \<Rightarrow> (reg, Inl e)
                | (reg, Inr frame) \<Rightarrow> send_push reg d cid frame)))"

subsection \<open>Queries, acknowledgements and teardown\<close>

definition kick_device :: "'g ConnectionRegistry \<Rightarrow> string \<Rightarrow> 'g ConnectionRegistry \<times> bool" where
  "kick_device reg d =
     (case active_of reg d of
        None \<Rightarrow> (reg, False)
      | Some cid \<Rightarrow> (upd_conn reg cid (\<lambda>c. c\<lparr>cn_close := True\<rparr>), True))"

definition is_current :: "'g ConnectionRegistry \<Rightarrow> string \<Rightarrow> uuid \<Rightarrow> bool" where
  "is_current reg d cid \<longleftrightarrow> active_of reg d = Some cid"

definition has_active :: "'g ConnectionRegistry \<Rightarrow> string \<Rightarrow> bool" where
  "has_active reg d \<longleftrightarrow> active_of reg d \<noteq> None"

definition has_seen_inbound :: "'g ConnectionRegistry \<Rightarrow> string \<Rightarrow> u64 \<Rightarrow> bool" where
  "has_seen_inbound reg d seq =
     (if seq = 0 then False
      else (case active_of reg d of
              None \<Rightarrow> False
            | Some cid \<Rightarrow>
                (case map_of (rg_conns reg) cid of
                   None \<Rightarrow> False
                 | Some c \<Rightarrow> seq \<le> cn_last_inbound_seq c)))"

definition observe_ack :: "'g OutboxOps \<Rightarrow> 'g ConnectionRegistry \<Rightarrow> string \<Rightarrow> u64 \<Rightarrow> 'g ConnectionRegistry" where
  "observe_ack ops reg d ack =
     (if ack = 0 then reg
      else (case op_observe_ack ops (rg_outbox reg) d ack of
              Inl _ \<Rightarrow> reg
            | Inr g \<Rightarrow> reg\<lparr>rg_outbox := g\<rparr>))"

definition observe_inbound :: "'g OutboxOps \<Rightarrow> 'g ConnectionRegistry \<Rightarrow> string \<Rightarrow> u64 \<Rightarrow> u64 \<Rightarrow> 'g ConnectionRegistry" where
  "observe_inbound ops reg d seq ack =
     (let reg = (if 0 < seq
                 then (case active_of reg d of
                         None \<Rightarrow> reg
                       | Some cid \<Rightarrow> upd_conn reg cid
                           (\<lambda>c. c\<lparr>cn_last_inbound_seq := max (cn_last_inbound_seq c) seq\<rparr>))
                 else reg)
      in observe_ack ops reg d ack)"

text \<open>
  \<^verbatim>\<open>unregister\<close> takes the active connection, aborts its tasks and releases the lock, and then, after
  the awaits, removes the device's entry from the map.
\<close>

definition unregister_begin :: "'g OutboxOps \<Rightarrow> 'g ConnectionRegistry \<Rightarrow> string \<Rightarrow> uuid \<Rightarrow> 'g ConnectionRegistry \<times> bool" where
  "unregister_begin ops reg d cid =
     (if active_of reg d = Some cid
      then (let sid = (case map_of (rg_conns reg) cid of None \<Rightarrow> [] | Some c \<Rightarrow> cn_session_id c);
                reg = reg\<lparr>rg_senders := AList.update d None (rg_senders reg)\<rparr>;
                reg = upd_conn reg cid (\<lambda>c. c\<lparr>cn_close := True, cn_lease_task := False, cn_kick_task := False\<rparr>)
            in (release_ignoring ops reg d sid, True))
      else (reg, False))"

definition unregister_finish :: "'g ConnectionRegistry \<Rightarrow> string \<Rightarrow> 'g ConnectionRegistry" where
  "unregister_finish reg d = reg\<lparr>rg_senders := AList.delete d (rg_senders reg)\<rparr>"

definition unregister :: "'g OutboxOps \<Rightarrow> 'g ConnectionRegistry \<Rightarrow> string \<Rightarrow> uuid \<Rightarrow> 'g ConnectionRegistry \<times> bool" where
  "unregister ops reg d cid =
     (case unregister_begin ops reg d cid of
        (reg, False) \<Rightarrow> (reg, False)
      | (reg, True) \<Rightarrow> (unregister_finish reg d, True))"

subsection \<open>The background tasks of a connection\<close>

text \<open>One tick of the lease renewer: it ends, signalling close, when the lock was lost.\<close>

definition lease_tick :: "'g OutboxOps \<Rightarrow> 'g ConnectionRegistry \<Rightarrow> string \<Rightarrow> uuid \<Rightarrow> 'g ConnectionRegistry" where
  "lease_tick ops reg d cid =
     (case map_of (rg_conns reg) cid of
        None \<Rightarrow> reg
      | Some c \<Rightarrow>
          if \<not> cn_lease_task c then reg
          else (case op_renew_lock ops (rg_outbox reg) d (cn_session_id c) of
                  Inr True \<Rightarrow> reg
                | _ \<Rightarrow> upd_conn reg cid (\<lambda>c. c\<lparr>cn_close := True, cn_lease_task := False\<rparr>)))"

text \<open>The kick task ends with a close signal; the outbound task drops the channel's receiver.\<close>

definition kick_task_fires :: "'g ConnectionRegistry \<Rightarrow> uuid \<Rightarrow> 'g ConnectionRegistry" where
  "kick_task_fires reg cid =
     upd_conn reg cid (\<lambda>c. if cn_kick_task c then c\<lparr>cn_close := True, cn_kick_task := False\<rparr> else c)"

definition send_task_ends :: "'g ConnectionRegistry \<Rightarrow> uuid \<Rightarrow> 'g ConnectionRegistry" where
  "send_task_ends reg cid = upd_conn reg cid (\<lambda>c. c\<lparr>cn_rx_alive := False, cn_queue := []\<rparr>)"


text \<open>A registry with one device connected, for concrete runs.\<close>

definition empty_registry :: "InMemoryOutboxStore ConnectionRegistry" where
  "empty_registry = \<lparr> rg_senders = [], rg_conns = [], rg_outbox = [] \<rparr>"

definition live_registry :: "InMemoryOutboxStore ConnectionRegistry" where
  "live_registry = fst (conn_register mem_ops (\<lambda>_ reg. reg) empty_registry ''d'' 0 ''s1'' ''c1'')"

definition sample_envelope :: "unit Envelope" where
  "sample_envelope = \<lparr> env_device_id = ''d'', env_trace_id = [], env_msg_id = ''m'', env_seq = 0, env_ack = 0,
     env_ts_ms = 7, env_payload = Some () \<rparr>"

section \<open>Lemmas\<close>

lemma upd_conn_simps [simp]:
  "rg_outbox (upd_conn reg cid f) = rg_outbox reg"
  "rg_senders (upd_conn reg cid f) = rg_senders reg"
  "map_of (rg_conns (upd_conn reg cid f)) cid' =
     (if cid' = cid then map_option f (map_of (rg_conns reg) cid) else map_of (rg_conns reg) cid')"
  by (auto simp: upd_conn_def AList.update_conv' split: option.splits)

lemma active_of_simps [simp]:
  "active_of (upd_conn reg cid f) d = active_of reg d"
  "active_of (reg\<lparr>rg_outbox := g\<rparr>) d = active_of reg d"
  "active_of (reg\<lparr>rg_conns := cs\<rparr>) d = active_of reg d"
  "active_of (reg\<lparr>rg_senders := s\<rparr>) d = (case map_of s d of None \<Rightarrow> None | Some active \<Rightarrow> active)"
  by (simp_all add: active_of_def)

lemma fail_connection_simps [simp]:
  "rg_outbox (fail_connection reg d cid) = rg_outbox reg"
  "active_of (fail_connection reg d cid) d = (if active_of reg d = Some cid then None else active_of reg d)"
  "map_of (rg_conns (fail_connection reg d cid)) cid' =
     (if cid' = cid \<and> active_of reg d = Some cid
      then map_option (\<lambda>c. c\<lparr>cn_close := True\<rparr>) (map_of (rg_conns reg) cid) else map_of (rg_conns reg) cid')"
  by (auto simp: fail_connection_def AList.update_conv')

lemma publish_active_simps:
  assumes "active_of reg d \<noteq> Some cid"
  shows "rg_outbox (publish_active reg d cid conn) = rg_outbox reg"
    and "active_of (publish_active reg d cid conn) d = Some cid"
    and "map_of (rg_conns (publish_active reg d cid conn)) cid = Some conn"
    and "active_of reg d = Some p \<Longrightarrow> map_of (rg_conns reg) p = Some c \<Longrightarrow>
      map_of (rg_conns (publish_active reg d cid conn)) p = Some (c\<lparr>cn_close := True\<rparr>)"
  using assms by (auto simp: publish_active_def Let_def AList.update_conv' split: option.splits)

context outbox_store
begin

lemma acquire_retry_owns:
  "acquire_retry ops env n reg d sid = (reg', Inr True) \<Longrightarrow> lock (rg_outbox reg') d = Some sid"
proof (induction n arbitrary: reg)
  case (Suc n)
  obtain g' where g': "op_try_acquire_lock ops (rg_outbox (env n reg)) d sid = Inr (g', lock (rg_outbox (env n reg)) d = None)"
    "lock g' d = (if lock (rg_outbox (env n reg)) d = None then Some sid else lock (rg_outbox (env n reg)) d)"
    using acquire_law by blast
  with Suc show ?case by (auto simp: Let_def split: if_splits)
qed simp

lemma acquire_lock_owns:
  assumes "acquire_lock ops env reg d sid = (reg', Inr True)"
  shows "lock (rg_outbox reg') d = Some sid"
proof -
  obtain g' where g': "op_try_acquire_lock ops (rg_outbox reg) d sid = Inr (g', lock (rg_outbox reg) d = None)"
    "lock g' d = (if lock (rg_outbox reg) d = None then Some sid else lock (rg_outbox reg) d)"
    using acquire_law by blast
  obtain g'' where "op_kick ops g' d sid = Inr g''" using kick_law by blast
  with g' assms show ?thesis by (auto simp: acquire_lock_def acquire_retry_owns split: if_splits)
qed

lemma register_session_ok:
  assumes "lock (rg_outbox reg) d = Some sid"
  shows "\<exists>g seen. register_session ops reg d last_ack sid cid =
      (publish_active (reg\<lparr>rg_outbox := g\<rparr>) d cid
        \<lparr> cn_session_id = sid, cn_queue = map snd (filter (\<lambda>p. last_ack < fst p) (frames g d)),
          cn_rx_alive = True, cn_close = False, cn_last_inbound_seq = 0, cn_lease_task = True,
          cn_kick_task = True, cn_kick_seen = seen \<rparr>, Inr cid) \<and>
      lock g d = Some sid \<and> seqn g d = max last_ack (seqn (rg_outbox reg) d) \<and>
      frames g d = (if seqn (rg_outbox reg) d < last_ack then [] else trim_acked last_ack (frames (rg_outbox reg) d))"
proof -
  from hello_bootstrap [OF assms, of last_ack] hello_trim [OF assms, of last_ack] obtain g1 q where
    g1: "op_reconcile_on_hello ops (rg_outbox reg) d sid last_ack = Inr (g1, q)" "lock g1 d = Some sid"
      "seqn g1 d = max last_ack (seqn (rg_outbox reg) d)"
      "frames g1 d = (if seqn (rg_outbox reg) d < last_ack then [] else trim_acked last_ack (frames (rg_outbox reg) d))"
    using assms by (cases "seqn (rg_outbox reg) d < last_ack") (auto simp: max_def linorder_not_less)
  from subscribe_law obtain g2 n where
    g2: "op_subscribe_kick ops g1 d = Inr (g2, n)" "lock g2 d = lock g1 d" "seqn g2 d = seqn g1 d"
      "frames g2 d = frames g1 d" by blast
  show ?thesis
    by (intro exI [of _ g2] exI [of _ n])
      (simp add: register_session_def g1 g2 unacked_law Let_def)
qed

lemma conn_register_cases:
  assumes "conn_register ops env reg d last_ack sid cid = (reg', r)"
  obtains (contention) "r = Inl (OutboxLockContention d)"
    | (ok) reg1 where "acquire_lock ops env reg d sid = (reg1, Inr True)" "r = Inr cid"
        "register_session ops reg1 d last_ack sid cid = (reg', Inr cid)"
proof -
  have no_err: "acquire_retry ops env n rg d sid = (rg', Inl e) \<Longrightarrow> False" for n rg rg' e
  proof (induction n arbitrary: rg)
    case (Suc n)
    obtain g' where "op_try_acquire_lock ops (rg_outbox (env n rg)) d sid = Inr (g', lock (rg_outbox (env n rg)) d = None)"
      using acquire_law by blast
    with Suc show ?case by (auto simp: Let_def split: if_splits)
  qed simp
  obtain g' where g': "op_try_acquire_lock ops (rg_outbox reg) d sid = Inr (g', lock (rg_outbox reg) d = None)"
    using acquire_law by blast
  obtain g'' where g'': "op_kick ops g' d sid = Inr g''" using kick_law by blast
  have no_err': "acquire_lock ops env reg d sid \<noteq> (rg', Inl e)" for rg' e
    using g' g'' no_err by (auto simp: acquire_lock_def split: if_splits)
  obtain reg1 b where a: "acquire_lock ops env reg d sid = (reg1, Inr b)"
    using no_err' by (metis surj_pair sum.exhaust)
  show thesis
  proof (cases b)
    case False
    with a assms contention show thesis by (simp add: conn_register_def)
  next
    case True
    with a have "lock (rg_outbox reg1) d = Some sid" by (simp add: acquire_lock_owns)
    from register_session_ok [OF this, of last_ack cid] a True assms ok show thesis
      by (auto simp: conn_register_def)
  qed
qed

text \<open>A session that lost the lock: its send is refused and its connection is given up.\<close>

lemma send_fenced:
  assumes "active_of reg d = Some cid" and "map_of (rg_conns reg) cid = Some c"
    and "lock (rg_outbox reg) d \<noteq> Some (cn_session_id c)"
  shows "conn_send ops encode reg d env = (fail_connection reg d cid, Inl (DeviceOffline d))"
  using assms by (simp add: conn_send_def send_lookup_def send_reserve_def incr_fence)

lemma send_owner:
  assumes "active_of reg d = Some cid" and "map_of (rg_conns reg) cid = Some c"
    and "lock (rg_outbox reg) d = Some (cn_session_id c)"
  shows "\<exists>g. let q = seqn (rg_outbox reg) d + 1;
      frame = encode (env\<lparr>env_seq := q, env_ack := cn_last_inbound_seq c\<rparr>)
    in lock g d = lock (rg_outbox reg) d \<and> seqn g d = q \<and>
      frames g d = evict MAX_BUFFER (frames (rg_outbox reg) d @ [(q, frame)]) \<and>
      conn_send ops encode reg d env =
        (if cn_rx_alive c
         then (upd_conn (reg\<lparr>rg_outbox := g\<rparr>) cid (\<lambda>c. c\<lparr>cn_queue := cn_queue c @ [frame]\<rparr>), Inr ())
         else (fail_connection (reg\<lparr>rg_outbox := g\<rparr>) d cid, Inl (DeviceOffline d)))"
proof -
  let ?q = "seqn (rg_outbox reg) d + 1"
  let ?frame = "encode (env\<lparr>env_seq := ?q, env_ack := cn_last_inbound_seq c\<rparr>)"
  from incr_law [OF assms(3)] obtain g1 where
    g1: "op_fenced_incr_seq ops (rg_outbox reg) d (cn_session_id c) = Inr (g1, ?q)"
      "lock g1 d = Some (cn_session_id c)" "seqn g1 d = ?q" "frames g1 d = frames (rg_outbox reg) d"
    using assms(3) by auto
  from xadd_law [OF g1(2), of ?q ?frame] obtain g2 where
    g2: "op_xadd_frame ops g1 d (cn_session_id c) ?q ?frame = Inr g2" "lock g2 d = Some (cn_session_id c)"
      "seqn g2 d = ?q" "frames g2 d = evict MAX_BUFFER (frames (rg_outbox reg) d @ [(?q, ?frame)])"
    using g1 by auto
  from assms g1 g2 show ?thesis
    by (intro exI [of _ g2])
      (simp add: conn_send_def send_lookup_def send_reserve_def send_append_def send_push_def Let_def)
qed

text \<open>Teardown of the active connection frees the device for the next one.\<close>

lemma unregister_releases:
  assumes "active_of reg d = Some cid" and "map_of (rg_conns reg) cid = Some c"
    and "lock (rg_outbox reg) d = Some (cn_session_id c)"
  shows "\<exists>reg'. unregister ops reg d cid = (reg', True) \<and> lock (rg_outbox reg') d = None \<and>
    active_of reg' d = None \<and>
    map_of (rg_conns reg') cid = Some (c\<lparr>cn_close := True, cn_lease_task := False, cn_kick_task := False\<rparr>) \<and>
    seqn (rg_outbox reg') d = seqn (rg_outbox reg) d \<and> frames (rg_outbox reg') d = frames (rg_outbox reg) d"
proof -
  obtain g' where "op_release_lock ops (rg_outbox reg) d (cn_session_id c) = Inr g'" "lock g' d = None"
    "seqn g' d = seqn (rg_outbox reg) d" "frames g' d = frames (rg_outbox reg) d"
    using release_law [of "rg_outbox reg" d "cn_session_id c"] assms(3) by auto
  with assms show ?thesis
    by (simp add: unregister_def unregister_begin_def unregister_finish_def release_ignoring_def Let_def
        delete_conv' AList.update_conv')
qed

lemma register_free:
  assumes "lock (rg_outbox reg) d = None"
  shows "\<exists>g. acquire_lock ops env reg d sid = (reg\<lparr>rg_outbox := g\<rparr>, Inr True) \<and> lock g d = Some sid \<and>
    seqn g d = seqn (rg_outbox reg) d \<and> frames g d = frames (rg_outbox reg) d"
  using acquire_law [of "rg_outbox reg" d sid] assms by (auto simp: acquire_lock_def)

text \<open>While another session keeps the lock, registration ends in contention.\<close>

lemma acquire_retry_contended:
  assumes "lock (rg_outbox reg) d = Some other"
    and "\<forall>n reg. lock (rg_outbox reg) d = Some other \<longrightarrow> lock (rg_outbox (env n reg)) d = Some other"
  shows "\<exists>reg'. acquire_retry ops env n reg d sid = (reg', Inr False) \<and> lock (rg_outbox reg') d = Some other"
  using assms(1)
proof (induction n arbitrary: reg)
  case (Suc n)
  from assms(2) Suc.prems acquire_law [of "rg_outbox (env n reg)" d sid] obtain g where
    "op_try_acquire_lock ops (rg_outbox (env n reg)) d sid = Inr (g, False)" "lock g d = Some other"
    by auto
  with Suc.IH [of "(env n reg)\<lparr>rg_outbox := g\<rparr>"] show ?case by simp
qed simp

lemma register_contended:
  assumes "lock (rg_outbox reg) d = Some other"
    and "\<forall>n reg. lock (rg_outbox reg) d = Some other \<longrightarrow> lock (rg_outbox (env n reg)) d = Some other"
  shows "snd (conn_register ops env reg d last_ack sid cid) = Inl (OutboxLockContention d)"
proof -
  from acquire_law [of "rg_outbox reg" d sid] assms(1) obtain g where
    g: "op_try_acquire_lock ops (rg_outbox reg) d sid = Inr (g, False)" "lock g d = Some other" by auto
  from kick_law [of g d sid] g obtain g' where g': "op_kick ops g d sid = Inr g'" "lock g' d = Some other"
    by auto
  have "lock (rg_outbox (reg\<lparr>rg_outbox := g'\<rparr>)) d = Some other" using g'(2) by simp
  from acquire_retry_contended [OF this assms(2)] obtain reg' where
    "acquire_retry ops env LOCK_ACQUIRE_RETRIES (reg\<lparr>rg_outbox := g'\<rparr>) d sid = (reg', Inr False)" by blast
  with g(1) g'(1) show ?thesis by (simp add: conn_register_def acquire_lock_def)
qed

lemma lease_tick_lock: "rg_outbox (lease_tick ops reg d cid) = rg_outbox reg"
  by (auto simp: lease_tick_def split: option.splits sum.splits bool.splits)

end


lemmas conn_eval = conn_register_def acquire_lock_def register_session_def publish_active_def upd_conn_def
  active_of_def release_ignoring_def send_lookup_def send_reserve_def send_append_def send_push_def
  conn_send_def fail_connection_def unregister_def unregister_begin_def unregister_finish_def
  is_current_def has_active_def empty_registry_def mem_ops_def store_defs view_defs
  unacked_frames_def watch_channel_def watch_subscribe_def default_device_state_def Let_def

lemma live_registry_eval: "live_registry =
    \<lparr> rg_senders = [(''d'', Some ''c1'')],
      rg_conns = [(''c1'', \<lparr> cn_session_id = ''s1'', cn_queue = [], cn_rx_alive = True, cn_close = False,
        cn_last_inbound_seq = 0, cn_lease_task = True, cn_kick_task = True, cn_kick_seen = 0 \<rparr>)],
      rg_outbox = [(''d'', \<lparr> ds_lock = Some ''s1'', ds_seq = 0, ds_buffer = [],
        ds_kick_tx = Some \<lparr> kc_value = 0, kc_version = 0, kc_receivers = 1 \<rparr>, ds_kick_count = 0 \<rparr>)] \<rparr>"
  by (simp add: live_registry_def conn_eval)

section \<open>Properties\<close>

text \<open>
  C11. Registration hands over the device. Whatever the other tasks do while it waits for the lock,
  a registration that succeeds leaves the new session as the owner of the device's durable
  outbox and the new connection as the device's active one, its channel loaded with exactly the
  stored frames beyond the device's \<open>last_ack\<close>; it can only fail with a lock contention error.
\<close>

theorem register_takes_ownership:
  assumes "conn_register mem_ops env reg d last_ack sid cid = (reg', r)"
    and "\<forall>n reg. active_of reg d \<noteq> Some cid \<longrightarrow> active_of (env n reg) d \<noteq> Some cid"
    and "active_of reg d \<noteq> Some cid"
  shows "r = Inl (OutboxLockContention d) \<or>
    r = Inr cid \<and> lock_of (rg_outbox reg') d = Some sid \<and> is_current reg' d cid \<and>
    (\<exists>c. map_of (rg_conns reg') cid = Some c \<and> cn_session_id c = sid \<and> cn_rx_alive c \<and> \<not> cn_close c \<and>
      Inr (cn_queue c) = unacked_frames (rg_outbox reg') d last_ack)"
  using assms(1)
proof (cases rule: mem_store.conn_register_cases)
  case (ok reg1)
  have retry: "active_of rg d \<noteq> Some cid \<Longrightarrow> acquire_retry mem_ops env n rg d sid = (rg', b) \<Longrightarrow>
      active_of rg' d \<noteq> Some cid" for n rg rg' b
  proof (induction n arbitrary: rg)
    case (Suc n)
    from Suc.prems assms(2) have "active_of (env n rg) d \<noteq> Some cid" by blast
    with Suc show ?case by (fastforce simp: Let_def split: sum.splits prod.splits if_splits)
  qed simp
  have na: "active_of reg1 d \<noteq> Some cid"
    using ok(1) assms(3)
    by (auto simp: acquire_lock_def split: sum.splits prod.splits if_splits elim!: retry [rotated])
  have "lock_of (rg_outbox reg1) d = Some sid" using ok(1) by (rule mem_store.acquire_lock_owns)
  from mem_store.register_session_ok [OF this, of last_ack cid] obtain g seen where
    reg': "reg' = publish_active (reg1\<lparr>rg_outbox := g\<rparr>) d cid
        \<lparr> cn_session_id = sid, cn_queue = map snd (filter (\<lambda>p. last_ack < fst p) (buffer_of g d)),
          cn_rx_alive = True, cn_close = False, cn_last_inbound_seq = 0, cn_lease_task = True,
          cn_kick_task = True, cn_kick_seen = seen \<rparr>"
    and g: "lock_of g d = Some sid" using ok(3) by auto
  have "active_of (reg1\<lparr>rg_outbox := g\<rparr>) d \<noteq> Some cid" using na by simp
  note pub = publish_active_simps [OF this]
  have "op_unacked_frames mem_ops g d last_ack = Inr (map snd (filter (\<lambda>p. last_ack < fst p) (buffer_of g d)))"
    by (rule mem_store.unacked_law)
  then have "unacked_frames g d last_ack = Inr (map snd (filter (\<lambda>p. last_ack < fst p) (buffer_of g d)))"
    by (simp add: mem_ops_def)
  with ok(2) g reg' pub(1-3) show ?thesis by (simp add: is_current_def)
qed simp

theorem register_takes_ownership_witness:
  "let (reg', r) = conn_register mem_ops (\<lambda>_ reg. fst (unregister mem_ops reg ''d'' ''c1'')) live_registry
         ''d'' 0 ''s2'' ''c2''
   in r = Inr ''c2'' \<and> lock_of (rg_outbox reg') ''d'' = Some ''s2'' \<and> is_current reg' ''d'' ''c2''"
  using register_takes_ownership [of "\<lambda>_ reg. fst (unregister mem_ops reg ''d'' ''c1'')" live_registry
      "''d''" 0 "''s2''" "''c2''"]
  by (simp add: live_registry_eval conn_eval LOCK_ACQUIRE_RETRIES_def eval_nat_numeral watch_send_def)



text \<open>
  Orderly teardown frees the device: after the active connection is unregistered, its background
  tasks are stopped, its stored frames are kept, and the next registration succeeds at once.
\<close>

theorem unregister_then_register:
  assumes "active_of reg d = Some cid" and "map_of (rg_conns reg) cid = Some c"
    and "lock_of (rg_outbox reg) d = Some (cn_session_id c)"
  shows "\<exists>reg'. unregister mem_ops reg d cid = (reg', True) \<and> \<not> has_active reg' d \<and>
    (\<exists>c'. map_of (rg_conns reg') cid = Some c' \<and> cn_close c' \<and> \<not> cn_lease_task c' \<and> \<not> cn_kick_task c') \<and>
    buffer_of (rg_outbox reg') d = buffer_of (rg_outbox reg) d \<and>
    snd (conn_register mem_ops env reg' d last_ack sid cid') = Inr cid'"
proof -
  from mem_store.unregister_releases [OF assms] obtain reg' where
    reg': "unregister mem_ops reg d cid = (reg', True)" "lock_of (rg_outbox reg') d = None"
      "active_of reg' d = None" "buffer_of (rg_outbox reg') d = buffer_of (rg_outbox reg) d"
      "map_of (rg_conns reg') cid = Some (c\<lparr>cn_close := True, cn_lease_task := False, cn_kick_task := False\<rparr>)"
    by auto
  from mem_store.register_free [OF reg'(2), of env sid] obtain g where
    g: "acquire_lock mem_ops env reg' d sid = (reg'\<lparr>rg_outbox := g\<rparr>, Inr True)" "lock_of g d = Some sid" by auto
  have "lock_of (rg_outbox (reg'\<lparr>rg_outbox := g\<rparr>)) d = Some sid" using g(2) by simp
  from mem_store.register_session_ok [OF this, of last_ack cid'] g(1)
  have "snd (conn_register mem_ops env reg' d last_ack sid cid') = Inr cid'"
    by (auto simp: conn_register_def)
  with reg' show ?thesis by (simp add: has_active_def)
qed

theorem unregister_then_register_witness:
  "\<exists>reg'. unregister mem_ops live_registry ''d'' ''c1'' = (reg', True) \<and> \<not> has_active reg' ''d'' \<and>
    snd (conn_register mem_ops (\<lambda>_ reg. reg) reg' ''d'' 0 ''s2'' ''c2'') = Inr ''c2''"
  using unregister_then_register [of live_registry "''d''" "''c1''" _ "\<lambda>_ reg. reg" 0 "''s2''" "''c2''"]
  by (simp add: live_registry_eval conn_eval)

text \<open>
  A send that finds the socket task gone wedges the device. It gives up the connection, after
  which \<open>unregister\<close> does nothing: the lease renewer keeps running and keeps the lock, so while
  it ticks every later registration, retries included, fails with a lock contention error.
\<close>

theorem failed_push_leaks_lock:
  assumes "active_of reg d = Some cid" and "map_of (rg_conns reg) cid = Some c"
    and "lock_of (rg_outbox reg) d = Some (cn_session_id c)"
    and "\<not> cn_rx_alive c" and "cn_lease_task c"
    and "conn_send mem_ops encode reg d env = (reg1, r)"
  shows "r = Inl (DeviceOffline d) \<and> unregister mem_ops reg1 d cid = (reg1, False) \<and>
    (\<exists>c1. map_of (rg_conns reg1) cid = Some c1 \<and> cn_lease_task c1) \<and>
    snd (conn_register mem_ops (\<lambda>_ reg. lease_tick mem_ops reg d cid) reg1 d last_ack sid cid')
      = Inl (OutboxLockContention d)"
proof -
  from mem_store.send_owner [OF assms(1-3), of encode env] obtain g where
    "reg1 = fail_connection (reg\<lparr>rg_outbox := g\<rparr>) d cid" "r = Inl (DeviceOffline d)"
    "lock_of g d = Some (cn_session_id c)"
    using assms(3,4,6) by (auto simp: Let_def)
  moreover from this have "snd (conn_register mem_ops (\<lambda>_ reg. lease_tick mem_ops reg d cid) reg1 d last_ack sid cid')
      = Inl (OutboxLockContention d)"
    by (intro mem_store.register_contended [of _ _ "cn_session_id c"]) (simp_all add: mem_store.lease_tick_lock)
  ultimately show ?thesis using assms(1,2,5) by (simp add: unregister_def unregister_begin_def)
qed

theorem failed_push_leaks_lock_witness:
  "let reg = send_task_ends live_registry ''c1'';
       (reg1, r) = conn_send mem_ops (\<lambda>e. [ucast (env_seq e)]) reg ''d'' sample_envelope
   in r = Inl (DeviceOffline ''d'') \<and> snd (unregister mem_ops reg1 ''d'' ''c1'') = False \<and>
      snd (conn_register mem_ops (\<lambda>_ reg. lease_tick mem_ops reg ''d'' ''c1'') reg1 ''d'' 0 ''s2'' ''c2'')
        = Inl (OutboxLockContention ''d'')"
proof -
  let ?reg = "send_task_ends live_registry ''c1''"
  let ?c = "the (map_of (rg_conns ?reg) ''c1'')"
  have c: "active_of ?reg ''d'' = Some ''c1''" "map_of (rg_conns ?reg) ''c1'' = Some ?c"
    "lock_of (rg_outbox ?reg) ''d'' = Some (cn_session_id ?c)" "\<not> cn_rx_alive ?c" "cn_lease_task ?c"
    by (simp_all add: live_registry_eval send_task_ends_def upd_conn_def active_of_def view_defs)
  obtain reg1 r where s: "conn_send mem_ops (\<lambda>e. [ucast (env_seq e)]) ?reg ''d'' sample_envelope = (reg1, r)"
    by (cases "conn_send mem_ops (\<lambda>e. [ucast (env_seq e)]) ?reg ''d'' sample_envelope")
  from failed_push_leaks_lock [OF c s, of 0 "''s2''" "''c2''"] s show ?thesis by simp
qed

text \<open>
  A registration that completes while the previous connection is between releasing the lock and
  removing its map entry is lost: the removal takes the new connection's entry, the device is
  offline for senders although the new session holds the lock, and the new connection's own
  teardown no longer releases it.
\<close>

theorem unregister_race_drops_new_connection:
  assumes "active_of reg d = Some cid" and "map_of (rg_conns reg) cid = Some c"
    and "lock_of (rg_outbox reg) d = Some (cn_session_id c)" and "cid' \<noteq> cid"
    and "unregister_begin mem_ops reg d cid = (reg1, b)"
    and "conn_register mem_ops env reg1 d last_ack sid cid' = (reg2, r)"
    and "reg3 = unregister_finish reg2 d"
  shows "b \<and> r = Inr cid' \<and> is_current reg2 d cid' \<and> \<not> has_active reg3 d \<and>
    lock_of (rg_outbox reg3) d = Some sid \<and> unregister mem_ops reg3 d cid' = (reg3, False)"
proof -
  obtain g' where "op_release_lock mem_ops (rg_outbox reg) d (cn_session_id c) = Inr g'" "lock_of g' d = None"
    using mem_store.release_law [of "rg_outbox reg" d "cn_session_id c"] assms(3) by auto
  with assms(1,2,5) have b: "b" and reg1: "lock_of (rg_outbox reg1) d = None" "active_of reg1 d = None"
    by (auto simp: unregister_begin_def release_ignoring_def Let_def AList.update_conv')
  from mem_store.register_free [OF reg1(1), of env sid] obtain g where
    g: "acquire_lock mem_ops env reg1 d sid = (reg1\<lparr>rg_outbox := g\<rparr>, Inr True)" "lock_of g d = Some sid" by auto
  have "lock_of (rg_outbox (reg1\<lparr>rg_outbox := g\<rparr>)) d = Some sid" using g(2) by simp
  from mem_store.register_session_ok [OF this, of last_ack cid'] g(1) assms(6) obtain g2 conn where
    reg2: "reg2 = publish_active (reg1\<lparr>rg_outbox := g2\<rparr>) d cid' conn" "r = Inr cid'" "lock_of g2 d = Some sid"
    by (auto simp: conn_register_def)
  have "active_of (reg1\<lparr>rg_outbox := g2\<rparr>) d \<noteq> Some cid'" using reg1(2) by simp
  note pub = publish_active_simps [OF this]
  with b reg2 assms(7) show ?thesis
    by (simp add: is_current_def has_active_def unregister_finish_def unregister_def unregister_begin_def delete_conv')
qed

theorem unregister_race_drops_new_connection_witness:
  "let reg1 = fst (unregister_begin mem_ops live_registry ''d'' ''c1'');
       (reg2, r) = conn_register mem_ops (\<lambda>_ reg. reg) reg1 ''d'' 0 ''s2'' ''c2'';
       reg3 = unregister_finish reg2 ''d''
   in r = Inr ''c2'' \<and> \<not> has_active reg3 ''d'' \<and> lock_of (rg_outbox reg3) ''d'' = Some ''s2''"
  using unregister_race_drops_new_connection [of live_registry "''d''" "''c1''" _ "''c2''" _ _
      "\<lambda>_ reg. reg" 0 "''s2''"]
  by (simp add: live_registry_eval conn_eval)

end
