(* ===== verification/Delivery.thy ===== *)
theory Delivery
  imports Connections
begin

text \<open>
  Delivery between the hub and one device over connections that break at any time: the hub's
  registry and durable outbox on one side, the daemon's outbox
  (\<^verbatim>\<open>ahandd/src/ahand_client.rs\<close>) on the other.

  Frames from the hub travel in order through the connection's channel and socket, modelled as
  the connection's queue; a disconnect loses what is in it. The daemon counts the highest number
  it received, reports it in its next hello, and the hub replays from there. Towards the hub the
  daemon stamps and buffers its frames and replays the unacknowledged ones; the hub drops the
  frames of a connection it has seen.

  \<open>encode\<close> and \<open>decode_seq\<close> stand for prost: encoding an envelope and reading the sequence number of
  an encoded one.
\<close>

section \<open>Definitions\<close>

subsection \<open>The daemon's side of the connection\<close>

text \<open>
  \<^verbatim>\<open>BufferedEnvelopeSender::send\<close>: stamp, encode and buffer under the outbox mutex, then queue for
  the socket task; the channel is \<open>None\<close> once that task is gone.
\<close>

definition buffered_send ::
  "('p Envelope \<Rightarrow> bytes) \<Rightarrow> DaemonOutbox \<Rightarrow> bytes list option \<Rightarrow> 'p Envelope \<Rightarrow>
   DaemonOutbox \<times> bytes list option \<times> (unit + unit)" where
  "buffered_send encode ob tx envelope =
     (let (ob', envelope', frame) = prepare_outbound encode ob envelope
      in (case tx of
            None \<Rightarrow> (ob', None, Inl ())
          | Some q \<Rightarrow> (ob', Some (q @ [frame]), Inr ())))"

text \<open>What the read loop does with the numbers of an inbound envelope.\<close>

definition daemon_observe :: "DaemonOutbox \<Rightarrow> u64 \<Rightarrow> u64 \<Rightarrow> DaemonOutbox" where
  "daemon_observe ob seq ack =
     (let ob = (if 0 < seq then do_on_recv ob seq else ob)
      in if 0 < ack then do_on_peer_ack ob ack else ob)"

subsection \<open>The hub's receiving side\<close>

text \<open>
  The numbering part of the socket loop: a frame the connection has seen only has its
  acknowledgement observed; any other is handled and then recorded.
\<close>

definition hub_receive ::
  "'g OutboxOps \<Rightarrow> 'g ConnectionRegistry \<Rightarrow> string \<Rightarrow> u64 \<Rightarrow> u64 \<Rightarrow> 'g ConnectionRegistry \<times> bool" where
  "hub_receive ops reg d seq ack =
     (if has_seen_inbound reg d seq then (observe_ack ops reg d ack, False)
      else (observe_inbound ops reg d seq ack, True))"

fun hub_receive_all ::
  "'g OutboxOps \<Rightarrow> 'g ConnectionRegistry \<Rightarrow> string \<Rightarrow> (u64 \<times> u64) list \<Rightarrow> 'g ConnectionRegistry \<times> u64 list" where
  "hub_receive_all ops reg d [] = (reg, [])"
| "hub_receive_all ops reg d ((seq, ack) # fs) =
     (case hub_receive ops reg d seq ack of (reg', fresh) \<Rightarrow>
        (case hub_receive_all ops reg' d fs of (reg'', seqs) \<Rightarrow>
           (reg'', if fresh then seq # seqs else seqs)))"

subsection \<open>Hub to device over broken connections\<close>

record Link =
  lk_reg :: "InMemoryOutboxStore ConnectionRegistry"
  lk_dev :: DaemonOutbox
  lk_delivered :: "u64 list"

definition pop_queue :: "InMemoryOutboxStore ConnectionRegistry \<Rightarrow> uuid \<Rightarrow> InMemoryOutboxStore ConnectionRegistry" where
  "pop_queue reg cid = upd_conn reg cid (\<lambda>c. c\<lparr>cn_queue := tl (cn_queue c)\<rparr>)"

text \<open>
  One step of the link of device \<open>d\<close>. A send happens while at most \<^const>\<open>MAX_BUFFER\<close> frames wait for
  an acknowledgement and the counter is not exhausted. An acknowledgement the hub observes is
  any number up to what the device has received, however late it arrives. A disconnect runs the
  orderly teardown and loses the queue; a reconnect registers a fresh connection with what the
  device has received.
\<close>

inductive link_step :: "('p Envelope \<Rightarrow> bytes) \<Rightarrow> (bytes \<Rightarrow> u64) \<Rightarrow> string \<Rightarrow> Link \<Rightarrow> Link \<Rightarrow> bool"
  for encode :: "'p Envelope \<Rightarrow> bytes" and decode_seq :: "bytes \<Rightarrow> u64" and d :: string where
  link_send: "conn_send mem_ops encode (lk_reg lk) d env = (reg', r) \<Longrightarrow>
    length (buffer_of (rg_outbox (lk_reg lk)) d) < MAX_BUFFER \<Longrightarrow>
    seq_of (rg_outbox (lk_reg lk)) d \<noteq> - 1 \<Longrightarrow>
    link_step encode decode_seq d lk (lk\<lparr>lk_reg := reg'\<rparr>)"
| link_deliver: "active_of (lk_reg lk) d = Some cid \<Longrightarrow>
    map_of (rg_conns (lk_reg lk)) cid = Some c \<Longrightarrow> cn_queue c = f # q \<Longrightarrow>
    link_step encode decode_seq d lk
      (lk\<lparr>lk_reg := pop_queue (lk_reg lk) cid,
          lk_dev := daemon_observe (lk_dev lk) (decode_seq f) 0,
          lk_delivered := lk_delivered lk @ [decode_seq f]\<rparr>)"
| link_ack: "a \<le> do_local_ack (lk_dev lk) \<Longrightarrow>
    link_step encode decode_seq d lk (lk\<lparr>lk_reg := observe_ack mem_ops (lk_reg lk) d a\<rparr>)"
| link_disconnect: "unregister mem_ops (lk_reg lk) d cid = (reg', True) \<Longrightarrow>
    link_step encode decode_seq d lk (lk\<lparr>lk_reg := reg'\<rparr>)"
| link_reconnect: "active_of (lk_reg lk) d = None \<Longrightarrow> map_of (rg_conns (lk_reg lk)) cid = None \<Longrightarrow>
    conn_register mem_ops (\<lambda>_ reg. reg) (lk_reg lk) d (do_local_ack (lk_dev lk)) sid cid = (reg', Inr cid) \<Longrightarrow>
    link_step encode decode_seq d lk (lk\<lparr>lk_reg := reg'\<rparr>)"

definition link_init :: Link where
  "link_init = \<lparr> lk_reg = empty_registry, lk_dev = do_new 10000, lk_delivered = [] \<rparr>"

inductive link_reach :: "('p Envelope \<Rightarrow> bytes) \<Rightarrow> (bytes \<Rightarrow> u64) \<Rightarrow> string \<Rightarrow> Link \<Rightarrow> bool"
  for encode :: "'p Envelope \<Rightarrow> bytes" and decode_seq :: "bytes \<Rightarrow> u64" and d :: string where
  reach_init: "link_reach encode decode_seq d link_init"
| reach_step: "link_reach encode decode_seq d lk \<Longrightarrow> link_step encode decode_seq d lk lk' \<Longrightarrow>
    link_reach encode decode_seq d lk'"

text \<open>Numbers that follow each other from \<open>k + 1\<close> to \<open>n\<close>.\<close>

definition consec :: "nat \<Rightarrow> nat \<Rightarrow> u64 list \<Rightarrow> bool" where
  "consec k n xs \<longleftrightarrow> k \<le> n \<and> map unat xs = [Suc k..<Suc n]"

definition link_inv :: "(bytes \<Rightarrow> u64) \<Rightarrow> string \<Rightarrow> Link \<Rightarrow> bool" where
  "link_inv decode_seq d lk \<longleftrightarrow>
     (let reg = lk_reg lk; g = rg_outbox reg; a = unat (do_local_ack (lk_dev lk)); n = unat (seq_of g d)
      in consec 0 a (lk_delivered lk) \<and>
         (\<exists>k \<le> a. consec k n (map fst (buffer_of g d))) \<and> a \<le> n \<and>
         (\<forall>p \<in> set (buffer_of g d). decode_seq (snd p) = fst p) \<and>
         (case active_of reg d of
            None \<Rightarrow> lock_of g d = None
          | Some cid \<Rightarrow>
              (\<exists>c. map_of (rg_conns reg) cid = Some c \<and> cn_rx_alive c \<and> lock_of g d = Some (cn_session_id c) \<and>
                 consec a n (map decode_seq (cn_queue c)))))"

text \<open>
  A toy wire format for concrete runs, and the link after the device has connected, the hub has
  sent a frame and the device has received it.
\<close>

definition unary_encode :: "unit Envelope \<Rightarrow> bytes" where
  "unary_encode e = replicate (unat (env_seq e)) 0"

definition unary_decode :: "bytes \<Rightarrow> u64" where
  "unary_decode f = word_of_nat (length f)"

definition unary_send :: "Link \<Rightarrow> Link" where
  "unary_send lk = lk\<lparr>lk_reg := fst (conn_send mem_ops unary_encode (lk_reg lk) ''d'' sample_envelope)\<rparr>"

definition link_connect :: "Link \<Rightarrow> string \<Rightarrow> uuid \<Rightarrow> Link" where
  "link_connect lk sid cid = lk\<lparr>lk_reg := fst (conn_register mem_ops (\<lambda>_ reg. reg) (lk_reg lk) ''d''
     (do_local_ack (lk_dev lk)) sid cid)\<rparr>"

definition link_receive :: "Link \<Rightarrow> uuid \<Rightarrow> Link" where
  "link_receive lk cid =
     (let f = hd (cn_queue (the (map_of (rg_conns (lk_reg lk)) cid)))
      in lk\<lparr>lk_reg := pop_queue (lk_reg lk) cid, lk_dev := daemon_observe (lk_dev lk) (unary_decode f) 0,
            lk_delivered := lk_delivered lk @ [unary_decode f]\<rparr>)"

definition sample_link :: Link where
  "sample_link = link_receive (unary_send (link_connect link_init ''s1'' ''c1'')) ''c1''"

section \<open>Lemmas\<close>

subsection \<open>Consecutive numbers\<close>

lemma filter_upt_greater: "filter (\<lambda>i. a < i) [Suc k..<Suc n] = [Suc (max k a)..<Suc n]"
  by (induction n) (auto simp: max_def)

lemma consec_filter:
  assumes "consec k n (map fst b)" and "unat a \<le> n"
  shows "consec (max k (unat a)) n (map fst (filter (\<lambda>p. a < fst p) b))"
proof -
  have "map unat (map fst (filter (\<lambda>p. a < fst p) b)) = filter (\<lambda>i. unat a < i) (map unat (map fst b))"
    by (induction b) (auto simp: word_less_nat_alt)
  also have "map unat (map fst b) = [Suc k..<Suc n]" using assms(1) by (simp only: consec_def)
  finally show ?thesis using assms by (simp only: consec_def filter_upt_greater) simp
qed

lemma consec_sorted: "consec k n xs \<Longrightarrow> sorted_wrt (<) xs"
proof -
  assume "consec k n xs"
  then have "sorted_wrt (<) (map unat xs)" by (simp only: consec_def sorted_wrt_upt)
  then have "sorted_wrt (\<lambda>x y. unat x < unat y) xs" by (simp add: sorted_wrt_map)
  then show ?thesis by (rule sorted_wrt_mono_rel [rotated]) (simp add: word_less_nat_alt)
qed

lemma consec_snoc:
  assumes "consec k (unat n) xs" and "n \<noteq> - 1"
  shows "consec k (unat (n + 1)) (xs @ [n + 1])"
  using assms by (simp add: consec_def unat_Suc_word)

lemma consec_Cons: "consec k n (x # xs) \<Longrightarrow> unat x = Suc k \<and> consec (Suc k) n xs"
  by (cases "k < n") (auto simp: consec_def upt_conv_Cons)

lemma consec_trim:
  assumes "consec k n (map fst b)" and "unat a \<le> n"
  shows "consec (max k (unat a)) n (map fst (trim_acked a b))"
  using consec_filter [OF assms] trim_acked_filter [OF consec_sorted [OF assms(1)]] by simp


subsection \<open>The link invariant\<close>

lemma link_inv_init: "link_inv decode_seq d link_init"
  by (simp add: link_inv_def link_init_def empty_registry_def do_new_def consec_def active_of_def
      view_defs default_device_state_def Let_def)

lemma evict_fits: "length xs \<le> cap \<Longrightarrow> evict cap xs = xs"
  by (simp add: evict_last_n)

lemma link_inv_send:
  assumes "\<forall>e. decode_seq (encode e) = env_seq e" and "link_inv decode_seq d lk"
    and "conn_send mem_ops encode (lk_reg lk) d env = (reg', r)"
    and "length (buffer_of (rg_outbox (lk_reg lk)) d) < MAX_BUFFER"
    and "seq_of (rg_outbox (lk_reg lk)) d \<noteq> - 1"
  shows "link_inv decode_seq d (lk\<lparr>lk_reg := reg'\<rparr>)"
proof (cases "active_of (lk_reg lk) d")
  case None
  with assms(2,3) show ?thesis by (auto simp: conn_send_def send_lookup_def link_inv_def Let_def)
next
  case (Some cid)
  let ?g = "rg_outbox (lk_reg lk)" and ?a = "unat (do_local_ack (lk_dev lk))"
  from assms(2) Some obtain c k where
    c: "map_of (rg_conns (lk_reg lk)) cid = Some c" "cn_rx_alive c" "lock_of ?g d = Some (cn_session_id c)"
      "consec ?a (unat (seq_of ?g d)) (map decode_seq (cn_queue c))"
    and k: "k \<le> ?a" "consec k (unat (seq_of ?g d)) (map fst (buffer_of ?g d))"
    and inv: "consec 0 ?a (lk_delivered lk)" "?a \<le> unat (seq_of ?g d)"
      "\<forall>p \<in> set (buffer_of ?g d). decode_seq (snd p) = fst p"
    by (auto simp: link_inv_def Let_def)
  from mem_store.send_owner [OF Some c(1,3), of encode env] c(2) assms(3) obtain g frame where
    g: "lock_of g d = lock_of ?g d" "seq_of g d = seq_of ?g d + 1"
      "buffer_of g d = evict MAX_BUFFER (buffer_of ?g d @ [(seq_of ?g d + 1, frame)])"
    and reg': "reg' = upd_conn ((lk_reg lk)\<lparr>rg_outbox := g\<rparr>) cid (\<lambda>c. c\<lparr>cn_queue := cn_queue c @ [frame]\<rparr>)"
    and frame: "decode_seq frame = seq_of ?g d + 1"
    using assms(1) by (auto simp: Let_def)
  have b: "buffer_of g d = buffer_of ?g d @ [(seq_of ?g d + 1, frame)]"
    using g(3) assms(4) by (simp add: evict_fits)
  have "consec k (unat (seq_of g d)) (map fst (buffer_of g d))"
    using consec_snoc [OF k(2) assms(5)] b g(2) by simp
  moreover have "consec ?a (unat (seq_of g d)) (map decode_seq (cn_queue c @ [frame]))"
    using consec_snoc [OF c(4) assms(5)] frame g(2) by simp
  moreover have "?a \<le> unat (seq_of g d)" using inv(2) g(2) assms(5) by (simp add: unat_Suc_word)
  ultimately show ?thesis
    using inv k(1) c Some reg' g(1) b frame by (auto simp: link_inv_def Let_def)
qed

lemma link_inv_deliver:
  assumes "link_inv decode_seq d lk" and "active_of (lk_reg lk) d = Some cid"
    and "map_of (rg_conns (lk_reg lk)) cid = Some c" and "cn_queue c = f # q"
  shows "link_inv decode_seq d (lk\<lparr>lk_reg := pop_queue (lk_reg lk) cid,
      lk_dev := daemon_observe (lk_dev lk) (decode_seq f) 0,
      lk_delivered := lk_delivered lk @ [decode_seq f]\<rparr>)"
proof -
  let ?g = "rg_outbox (lk_reg lk)" and ?a = "unat (do_local_ack (lk_dev lk))"
  from assms obtain k where
    c: "cn_rx_alive c" "lock_of ?g d = Some (cn_session_id c)"
      "consec ?a (unat (seq_of ?g d)) (decode_seq f # map decode_seq q)"
    and k: "k \<le> ?a" "consec k (unat (seq_of ?g d)) (map fst (buffer_of ?g d))"
    and inv: "consec 0 ?a (lk_delivered lk)" "\<forall>p \<in> set (buffer_of ?g d). decode_seq (snd p) = fst p"
    by (auto simp: link_inv_def Let_def)
  from consec_Cons [OF c(3)] have f: "unat (decode_seq f) = Suc ?a"
    and q: "consec (Suc ?a) (unat (seq_of ?g d)) (map decode_seq q)" by auto
  from f have "do_local_ack (lk_dev lk) < decode_seq f" "0 < decode_seq f" by (simp_all add: word_less_nat_alt)
  then have la: "do_local_ack (daemon_observe (lk_dev lk) (decode_seq f) 0) = decode_seq f"
    by (simp add: daemon_observe_def do_on_recv_def)
  have "consec 0 (unat (decode_seq f)) (lk_delivered lk @ [decode_seq f])"
    using inv(1) f by (simp add: consec_def)
  moreover from q have "unat (decode_seq f) \<le> unat (seq_of ?g d)" using f by (simp add: consec_def)
  ultimately show ?thesis
    using k c(1,2) inv(2) q f la assms(2-4)
    by (auto simp: link_inv_def Let_def pop_queue_def intro: exI [of _ k])
qed

lemma link_inv_ack:
  assumes "link_inv decode_seq d lk" and "a \<le> do_local_ack (lk_dev lk)"
  shows "link_inv decode_seq d (lk\<lparr>lk_reg := observe_ack mem_ops (lk_reg lk) d a\<rparr>)"
proof (cases "a = 0")
  case False
  let ?g = "rg_outbox (lk_reg lk)" and ?a = "unat (do_local_ack (lk_dev lk))"
  from mem_store.observe_law [of ?g d a] obtain g where
    g: "op_observe_ack mem_ops ?g d a = Inr g" "lock_of g d = lock_of ?g d" "seq_of g d = seq_of ?g d"
      "buffer_of g d = (if seq_of ?g d < a then buffer_of ?g d else trim_acked a (buffer_of ?g d))" by blast
  from assms obtain k where k: "k \<le> ?a" "consec k (unat (seq_of ?g d)) (map fst (buffer_of ?g d))"
    and n: "?a \<le> unat (seq_of ?g d)" by (auto simp: link_inv_def Let_def)
  from assms(2) have a: "unat a \<le> ?a" by (simp add: word_le_nat_alt)
  with n have b: "buffer_of g d = trim_acked a (buffer_of ?g d)"
    using g(4) by (simp add: word_less_nat_alt)
  have "consec (max k (unat a)) (unat (seq_of ?g d)) (map fst (buffer_of g d))"
    using consec_trim [OF k(2), of a] a n b by simp
  moreover have "max k (unat a) \<le> ?a" using k(1) a by simp
  ultimately have "\<exists>k \<le> ?a. consec k (unat (seq_of ?g d)) (map fst (buffer_of g d))" by blast
  moreover have "\<forall>p \<in> set (buffer_of g d). decode_seq (snd p) = fst p"
    using assms(1) set_trim_acked_subset [of a "buffer_of ?g d"] b by (auto simp: link_inv_def Let_def)
  ultimately show ?thesis
    using assms(1) g(1-3) False by (auto simp: link_inv_def Let_def observe_ack_def split: option.splits)
qed (use assms in \<open>simp add: observe_ack_def\<close>)

lemma link_inv_disconnect:
  assumes "link_inv decode_seq d lk" and "unregister mem_ops (lk_reg lk) d cid = (reg', True)"
  shows "link_inv decode_seq d (lk\<lparr>lk_reg := reg'\<rparr>)"
proof -
  from assms(2) have act: "active_of (lk_reg lk) d = Some cid"
    by (auto simp: unregister_def unregister_begin_def split: if_splits)
  with assms(1) obtain c where c: "map_of (rg_conns (lk_reg lk)) cid = Some c"
    "lock_of (rg_outbox (lk_reg lk)) d = Some (cn_session_id c)" by (auto simp: link_inv_def Let_def)
  from mem_store.unregister_releases [OF act c] assms(2) have
    "lock_of (rg_outbox reg') d = None" "active_of reg' d = None"
    "seq_of (rg_outbox reg') d = seq_of (rg_outbox (lk_reg lk)) d"
    "buffer_of (rg_outbox reg') d = buffer_of (rg_outbox (lk_reg lk)) d" by auto
  with assms(1) show ?thesis by (auto simp: link_inv_def Let_def)
qed

lemma link_inv_reconnect:
  assumes "link_inv decode_seq d lk" and "active_of (lk_reg lk) d = None"
    and "conn_register mem_ops env (lk_reg lk) d (do_local_ack (lk_dev lk)) sid cid = (reg', Inr cid)"
  shows "link_inv decode_seq d (lk\<lparr>lk_reg := reg'\<rparr>)"
proof -
  let ?g = "rg_outbox (lk_reg lk)" and ?a = "do_local_ack (lk_dev lk)"
  from assms(1,2) obtain k where k: "k \<le> unat ?a" "consec k (unat (seq_of ?g d)) (map fst (buffer_of ?g d))"
    and n: "unat ?a \<le> unat (seq_of ?g d)" and lk: "lock_of ?g d = None" by (auto simp: link_inv_def Let_def)
  from mem_store.register_free [OF lk, of env sid] obtain g1 where
    g1: "acquire_lock mem_ops env (lk_reg lk) d sid = ((lk_reg lk)\<lparr>rg_outbox := g1\<rparr>, Inr True)"
      "lock_of g1 d = Some sid" "seq_of g1 d = seq_of ?g d" "buffer_of g1 d = buffer_of ?g d" by auto
  have "lock_of (rg_outbox ((lk_reg lk)\<lparr>rg_outbox := g1\<rparr>)) d = Some sid" using g1(2) by simp
  from mem_store.register_session_ok [OF this, of ?a cid] g1 assms(3) n obtain g2 seen where
    reg': "reg' = publish_active ((lk_reg lk)\<lparr>rg_outbox := g2\<rparr>) d cid
        \<lparr> cn_session_id = sid, cn_queue = map snd (filter (\<lambda>p. ?a < fst p) (buffer_of g2 d)),
          cn_rx_alive = True, cn_close = False, cn_last_inbound_seq = 0, cn_lease_task = True,
          cn_kick_task = True, cn_kick_seen = seen \<rparr>"
    and g2: "lock_of g2 d = Some sid" "seq_of g2 d = seq_of ?g d"
      "buffer_of g2 d = trim_acked ?a (buffer_of ?g d)"
    by (auto simp: conn_register_def word_less_nat_alt max_def word_le_nat_alt)
  have b: "consec (unat ?a) (unat (seq_of ?g d)) (map fst (buffer_of g2 d))"
    using consec_trim [OF k(2) n] k(1) g2(3) by (simp add: max_absorb2)
  have dec: "\<forall>p \<in> set (buffer_of g2 d). decode_seq (snd p) = fst p"
    using assms(1) set_trim_acked_subset [of ?a "buffer_of ?g d"] g2(3) by (auto simp: link_inv_def Let_def)
  then have eq: "map decode_seq (map snd (filter (\<lambda>p. ?a < fst p) (buffer_of g2 d)))
      = map fst (filter (\<lambda>p. ?a < fst p) (buffer_of g2 d))" by simp
  have "consec (unat ?a) (unat (seq_of ?g d)) (map decode_seq (map snd (filter (\<lambda>p. ?a < fst p) (buffer_of g2 d))))"
    unfolding eq using consec_filter [OF b n] by simp
  moreover have "active_of ((lk_reg lk)\<lparr>rg_outbox := g2\<rparr>) d \<noteq> Some cid" using assms(2) by simp
  note publish_active_simps(1-3) [OF this]
  ultimately show ?thesis
    using assms(1) reg' g2(1,2) b dec n by (auto simp: link_inv_def Let_def)
qed

lemma link_reach_inv:
  assumes "link_reach encode decode_seq d lk" and "\<forall>e. decode_seq (encode e) = env_seq e"
  shows "link_inv decode_seq d lk"
  using assms
proof (induction rule: link_reach.induct)
  case reach_init
  then show ?case by (simp add: link_inv_init)
next
  case (reach_step lk lk')
  from reach_step.hyps(2) reach_step.IH [OF reach_step.prems] reach_step.prems show ?case
    by cases (auto intro: link_inv_send link_inv_deliver link_inv_ack link_inv_disconnect link_inv_reconnect)
qed


subsection \<open>The hub's inbound numbering\<close>

lemma observe_ack_simps [simp]:
  "rg_conns (observe_ack ops reg d a) = rg_conns reg"
  "rg_senders (observe_ack ops reg d a) = rg_senders reg"
  "active_of (observe_ack ops reg d a) e = active_of reg e"
  by (auto simp: observe_ack_def active_of_def split: sum.splits)

lemma hub_receive_step:
  assumes "hub_receive ops reg d s a = (reg', fresh)" and "active_of reg d = Some cid"
    and "map_of (rg_conns reg) cid = Some c" and "s \<noteq> 0"
  shows "active_of reg' d = Some cid \<and> fresh = (cn_last_inbound_seq c < s) \<and>
    map_of (rg_conns reg') cid = Some (c\<lparr>cn_last_inbound_seq := max (cn_last_inbound_seq c) s\<rparr>)"
  using assms
  by (auto simp: hub_receive_def has_seen_inbound_def observe_inbound_def Let_def max_def linorder_not_le
      word_gt_0 split: if_splits)

lemma hub_receive_all_sorted:
  assumes "hub_receive_all ops reg d fs = (reg', seqs)" and "active_of reg d = Some cid"
    and "map_of (rg_conns reg) cid = Some c" and "\<forall>s \<in> fst ` set fs. s \<noteq> 0"
  shows "sorted_wrt (<) (cn_last_inbound_seq c # seqs) \<and> set seqs \<subseteq> fst ` set fs \<and>
    (\<exists>c'. map_of (rg_conns reg') cid = Some c' \<and> cn_last_inbound_seq c' = last (cn_last_inbound_seq c # seqs) \<and>
       (\<forall>s \<in> fst ` set fs. s \<le> cn_last_inbound_seq c'))"
  using assms
proof (induction fs arbitrary: reg seqs c)
  case (Cons f fs)
  obtain s a where f: "f = (s, a)" by (cases f)
  obtain reg1 fresh where r1: "hub_receive ops reg d s a = (reg1, fresh)" by (cases "hub_receive ops reg d s a")
  from Cons.prems(1) f r1 obtain seqs1 where
    r2: "hub_receive_all ops reg1 d fs = (reg', seqs1)" "seqs = (if fresh then s # seqs1 else seqs1)"
    by (auto split: prod.splits)
  from hub_receive_step [OF r1 Cons.prems(2,3)] Cons.prems(4) f have
    st: "active_of reg1 d = Some cid" "fresh = (cn_last_inbound_seq c < s)"
      "map_of (rg_conns reg1) cid = Some (c\<lparr>cn_last_inbound_seq := max (cn_last_inbound_seq c) s\<rparr>)" by auto
  from Cons.IH [OF r2(1) st(1,3)] Cons.prems(4) have
    ih: "sorted_wrt (<) (max (cn_last_inbound_seq c) s # seqs1)" "set seqs1 \<subseteq> fst ` set fs"
      "\<exists>c'. map_of (rg_conns reg') cid = Some c' \<and>
        cn_last_inbound_seq c' = last (max (cn_last_inbound_seq c) s # seqs1) \<and>
        (\<forall>s \<in> fst ` set fs. s \<le> cn_last_inbound_seq c')" by auto
  have le: "m \<le> last (m # xs)" if "sorted_wrt (<) (m # xs)" for m :: u64 and xs
    using that by (cases xs) (auto intro: less_imp_le)
  show ?case
  proof (cases "cn_last_inbound_seq c < s")
    case True
    then have "max (cn_last_inbound_seq c) s = s" by simp
    with True ih st(2) r2(2) f le [OF ih(1)] show ?thesis by (auto intro: less_trans)
  next
    case False
    then have "max (cn_last_inbound_seq c) s = cn_last_inbound_seq c" by simp
    with False ih st(2) r2(2) f le [OF ih(1)] show ?thesis by auto
  qed
qed auto

lemma trim_acked_all: "\<forall>p \<in> set q. fst p \<le> a \<Longrightarrow> trim_acked a q = []"
  by (induction q) auto

section \<open>Properties\<close>


lemma replicate_two: "replicate 2 x = [x, x]"
  by (simp add: numeral_2_eq_2)

lemma unary_roundtrip: "unary_decode (unary_encode e) = env_seq e"
  by (simp add: unary_decode_def unary_encode_def)


lemma reach_connect:
  assumes "link_reach encode decode_seq ''d'' lk" and "active_of (lk_reg lk) ''d'' = None"
    and "map_of (rg_conns (lk_reg lk)) cid = None" and "lock_of (rg_outbox (lk_reg lk)) ''d'' = None"
  shows "link_reach encode decode_seq ''d'' (link_connect lk sid cid)"
proof -
  obtain reg' r where reg: "conn_register mem_ops (\<lambda>_ reg. reg) (lk_reg lk) ''d'' (do_local_ack (lk_dev lk)) sid cid = (reg', r)"
    by (meson surj_pair)
  from mem_store.register_free [OF assms(4), of "\<lambda>_ reg. reg" sid] obtain g where
    g: "acquire_lock mem_ops (\<lambda>_ reg. reg) (lk_reg lk) ''d'' sid = ((lk_reg lk)\<lparr>rg_outbox := g\<rparr>, Inr True)"
      "lock_of g ''d'' = Some sid" by auto
  have "lock_of (rg_outbox ((lk_reg lk)\<lparr>rg_outbox := g\<rparr>)) ''d'' = Some sid" using g(2) by simp
  from mem_store.register_session_ok [OF this, of "do_local_ack (lk_dev lk)" cid] g(1) reg
  have "r = Inr cid" by (auto simp: conn_register_def)
  with reg have "link_step encode decode_seq ''d'' lk (link_connect lk sid cid)"
    using link_reconnect [OF assms(2,3), of sid reg'] by (simp add: link_connect_def)
  with assms(1) show ?thesis by (rule reach_step)
qed

lemma sample_connected: "link_connect link_init ''s1'' ''c1'' = link_init\<lparr>lk_reg := live_registry\<rparr>"
  by (simp add: link_connect_def live_registry_def link_init_def do_new_def)

lemma sample_sent: "unary_send (link_init\<lparr>lk_reg := live_registry\<rparr>) = link_init\<lparr>lk_reg :=
    \<lparr> rg_senders = [(''d'', Some ''c1'')],
      rg_conns = [(''c1'', \<lparr> cn_session_id = ''s1'', cn_queue = [[0]], cn_rx_alive = True, cn_close = False,
        cn_last_inbound_seq = 0, cn_lease_task = True, cn_kick_task = True, cn_kick_seen = 0 \<rparr>)],
      rg_outbox = [(''d'', \<lparr> ds_lock = Some ''s1'', ds_seq = 1, ds_buffer = [(1, [0])],
        ds_kick_tx = Some \<lparr> kc_value = 0, kc_version = 0, kc_receivers = 1 \<rparr>, ds_kick_count = 0 \<rparr>)] \<rparr>\<rparr>"
  by (simp add: unary_send_def live_registry_eval conn_eval unary_encode_def sample_envelope_def MAX_BUFFER_def)

lemma sample_link_reach: "link_reach unary_encode unary_decode ''d'' sample_link"
proof -
  let ?lk1 = "link_init\<lparr>lk_reg := live_registry\<rparr>"
  have "active_of (lk_reg link_init) ''d'' = None" "map_of (rg_conns (lk_reg link_init)) ''c1'' = None"
    "lock_of (rg_outbox (lk_reg link_init)) ''d'' = None"
    by (simp_all add: link_init_def empty_registry_def active_of_def view_defs default_device_state_def)
  from reach_connect [OF reach_init this, of unary_encode unary_decode "''s1''"]
  have r1: "link_reach unary_encode unary_decode ''d'' ?lk1" by (simp only: sample_connected)
  have "link_step unary_encode unary_decode ''d'' ?lk1 (unary_send ?lk1)"
    unfolding unary_send_def
    by (rule link_send [OF prod.collapse [symmetric]])
      (simp_all add: live_registry_eval view_defs MAX_BUFFER_def)
  with r1 have r2: "link_reach unary_encode unary_decode ''d'' (unary_send ?lk1)" by (rule reach_step)
  have "link_step unary_encode unary_decode ''d'' (unary_send ?lk1) (link_receive (unary_send ?lk1) ''c1'')"
    using link_deliver [of "unary_send ?lk1" "''d''" "''c1''" _ "[0]" "[]" unary_encode unary_decode]
    by (simp add: sample_sent active_of_def link_receive_def Let_def)
  with r2 show ?thesis
    by (simp only: sample_link_def sample_connected) (rule reach_step)
qed

lemma sample_link_facts:
  "lk_delivered sample_link = [1]" "active_of (lk_reg sample_link) ''d'' = Some ''c1''"
  "seq_of (rg_outbox (lk_reg sample_link)) ''d'' = 1"
  by (simp_all only: sample_link_def sample_connected sample_sent)
    (simp_all add: link_receive_def pop_queue_def active_of_def upd_conn_def view_defs unary_decode_def
      link_init_def Let_def)


text \<open>
  Each frame of a device is handled at most once per connection: among the numbered frames that
  arrive on a connection, in any order and with any repetition, those the hub handles have
  strictly increasing numbers, and afterwards the connection acknowledges the highest of all.
\<close>

theorem inbound_handled_once:
  assumes "hub_receive_all ops reg d fs = (reg', seqs)" and "active_of reg d = Some cid"
    and "map_of (rg_conns reg) cid = Some c" and "\<forall>s \<in> fst ` set fs. s \<noteq> 0"
  shows "sorted_wrt (<) (cn_last_inbound_seq c # seqs) \<and>
    (\<exists>c'. map_of (rg_conns reg') cid = Some c' \<and> cn_last_inbound_seq c' = last (cn_last_inbound_seq c # seqs) \<and>
       (\<forall>s \<in> fst ` set fs. s \<le> cn_last_inbound_seq c'))"
  using hub_receive_all_sorted [OF assms] by blast

theorem inbound_handled_once_witness:
  "sorted_wrt (<) (0 # snd (hub_receive_all mem_ops live_registry ''d'' [(1, 0), (2, 0), (1, 0), (5, 0), (4, 0)]))"
proof -
  let ?fs = "[(1, 0), (2, 0), (1, 0), (5, 0), (4, 0)] :: (u64 \<times> u64) list"
  obtain reg' seqs where r: "hub_receive_all mem_ops live_registry ''d'' ?fs = (reg', seqs)"
    by (cases "hub_receive_all mem_ops live_registry ''d'' ?fs")
  from inbound_handled_once [OF r, of "''c1''" "the (map_of (rg_conns live_registry) ''c1'')"] r show ?thesis
    by (simp add: live_registry_eval active_of_def)
qed

text \<open>
  A frame sent through the sender of a closed connection is lost. Jobs keep the sender of the
  connection they were started on; after a reconnect such a frame is numbered and buffered but
  not queued, the next frame of the new connection carries a higher number, and the hub's
  cumulative acknowledgement of that one removes both from the replay buffer.
\<close>

theorem stale_sender_frame_lost:
  assumes "\<forall>p \<in> set (do_buffer ob). fst p < do_next_seq ob" and "unat (do_next_seq ob) + 2 < 2 ^ 64"
    and "buffered_send encode ob None e1 = (ob1, tx1, r1)"
    and "buffered_send encode ob1 (Some q) e2 = (ob2, tx2, r2)"
  shows "r1 = Inl () \<and>
    tx2 = Some (q @ [encode (e2\<lparr>env_seq := do_next_seq ob + 1, env_ack := do_local_ack ob\<rparr>)]) \<and>
    drain_unacked (daemon_observe ob2 0 (do_next_seq ob + 1)) = []"
proof -
  let ?n = "do_next_seq ob"
  have n: "?n \<noteq> - 1" using assms(2) unat_max_u64 by auto
  then have lt: "?n < ?n + 1" "0 < ?n + 1" using word_Suc_less [of ?n] by (auto simp: word_gt_0)
  have ob2: "set (do_buffer ob2) \<subseteq> set (do_buffer ob) \<union>
      {(?n, encode (e1\<lparr>env_seq := ?n, env_ack := do_local_ack ob\<rparr>)),
       (?n + 1, encode (e2\<lparr>env_seq := ?n + 1, env_ack := do_local_ack ob\<rparr>))}"
    using assms(3,4)
    by (auto simp: buffered_send_def daemon_outbox_defs Let_def dest!: set_evict_subset [THEN subsetD])
  have le: "fst p \<le> ?n + 1" if p: "p \<in> set (do_buffer ob2)" for p
  proof -
    from ob2 p consider "p \<in> set (do_buffer ob)" | "fst p = ?n" | "fst p = ?n + 1" by auto
    then show ?thesis
    proof cases
      case 1
      with assms(1) have "fst p < ?n" by blast
      then show ?thesis using lt(1) by (rule less_imp_le [OF less_trans])
    qed (use lt(1) in \<open>simp_all add: less_imp_le\<close>)
  qed
  have "trim_acked (if do_peer_ack ob2 < ?n + 1 then ?n + 1 else do_peer_ack ob2) (do_buffer ob2) = []"
    using le by (intro trim_acked_all) (auto simp: linorder_not_less intro: order_trans)
  then have "drain_unacked (daemon_observe ob2 0 (?n + 1)) = []"
    using lt(2) by (simp add: daemon_observe_def do_on_peer_ack_def drain_unacked_def Let_def split: if_splits)
  moreover from assms(3,4) have
    "r1 = Inl () \<and> tx2 = Some (q @ [encode (e2\<lparr>env_seq := ?n + 1, env_ack := do_local_ack ob\<rparr>)])"
    by (auto simp: buffered_send_def prepare_outbound_def stamp_def do_store_def Let_def)
  ultimately show ?thesis by simp
qed

theorem stale_sender_frame_lost_witness:
  "let (ob1, _, r1) = buffered_send unary_encode (do_new 10) None sample_envelope;
       (ob2, tx2, r2) = buffered_send unary_encode ob1 (Some []) sample_envelope
   in r1 = Inl () \<and> tx2 = Some [[0, 0]] \<and> drain_unacked (daemon_observe ob2 0 2) = []"
proof -
  obtain ob1 tx1 r1 where s1: "buffered_send unary_encode (do_new 10) None sample_envelope = (ob1, tx1, r1)"
    by (metis prod_cases3)
  obtain ob2 tx2 r2 where s2: "buffered_send unary_encode ob1 (Some []) sample_envelope = (ob2, tx2, r2)"
    by (metis prod_cases3)
  from stale_sender_frame_lost [OF _ _ s1 s2] s1 s2 show ?thesis
    by (simp add: do_new_def unary_encode_def replicate_two)
qed

end
