(* ===== verification/Pending_Requests.thy ===== *)
theory Pending_Requests
  imports Prelude "HOL-Library.AList"
begin

text \<open>
  The table of in-flight file requests, \<^verbatim>\<open>PendingFileRequests\<close>
  (\<^verbatim>\<open>ahand-hub/src/pending_file_requests.rs\<close>): waiters keyed by device and request id, and an
  atomic counter that admits at most \<open>capacity\<close> of them.

  The operations are not atomic: each is a few steps on the shared map and counter, and the steps
  of concurrent callers interleave. A caller is a program counter, a schedule the list of the
  callers in the order they take steps. The definitions without interleaving are the operations
  as one caller sees them alone.
\<close>

section \<open>Definitions\<close>

definition MAX_PENDING_FILE_REQUESTS :: nat where
  "MAX_PENDING_FILE_REQUESTS = 1024"

datatype PendingFileRequestsError = AtCapacity | Duplicate

type_synonym request_key = "string \<times> string"

text \<open>
  A waiter is identified by the caller that registered it; \<open>pf_sent\<close> is what the oneshot channels
  have delivered, oldest first.
\<close>

record 'r PendingFileRequests =
  pf_pending :: "(request_key \<times> nat) list"
  pf_capacity :: nat
  pf_in_flight :: int
  pf_sent :: "(nat \<times> 'r) list"

definition pf_new :: "nat \<Rightarrow> 'r PendingFileRequests" where
  "pf_new capacity = \<lparr> pf_pending = [], pf_capacity = capacity, pf_in_flight = 0, pf_sent = [] \<rparr>"

subsection \<open>The operations alone\<close>

definition pf_register ::
  "'r PendingFileRequests \<Rightarrow> nat \<Rightarrow> string \<Rightarrow> string \<Rightarrow> 'r PendingFileRequests \<times> (PendingFileRequestsError + nat)" where
  "pf_register s w d r =
     (let new_count = pf_in_flight s + 1;
          s = s\<lparr>pf_in_flight := new_count\<rparr>
      in if new_count > int (pf_capacity s)
         then (s\<lparr>pf_in_flight := pf_in_flight s - 1\<rparr>, Inl AtCapacity)
         else (case map_of (pf_pending s) (d, r) of
                 Some _ \<Rightarrow> (s\<lparr>pf_in_flight := pf_in_flight s - 1\<rparr>, Inl Duplicate)
               | None \<Rightarrow> (s\<lparr>pf_pending := ((d, r), w) # pf_pending s\<rparr>, Inr w)))"

definition pf_resolve :: "'r PendingFileRequests \<Rightarrow> string \<Rightarrow> string \<Rightarrow> 'r \<Rightarrow> 'r PendingFileRequests" where
  "pf_resolve s d r response =
     (case map_of (pf_pending s) (d, r) of
        None \<Rightarrow> s
      | Some w \<Rightarrow> s\<lparr>pf_pending := AList.delete (d, r) (pf_pending s),
                    pf_in_flight := pf_in_flight s - 1,
                    pf_sent := pf_sent s @ [(w, response)]\<rparr>)"

definition pf_cancel :: "'r PendingFileRequests \<Rightarrow> string \<Rightarrow> string \<Rightarrow> 'r PendingFileRequests" where
  "pf_cancel s d r =
     (case map_of (pf_pending s) (d, r) of
        None \<Rightarrow> s
      | Some _ \<Rightarrow> s\<lparr>pf_pending := AList.delete (d, r) (pf_pending s), pf_in_flight := pf_in_flight s - 1\<rparr>)"

subsection \<open>The operations in steps\<close>

datatype 'r caller =
    RegStart string string
  | RegReserved string string int
  | RegEntry string string
  | RegGiveBack PendingFileRequestsError
  | RegDone "PendingFileRequestsError + nat"
  | RemStart string string "'r option"
  | RemSub nat "'r option"
  | RemDone

text \<open>
  One atomic step of caller \<open>w\<close>: the fetch-and-add, the comparison, the map entry under its shard
  lock, the fetch-and-sub, the removal.
\<close>

fun caller_step :: "'r PendingFileRequests \<Rightarrow> nat \<Rightarrow> 'r caller \<Rightarrow> 'r PendingFileRequests \<times> 'r caller" where
  "caller_step s w (RegStart d r) =
     (s\<lparr>pf_in_flight := pf_in_flight s + 1\<rparr>, RegReserved d r (pf_in_flight s + 1))"
| "caller_step s w (RegReserved d r n) =
     (s, if n > int (pf_capacity s) then RegGiveBack AtCapacity else RegEntry d r)"
| "caller_step s w (RegEntry d r) =
     (case map_of (pf_pending s) (d, r) of
        Some _ \<Rightarrow> (s, RegGiveBack Duplicate)
      | None \<Rightarrow> (s\<lparr>pf_pending := ((d, r), w) # pf_pending s\<rparr>, RegDone (Inr w)))"
| "caller_step s w (RegGiveBack e) = (s\<lparr>pf_in_flight := pf_in_flight s - 1\<rparr>, RegDone (Inl e))"
| "caller_step s w (RegDone r) = (s, RegDone r)"
| "caller_step s w (RemStart d r resp) =
     (case map_of (pf_pending s) (d, r) of
        None \<Rightarrow> (s, RemDone)
      | Some v \<Rightarrow> (s\<lparr>pf_pending := AList.delete (d, r) (pf_pending s)\<rparr>, RemSub v resp))"
| "caller_step s w (RemSub v resp) =
     (s\<lparr>pf_in_flight := pf_in_flight s - 1,
        pf_sent := (case resp of None \<Rightarrow> pf_sent s | Some x \<Rightarrow> pf_sent s @ [(v, x)])\<rparr>, RemDone)"
| "caller_step s w RemDone = (s, RemDone)"

fun run_callers ::
  "'r PendingFileRequests \<Rightarrow> 'r caller list \<Rightarrow> nat list \<Rightarrow> 'r PendingFileRequests \<times> 'r caller list" where
  "run_callers s cs [] = (s, cs)"
| "run_callers s cs (i # sched) =
     (if i < length cs
      then (case caller_step s i (cs ! i) of (s', c) \<Rightarrow> run_callers s' (cs[i := c]) sched)
      else run_callers s cs sched)"

fun is_start :: "'r caller \<Rightarrow> bool" where
  "is_start (RegStart _ _) = True"
| "is_start (RemStart _ _ _) = True"
| "is_start _ = False"

fun is_done :: "'r caller \<Rightarrow> bool" where
  "is_done (RegDone _) = True"
| "is_done RemDone = True"
| "is_done _ = False"

text \<open>Callers that hold a unit of the counter, and those of them that may still insert.\<close>

fun holds_unit :: "'r caller \<Rightarrow> bool" where
  "holds_unit (RegReserved _ _ _) = True"
| "holds_unit (RegEntry _ _) = True"
| "holds_unit (RegGiveBack _) = True"
| "holds_unit (RemSub _ _) = True"
| "holds_unit _ = False"

fun may_insert :: "nat \<Rightarrow> 'r caller \<Rightarrow> bool" where
  "may_insert cap (RegReserved _ _ n) = (n \<le> int cap)"
| "may_insert cap (RegEntry _ _) = True"
| "may_insert cap _ = False"

definition pf_inv :: "'r PendingFileRequests \<Rightarrow> 'r caller list \<Rightarrow> bool" where
  "pf_inv s cs \<longleftrightarrow>
     pf_in_flight s = int (length (pf_pending s)) + int (length (filter holds_unit cs)) \<and>
     length (pf_pending s) + length (filter (may_insert (pf_capacity s)) cs) \<le> pf_capacity s \<and>
     distinct (map fst (pf_pending s))"

text \<open>Where each caller, waiter and delivered response comes from, given the callers at the start.\<close>

definition caller_from :: "'r caller list \<Rightarrow> 'r caller \<Rightarrow> 'r caller \<Rightarrow> bool" where
  "caller_from cs0 c0 c = (case c of
      RegStart d r \<Rightarrow> c0 = c
    | RegReserved d r _ \<Rightarrow> c0 = RegStart d r
    | RegEntry d r \<Rightarrow> c0 = RegStart d r
    | RemStart d r x \<Rightarrow> c0 = c
    | RemSub w x \<Rightarrow> \<exists>d r. c0 = RemStart d r x \<and> w < length cs0 \<and> cs0 ! w = RegStart d r
    | _ \<Rightarrow> True)"

definition origins :: "'r caller list \<Rightarrow> 'r PendingFileRequests \<Rightarrow> 'r caller list \<Rightarrow> bool" where
  "origins cs0 s cs \<longleftrightarrow>
     length cs = length cs0 \<and> (\<forall>i < length cs. caller_from cs0 (cs0 ! i) (cs ! i)) \<and>
     (\<forall>((d, r), w) \<in> set (pf_pending s). w < length cs0 \<and> cs0 ! w = RegStart d r) \<and>
     (\<forall>(w, x) \<in> set (pf_sent s). w < length cs0 \<and>
        (\<exists>d r. cs0 ! w = RegStart d r \<and> RemStart d r (Some x) \<in> set cs0))"

section \<open>Lemmas\<close>

lemma may_insert_holds_unit: "may_insert cap c \<Longrightarrow> holds_unit c"
  by (cases c) auto

lemma filter_list_update:
  assumes "i < length cs"
  shows "int (length (filter P (cs[i := c]))) =
    int (length (filter P cs)) - of_bool (P (cs ! i)) + of_bool (P c)"
proof -
  have "cs = take i cs @ cs ! i # drop (Suc i) cs" using assms by (rule id_take_nth_drop)
  then have "length (filter P cs) = length (filter P (take i cs)) + length (filter P (cs ! i # drop (Suc i) cs))"
    by (metis filter_append length_append)
  moreover have "length (filter P (cs[i := c])) = length (filter P (take i cs)) + length (filter P (c # drop (Suc i) cs))"
    using assms by (simp add: upd_conv_take_nth_drop)
  ultimately show ?thesis by simp
qed

lemma delete_notin: "k \<notin> fst ` set al \<Longrightarrow> AList.delete k al = al"
  by (induction al) auto

lemma length_delete:
  "distinct (map fst al) \<Longrightarrow> map_of al k = Some v \<Longrightarrow> Suc (length (AList.delete k al)) = length al"
  by (induction al) (auto simp: delete_notin split: if_splits)


lemma distinct_delete: "distinct (map fst al) \<Longrightarrow> distinct (map fst (AList.delete k al))"
  by (simp add: AList.distinct_delete)

lemma caller_step_inv:
  assumes "pf_inv s cs" and "i < length cs" and "caller_step s i (cs ! i) = (s', c)"
  shows "pf_inv s' (cs[i := c]) \<and> pf_capacity s' = pf_capacity s"
proof -
  let ?cap = "pf_capacity s"
  note upd = filter_list_update [OF assms(2), of holds_unit c]
    filter_list_update [OF assms(2), of "may_insert ?cap" c]
  have le: "length (filter (may_insert ?cap) cs) \<le> length (filter holds_unit cs)"
    by (induction cs) (auto dest: may_insert_holds_unit)
  have cap: "pf_capacity s' = ?cap"
    using assms(3) by (cases "cs ! i") (auto split: option.splits)
  from assms(1) have inv: "pf_in_flight s = int (length (pf_pending s)) + int (length (filter holds_unit cs))"
    "int (length (pf_pending s)) + int (length (filter (may_insert ?cap) cs)) \<le> int ?cap"
    "distinct (map fst (pf_pending s))" by (auto simp: pf_inv_def)
  have "pf_in_flight s' = int (length (pf_pending s')) + int (length (filter holds_unit (cs[i := c]))) \<and>
    int (length (pf_pending s')) + int (length (filter (may_insert ?cap) (cs[i := c]))) \<le> int ?cap \<and>
    distinct (map fst (pf_pending s'))"
  proof (cases "cs ! i")
    case (RemStart d r resp)
    show ?thesis
    proof (cases "map_of (pf_pending s) (d, r)")
      case (Some v)
      with length_delete [OF inv(3) Some] RemStart assms(3) inv upd distinct_delete [OF inv(3), of "(d, r)"]
      show ?thesis by auto
    qed (use RemStart assms(3) inv upd in auto)
  next
    case (RegEntry d r)
    with assms(3) inv upd show ?thesis
      by (auto simp: map_of_eq_None_iff split: option.splits)
  qed (use assms(3) inv upd le in \<open>auto split: if_splits\<close>)
  with cap show ?thesis by (simp add: pf_inv_def)
qed

lemma run_callers_inv:
  "pf_inv s cs \<Longrightarrow> run_callers s cs sched = (s', cs') \<Longrightarrow> pf_inv s' cs' \<and> pf_capacity s' = pf_capacity s"
proof (induction sched arbitrary: s cs)
  case (Cons i sched)
  show ?case
  proof (cases "i < length cs")
    case True
    obtain s1 c where st: "caller_step s i (cs ! i) = (s1, c)" by (cases "caller_step s i (cs ! i)")
    from caller_step_inv [OF Cons.prems(1) True st] Cons.IH [of s1 "cs[i := c]"] Cons.prems(2) True st
    show ?thesis by simp
  qed (use Cons in simp)
qed simp

lemma starts_inv: "list_all is_start cs \<Longrightarrow> pf_inv (pf_new cap) cs"
proof -
  assume "list_all is_start cs"
  then have "filter holds_unit cs = []" "filter (may_insert cap) cs = []"
    by (induction cs) (auto elim: is_start.elims)
  then show ?thesis by (simp add: pf_inv_def pf_new_def)
qed

lemma done_no_unit: "list_all is_done cs \<Longrightarrow> filter holds_unit cs = []"
  by (induction cs) (auto elim: is_done.elims)

text \<open>A caller that runs alone does what the whole operation does.\<close>

lemma register_alone:
  "run_callers s [RegStart d r] [0, 0, 0, 0] =
     (case pf_register s 0 d r of (s', res) \<Rightarrow> (s', [RegDone res]))"
  by (auto simp: pf_register_def Let_def split: option.splits)

lemma resolve_alone:
  "run_callers s [RemStart d r (Some x)] [0, 0] = (pf_resolve s d r x, [RemDone])"
  by (auto simp: pf_resolve_def split: option.splits)

lemma cancel_alone:
  "run_callers s [RemStart d r None] [0, 0] = (pf_cancel s d r, [RemDone])"
  by (auto simp: pf_cancel_def split: option.splits)

lemma caller_step_origins:
  assumes "origins cs0 s cs" and "i < length cs" and "caller_step s i (cs ! i) = (s', c)"
  shows "origins cs0 s' (cs[i := c])"
proof -
  from assms(1) have len: "length cs = length cs0"
    and from_i: "\<And>j. j < length cs0 \<Longrightarrow> caller_from cs0 (cs0 ! j) (cs ! j)"
    and pend: "\<And>d r w. ((d, r), w) \<in> set (pf_pending s) \<Longrightarrow> w < length cs0 \<and> cs0 ! w = RegStart d r"
    and sent: "\<And>w x. (w, x) \<in> set (pf_sent s) \<Longrightarrow> w < length cs0 \<and>
        (\<exists>d r. cs0 ! w = RegStart d r \<and> RemStart d r (Some x) \<in> set cs0)"
    by (auto simp: origins_def)
  have i: "i < length cs0" using assms(2) len by simp
  have "caller_from cs0 (cs0 ! i) c \<and>
    (\<forall>((d, r), w) \<in> set (pf_pending s'). w < length cs0 \<and> cs0 ! w = RegStart d r) \<and>
    (\<forall>(w, x) \<in> set (pf_sent s'). w < length cs0 \<and>
        (\<exists>d r. cs0 ! w = RegStart d r \<and> RemStart d r (Some x) \<in> set cs0))"
    using assms(3) from_i [OF i] pend sent i
    by (cases "cs ! i")
      (auto simp: caller_from_def AList.delete_eq split: option.splits if_splits prod.splits
        dest!: map_of_SomeD intro: nth_mem, (metis nth_mem)+)
  then show ?thesis
    using len from_i i by (auto simp: origins_def nth_list_update)
qed

lemma run_callers_origins:
  "origins cs0 s cs \<Longrightarrow> run_callers s cs sched = (s', cs') \<Longrightarrow> origins cs0 s' cs'"
proof (induction sched arbitrary: s cs)
  case (Cons i sched)
  show ?case
  proof (cases "i < length cs")
    case True
    obtain s1 c where st: "caller_step s i (cs ! i) = (s1, c)" by (cases "caller_step s i (cs ! i)")
    from caller_step_origins [OF Cons.prems(1) True st] Cons.IH [of s1 "cs[i := c]"] Cons.prems(2) True st
    show ?thesis by simp
  qed (use Cons in simp)
qed simp

lemma starts_origins: "list_all is_start cs \<Longrightarrow> origins cs (pf_new cap) cs"
proof -
  assume "list_all is_start cs"
  then have "is_start (cs ! i)" if "i < length cs" for i using that by (simp add: list_all_length)
  then show ?thesis
    by (auto simp: origins_def pf_new_def caller_from_def split: caller.split)
      (metis is_start.simps)+
qed

section \<open>Properties\<close>

text \<open>
  C15. Admission control is race-free. Whatever callers register, resolve and cancel concurrently and
  however their steps interleave, the table never holds more than \<open>capacity\<close> waiters nor two for
  one key, and once every caller has returned the counter equals the number of waiters.
\<close>

theorem pending_requests_bounded:
  assumes "list_all is_start cs" and "run_callers (pf_new capacity) cs sched = (s, cs')"
  shows "length (pf_pending s) \<le> capacity \<and> distinct (map fst (pf_pending s)) \<and>
    (list_all is_done cs' \<longrightarrow> pf_in_flight s = int (length (pf_pending s)))"
  using run_callers_inv [OF starts_inv [OF assms(1)] assms(2)] done_no_unit [of cs']
  by (auto simp: pf_inv_def pf_new_def)

theorem pending_requests_bounded_witness:
  "let cs = [RegStart ''d'' ''r1'', RegStart ''d'' ''r2'', RemStart ''d'' ''r1'' (Some ''resp'')];
       (s, cs') = run_callers (pf_new 1) cs [0, 1, 0, 1, 0, 1, 2, 2]
   in pf_pending s = [] \<and> pf_sent s = [(0, ''resp'')] \<and> cs' ! 1 = RegDone (Inl AtCapacity) \<and>
      length (pf_pending s) \<le> 1 \<and> pf_in_flight s = int (length (pf_pending s))"
  using pending_requests_bounded [of
      "[RegStart ''d'' ''r1'', RegStart ''d'' ''r2'', RemStart ''d'' ''r1'' (Some ''resp'')]" 1 "[0, 1, 0, 1, 0, 1, 2, 2]"]
  by (simp add: pf_new_def)


text \<open>
  No cross contamination: every response delivered to a waiter was sent for the device and the
  request id that waiter registered, under any interleaving.
\<close>

theorem responses_reach_their_waiter:
  assumes "list_all is_start cs" and "run_callers (pf_new capacity) cs sched = (s, cs')"
    and "(w, x) \<in> set (pf_sent s)"
  shows "\<exists>d r. w < length cs \<and> cs ! w = RegStart d r \<and> RemStart d r (Some x) \<in> set cs"
  using run_callers_origins [OF starts_origins [OF assms(1)] assms(2)] assms(3)
  by (auto simp: origins_def)

theorem responses_reach_their_waiter_witness:
  "let cs = [RegStart ''d1'' ''r'', RegStart ''d2'' ''r'', RemStart ''d1'' ''r'' (Some ''a''),
         RemStart ''d2'' ''r'' (Some ''b'')];
       s = fst (run_callers (pf_new 5) cs [0, 1, 1, 1, 0, 0, 3, 2, 2, 3])
   in pf_sent s = [(0, ''a''), (1, ''b'')] \<and>
      (\<exists>d r. cs ! 1 = RegStart d r \<and> RemStart d r (Some ''b'') \<in> set cs)"
  using responses_reach_their_waiter [of
      "[RegStart ''d1'' ''r'', RegStart ''d2'' ''r'', RemStart ''d1'' ''r'' (Some ''a''),
         RemStart ''d2'' ''r'' (Some ''b'')]" 5 "[0, 1, 1, 1, 0, 0, 3, 2, 2, 3]" _ _ 1 "''b''"]
  by (simp add: pf_new_def)

end
