(* ===== verification/Control_Jobs.thy ===== *)
theory Control_Jobs
  imports Prelude "HOL-Library.AList"
begin

text \<open>
  The tracker of control-plane jobs, \<^verbatim>\<open>ControlJobTracker\<close>
  (\<^verbatim>\<open>ahand-hub/src/control_jobs.rs\<close>): the live jobs with their event channels, the owners of
  recently completed jobs, and the index that makes job creation idempotent per user and
  correlation id.

  A job's broadcast channel is the list of events sent on it; instants are integers, the current
  one an argument. \<open>find_by_correlation\<close> removes a dangling index entry, so it returns the tracker
  as well.
\<close>

section \<open>Definitions\<close>

datatype ControlJobEvent =
    Stdout string
  | Stderr string
  | Progress nat "string option"
  | Finished int nat
  | Error string string

record JobChannels =
  jc_events :: "ControlJobEvent list"
  jc_device_id :: string
  jc_external_user_id :: string
  jc_correlation_id :: "string option"
  jc_started_at :: int

record ControlJobAccess =
  ca_device_id :: string
  ca_external_user_id :: string

record ControlJobTracker =
  ct_jobs :: "(string \<times> JobChannels) list"
  ct_completed_access :: "(string \<times> (ControlJobAccess \<times> int)) list"
  ct_correlation_index :: "(string \<times> string) list"
  ct_completed_access_retention :: int

definition tracker_new :: "int \<Rightarrow> ControlJobTracker" where
  "tracker_new retention =
     \<lparr> ct_jobs = [], ct_completed_access = [], ct_correlation_index = [],
       ct_completed_access_retention = retention \<rparr>"

definition correlation_key :: "string \<Rightarrow> string \<Rightarrow> string" where
  "correlation_key external_user_id correlation_id =
     show_nat (length external_user_id) @ '':'' @ external_user_id @ '':'' @ correlation_id"

definition prune_completed_access :: "ControlJobTracker \<Rightarrow> int \<Rightarrow> ControlJobTracker" where
  "prune_completed_access t now =
     t\<lparr>ct_completed_access :=
        filter (\<lambda>(_, _, completed_at). now - completed_at \<le> ct_completed_access_retention t)
          (ct_completed_access t)\<rparr>"

definition ct_register ::
  "ControlJobTracker \<Rightarrow> int \<Rightarrow> string \<Rightarrow> string \<Rightarrow> string \<Rightarrow> string option \<Rightarrow> ControlJobTracker" where
  "ct_register t now job_id device_id external_user_id correlation_id =
     (let channels = \<lparr> jc_events = [], jc_device_id = device_id, jc_external_user_id = external_user_id,
                       jc_correlation_id = correlation_id, jc_started_at = now \<rparr>;
          t = (case correlation_id of
                 None \<Rightarrow> t
               | Some cid \<Rightarrow> t\<lparr>ct_correlation_index :=
                   AList.update (correlation_key external_user_id cid) job_id (ct_correlation_index t)\<rparr>);
          t = prune_completed_access t now;
          t = t\<lparr>ct_completed_access := AList.delete job_id (ct_completed_access t)\<rparr>
      in t\<lparr>ct_jobs := AList.update job_id channels (ct_jobs t)\<rparr>)"

definition ct_get :: "ControlJobTracker \<Rightarrow> string \<Rightarrow> JobChannels option" where
  "ct_get t job_id = map_of (ct_jobs t) job_id"

definition ct_access :: "ControlJobTracker \<Rightarrow> int \<Rightarrow> string \<Rightarrow> ControlJobTracker \<times> ControlJobAccess option" where
  "ct_access t now job_id =
     (let t = prune_completed_access t now
      in (t, case map_of (ct_jobs t) job_id of
               Some channels \<Rightarrow>
                 Some \<lparr> ca_device_id = jc_device_id channels, ca_external_user_id = jc_external_user_id channels \<rparr>
             | None \<Rightarrow> map_option fst (map_of (ct_completed_access t) job_id)))"

definition find_by_correlation :: "ControlJobTracker \<Rightarrow> string \<Rightarrow> string \<Rightarrow> ControlJobTracker \<times> string option" where
  "find_by_correlation t external_user_id correlation_id =
     (let key = correlation_key external_user_id correlation_id
      in case map_of (ct_correlation_index t) key of
           None \<Rightarrow> (t, None)
         | Some existing \<Rightarrow>
             if map_of (ct_jobs t) existing \<noteq> None then (t, Some existing)
             else (t\<lparr>ct_correlation_index := AList.delete key (ct_correlation_index t)\<rparr>, None))"

definition publish :: "ControlJobTracker \<Rightarrow> string \<Rightarrow> ControlJobEvent \<Rightarrow> ControlJobTracker" where
  "publish t job_id event =
     (case map_of (ct_jobs t) job_id of
        None \<Rightarrow> t
      | Some channels \<Rightarrow>
          t\<lparr>ct_jobs := AList.update job_id (channels\<lparr>jc_events := jc_events channels @ [event]\<rparr>) (ct_jobs t)\<rparr>)"

text \<open>
  The terminal event is sent on the channel of the removed job, so finalize returns what its
  subscribers saw.
\<close>

definition finalize ::
  "ControlJobTracker \<Rightarrow> int \<Rightarrow> string \<Rightarrow> ControlJobEvent \<Rightarrow> ControlJobTracker \<times> ControlJobEvent list option" where
  "finalize t now job_id event =
     (case map_of (ct_jobs t) job_id of
        None \<Rightarrow> (t, None)
      | Some channels \<Rightarrow>
          (let t = t\<lparr>ct_jobs := AList.delete job_id (ct_jobs t),
                     ct_completed_access := AList.update job_id
                       (\<lparr> ca_device_id = jc_device_id channels,
                          ca_external_user_id = jc_external_user_id channels \<rparr>, now)
                       (ct_completed_access t)\<rparr>;
               t = (case jc_correlation_id channels of
                      None \<Rightarrow> t
                    | Some cid \<Rightarrow>
                        (let key = correlation_key (jc_external_user_id channels) cid
                         in if map_of (ct_correlation_index t) key = Some job_id
                            then t\<lparr>ct_correlation_index := AList.delete key (ct_correlation_index t)\<rparr>
                            else t))
           in (t, Some (jc_events channels @ [event]))))"

subsection \<open>Specification: histories of the tracker\<close>

datatype tracker_op =
    TRegister int string string string "string option"
  | TFind string string
  | TPublish string ControlJobEvent
  | TFinalize int string ControlJobEvent
  | TAccess int string

fun tracker_step :: "ControlJobTracker \<Rightarrow> tracker_op \<Rightarrow> ControlJobTracker" where
  "tracker_step t (TRegister now j d u c) = ct_register t now j d u c"
| "tracker_step t (TFind u c) = fst (find_by_correlation t u c)"
| "tracker_step t (TPublish j e) = publish t j e"
| "tracker_step t (TFinalize now j e) = fst (finalize t now j e)"
| "tracker_step t (TAccess now j) = fst (ct_access t now j)"

fun registered_ids :: "tracker_op list \<Rightarrow> string list" where
  "registered_ids [] = []"
| "registered_ids (TRegister now j d u c # ops) = j # registered_ids ops"
| "registered_ids (_ # ops) = registered_ids ops"

definition run_tracker :: "ControlJobTracker \<Rightarrow> tracker_op list \<Rightarrow> ControlJobTracker" where
  "run_tracker t ops = fold (\<lambda>op t. tracker_step t op) ops t"

text \<open>
  Every index entry of a live job is under the key of that job's owner and correlation id, and
  only jobs of \<open>ids\<close> occur.
\<close>

definition tracker_inv :: "string set \<Rightarrow> ControlJobTracker \<Rightarrow> bool" where
  "tracker_inv ids t \<longleftrightarrow>
     (\<forall>k j ch. map_of (ct_correlation_index t) k = Some j \<and> map_of (ct_jobs t) j = Some ch \<longrightarrow>
        (\<exists>c. jc_correlation_id ch = Some c \<and> k = correlation_key (jc_external_user_id ch) c)) \<and>
     (\<forall>k j. map_of (ct_correlation_index t) k = Some j \<longrightarrow> j \<in> ids) \<and>
     dom (map_of (ct_jobs t)) \<subseteq> ids"

section \<open>Lemmas\<close>

subsection \<open>Correlation keys\<close>

lemma span_colon:
  assumes "x @ CHR '':'' # xs = y @ CHR '':'' # ys" and "CHR '':'' \<notin> set x" and "CHR '':'' \<notin> set y"
  shows "x = y \<and> xs = ys"
proof -
  have "takeWhile (\<lambda>c. c \<noteq> CHR '':'') (x @ CHR '':'' # xs) = x"
    using assms(2) by (auto simp: takeWhile_tail)
  moreover have "takeWhile (\<lambda>c. c \<noteq> CHR '':'') (y @ CHR '':'' # ys) = y"
    using assms(3) by (auto simp: takeWhile_tail)
  ultimately show ?thesis using assms(1) by auto
qed

lemma correlation_key_inject:
  assumes "correlation_key u c = correlation_key u' c'"
  shows "u = u' \<and> c = c'"
proof -
  from assms have "show_nat (length u) @ CHR '':'' # (u @ CHR '':'' # c)
      = show_nat (length u') @ CHR '':'' # (u' @ CHR '':'' # c')" by (simp add: correlation_key_def)
  from span_colon [OF this colon_notin_show_nat colon_notin_show_nat]
  have "length u = length u'" and "u @ CHR '':'' # c = u' @ CHR '':'' # c'"
    by (auto simp: show_nat_inject)
  then show ?thesis by simp
qed


lemma correlation_key_eq [simp]: "correlation_key u c = correlation_key u' c' \<longleftrightarrow> u = u' \<and> c = c'"
  using correlation_key_inject by blast

subsection \<open>The index invariant\<close>

lemma prune_simps [simp]:
  "ct_jobs (prune_completed_access t now) = ct_jobs t"
  "ct_correlation_index (prune_completed_access t now) = ct_correlation_index t"
  by (simp_all add: prune_completed_access_def)

lemma ct_register_simps:
  "ct_jobs (ct_register t now j d u c) = AList.update j \<lparr> jc_events = [], jc_device_id = d,
     jc_external_user_id = u, jc_correlation_id = c, jc_started_at = now \<rparr> (ct_jobs t)"
  "ct_correlation_index (ct_register t now j d u c) =
     (case c of None \<Rightarrow> ct_correlation_index t | Some cid \<Rightarrow> AList.update (correlation_key u cid) j (ct_correlation_index t))"
  by (simp_all add: ct_register_def Let_def split: option.splits)

lemma register_inv:
  assumes "tracker_inv ids t" and "j \<notin> ids"
  shows "tracker_inv (insert j ids) (ct_register t now j d u c)"
proof (cases c)
  case None
  with assms show ?thesis
    by (auto simp: tracker_inv_def ct_register_simps AList.update_conv' split: if_splits)
next
  case (Some cid)
  with assms show ?thesis
    by (auto simp: tracker_inv_def ct_register_simps AList.update_conv' split: if_splits)
qed

lemma tracker_inv_shrink:
  assumes "tracker_inv ids t"
    and "map_of (ct_correlation_index t') \<subseteq>\<^sub>m map_of (ct_correlation_index t)"
    and "\<And>j ch'. map_of (ct_jobs t') j = Some ch' \<Longrightarrow> \<exists>ch. map_of (ct_jobs t) j = Some ch \<and>
      jc_correlation_id ch' = jc_correlation_id ch \<and> jc_external_user_id ch' = jc_external_user_id ch"
  shows "tracker_inv ids t'"
  unfolding tracker_inv_def
proof (intro conjI allI impI subsetI)
  fix k j ch'
  assume *: "map_of (ct_correlation_index t') k = Some j \<and> map_of (ct_jobs t') j = Some ch'"
  with assms(2) have "map_of (ct_correlation_index t) k = Some j" by (auto simp: map_le_def dom_def)
  with * assms(1,3) show "\<exists>c. jc_correlation_id ch' = Some c \<and> k = correlation_key (jc_external_user_id ch') c"
    by (fastforce simp: tracker_inv_def)
next
  fix k j
  assume "map_of (ct_correlation_index t') k = Some j"
  with assms(2) have "map_of (ct_correlation_index t) k = Some j" by (auto simp: map_le_def dom_def)
  with assms(1) show "j \<in> ids" by (auto simp: tracker_inv_def)
next
  fix j
  assume "j \<in> dom (map_of (ct_jobs t'))"
  with assms(1,3) show "j \<in> ids" by (fastforce simp: tracker_inv_def dom_def)
qed

lemma delete_map_le: "map_of (AList.delete k al) \<subseteq>\<^sub>m map_of al"
  by (auto simp: map_le_def delete_conv')

lemma tracker_step_inv:
  assumes "tracker_inv ids t" and "\<And>now j d u c. op \<noteq> TRegister now j d u c"
  shows "tracker_inv ids (tracker_step t op)"
proof (cases op)
  case (TRegister now j d u c)
  with assms(2) show ?thesis by blast
next
  case (TFind u c)
  show ?thesis
    by (rule tracker_inv_shrink [OF assms(1)])
      (auto simp: TFind find_by_correlation_def Let_def delete_map_le split: option.splits if_splits)
next
  case (TPublish j e)
  show ?thesis
    by (rule tracker_inv_shrink [OF assms(1)])
      (auto simp: TPublish publish_def AList.update_conv' split: option.splits if_splits)
next
  case (TFinalize now j e)
  show ?thesis
    by (rule tracker_inv_shrink [OF assms(1)])
      (auto simp: TFinalize finalize_def Let_def delete_map_le delete_conv' split: option.splits if_splits)
next
  case (TAccess now j)
  show ?thesis
    by (rule tracker_inv_shrink [OF assms(1)]) (auto simp: TAccess ct_access_def Let_def)
qed

lemma run_tracker_inv:
  assumes "tracker_inv ids t" and "distinct (registered_ids ops)" and "set (registered_ids ops) \<inter> ids = {}"
  shows "\<exists>ids'. tracker_inv ids' (run_tracker t ops)"
  using assms
proof (induction ops arbitrary: t ids)
  case (Cons op ops)
  show ?case
  proof (cases "\<exists>now j d u c. op = TRegister now j d u c")
    case True
    then obtain now j d u c where op: "op = TRegister now j d u c" by blast
    with Cons.prems have "tracker_inv (insert j ids) (tracker_step t op)" by (simp add: register_inv)
    from Cons.IH [OF this] Cons.prems op show ?thesis by (simp add: run_tracker_def)
  next
    case False
    then have "tracker_inv ids (tracker_step t op)" by (intro tracker_step_inv [OF Cons.prems(1)]) blast
    moreover from False have "registered_ids (op # ops) = registered_ids ops" by (cases op) auto
    ultimately show ?thesis using Cons.IH [of ids "tracker_step t op"] Cons.prems(2,3)
      by (simp add: run_tracker_def)
  qed
qed (auto simp: run_tracker_def)

lemma map_of_filter_update:
  "map_of xs k = None \<Longrightarrow> map_of (filter P (AList.update k v xs)) k = (if P (k, v) then Some v else None)"
  by (induction xs) (auto split: if_splits)

lemma tracker_new_inv: "tracker_inv {} (tracker_new n)"
  by (simp add: tracker_inv_def tracker_new_def)

section \<open>Properties\<close>

text \<open>
  Correlation lookups never cross users. After any history of the tracker with fresh job ids, a
  job found under a user and a correlation id is live, and it was registered by that user under
  that correlation id.
\<close>

theorem correlation_isolated:
  assumes "distinct (registered_ids ops)"
    and "find_by_correlation (run_tracker (tracker_new retention) ops) u c = (t', Some j)"
  shows "\<exists>ch. ct_get (run_tracker (tracker_new retention) ops) j = Some ch \<and>
    jc_external_user_id ch = u \<and> jc_correlation_id ch = Some c"
proof -
  let ?t = "run_tracker (tracker_new retention) ops"
  from run_tracker_inv [OF tracker_new_inv assms(1)] obtain ids where inv: "tracker_inv ids ?t" by blast
  from assms(2) obtain ch where k: "map_of (ct_correlation_index ?t) (correlation_key u c) = Some j"
    and ch: "map_of (ct_jobs ?t) j = Some ch"
    by (auto simp: find_by_correlation_def Let_def split: option.splits if_splits)
  with inv obtain c' where "jc_correlation_id ch = Some c'"
    "correlation_key u c = correlation_key (jc_external_user_id ch) c'" by (fastforce simp: tracker_inv_def)
  with correlation_key_inject ch show ?thesis by (fastforce simp: ct_get_def)
qed

theorem correlation_isolated_witness:
  "\<exists>ch. ct_get (run_tracker (tracker_new 3600)
       [TRegister 0 ''j1'' ''d'' ''alice'' (Some ''x''), TRegister 1 ''j2'' ''d'' ''bob'' (Some ''x'')]) ''j1'' = Some ch \<and>
     jc_external_user_id ch = ''alice'' \<and> jc_correlation_id ch = Some ''x''"
  by (rule correlation_isolated [of
      "[TRegister 0 ''j1'' ''d'' ''alice'' (Some ''x''), TRegister 1 ''j2'' ''d'' ''bob'' (Some ''x'')]"
      3600 "''alice''" "''x''"
      "run_tracker (tracker_new 3600)
         [TRegister 0 ''j1'' ''d'' ''alice'' (Some ''x''), TRegister 1 ''j2'' ''d'' ''bob'' (Some ''x'')]"])
    (simp_all add: run_tracker_def tracker_new_def find_by_correlation_def ct_register_def
      prune_completed_access_def Let_def)

text \<open>
  Job creation is idempotent and its end is clean. A registered job is found under its user and
  correlation id by every later lookup while it is live; finalizing it sends the terminal event
  last, makes the lookup fail so that a retry starts a new job, and keeps its owner readable for
  exactly the retention time.
\<close>

theorem register_find_finalize:
  assumes "t1 = ct_register t now j d u (Some c)" and "finalize t1 end_at j e = (t2, evs)"
    and "0 \<le> ct_completed_access_retention t" and "end_at \<le> later"
  shows "find_by_correlation t1 u c = (t1, Some j) \<and> evs = Some [e] \<and>
    ct_get t2 j = None \<and> snd (find_by_correlation t2 u c) = None \<and>
    snd (ct_access t2 later j) =
      (if later - end_at \<le> ct_completed_access_retention t
       then Some \<lparr> ca_device_id = d, ca_external_user_id = u \<rparr> else None)"
proof -
  have ret: "ct_completed_access_retention t1 = ct_completed_access_retention t"
    by (simp add: assms(1) ct_register_def prune_completed_access_def Let_def)
  have none: "map_of (AList.delete j (filter P xs)) j = None" for P and xs :: "(string \<times> ControlJobAccess \<times> int) list"
    by (simp add: delete_conv')
  have acc: "map_of (ct_completed_access t1) j = None"
    by (simp add: assms(1) ct_register_def prune_completed_access_def Let_def none)
  note filt = map_of_filter_update [OF this]
  have find: "find_by_correlation t1 u c = (t1, Some j)"
    by (simp add: assms(1) find_by_correlation_def ct_register_simps AList.update_conv' Let_def)
  have t2: "ct_jobs t2 = AList.delete j (ct_jobs t1)"
    "ct_correlation_index t2 = AList.delete (correlation_key u c) (ct_correlation_index t1)"
    "ct_completed_access t2 = AList.update j (\<lparr> ca_device_id = d, ca_external_user_id = u \<rparr>, end_at) (ct_completed_access t1)"
    "ct_completed_access_retention t2 = ct_completed_access_retention t" "evs = Some [e]"
    using assms(1,2) ret
    by (auto simp: finalize_def Let_def ct_register_simps AList.update_conv' split: if_splits)
  have "snd (ct_access t2 later j) =
      (if later - end_at \<le> ct_completed_access_retention t
       then Some \<lparr> ca_device_id = d, ca_external_user_id = u \<rparr> else None)"
    by (simp add: ct_access_def Let_def t2 delete_conv' prune_completed_access_def filt)
  with find t2 show ?thesis
    by (simp add: ct_get_def find_by_correlation_def delete_conv' Let_def)
qed

theorem register_find_finalize_witness:
  "let t1 = ct_register (tracker_new 10) 0 ''j'' ''d'' ''alice'' (Some ''x'');
       t2 = fst (finalize t1 5 ''j'' (Finished 0 5))
   in snd (find_by_correlation t1 ''alice'' ''x'') = Some ''j'' \<and>
      snd (find_by_correlation t2 ''alice'' ''x'') = None \<and>
      snd (ct_access t2 15 ''j'') = Some \<lparr> ca_device_id = ''d'', ca_external_user_id = ''alice'' \<rparr>"
  using register_find_finalize [OF refl prod.collapse [symmetric],
      of "tracker_new 10" 5 15 0 "''j''" "''d''" "''alice''" "''x''" "Finished 0 5"]
  by (simp add: tracker_new_def)

text \<open>
  The lookup and the registration are separate steps, so two concurrent requests with the same
  user and correlation id that both look up first create two live jobs, of which the index knows
  only the later one.
\<close>

theorem concurrent_create_not_idempotent:
  assumes "find_by_correlation t u c = (t1, None)" and "find_by_correlation t1 u c = (t2, None)" and "j1 \<noteq> j2"
    and "t3 = ct_register (ct_register t2 now j1 d u (Some c)) now' j2 d u (Some c)"
  shows "ct_get t3 j1 \<noteq> None \<and> ct_get t3 j2 \<noteq> None \<and> snd (find_by_correlation t3 u c) = Some j2"
  using assms(3,4)
  by (simp add: ct_get_def find_by_correlation_def ct_register_simps AList.update_conv' Let_def)

theorem concurrent_create_not_idempotent_witness:
  "let t3 = ct_register (ct_register (tracker_new 10) 0 ''j1'' ''d'' ''alice'' (Some ''x'')) 1 ''j2'' ''d'' ''alice'' (Some ''x'')
   in ct_get t3 ''j1'' \<noteq> None \<and> ct_get t3 ''j2'' \<noteq> None \<and> snd (find_by_correlation t3 ''alice'' ''x'') = Some ''j2''"
  using concurrent_create_not_idempotent [of "tracker_new 10" "''alice''" "''x''" "tracker_new 10" "tracker_new 10"
      "''j1''" "''j2''" _ 0 "''d''" 1, OF _ _ _ refl]
  by (simp add: tracker_new_def find_by_correlation_def)

end
