(* ===== verification/Sessions.thy ===== *)
theory Sessions
  imports Prelude "HOL-Library.AList"
begin

text \<open>
  The daemon's session modes (\<^verbatim>\<open>ahandd/src/session.rs\<close>) and its approval queue
  (\<^verbatim>\<open>ahandd/src/approval.rs\<close>): whether a caller's job runs at once, is refused, or waits for the
  user, and how the user's answer finds the waiting task.

  Instants and durations are in milliseconds. An instant lies below \<open>2 ^ 63\<close> seconds and adding a
  duration that leaves this range panics, as \<^verbatim>\<open>Instant + Duration\<close> does; an operation that panics
  returns \<open>None\<close>. The multiplication of the trust timeout by 60 is at 64 bits.
\<close>

section \<open>Definitions\<close>

subsection \<open>Sessions\<close>

datatype SessionMode = Inactive | Strict | Trust | AutoAccept

record RefusalContext =
  rc_tool :: string
  rc_reason :: string
  rc_refused_at_ms :: u64

datatype SessionDecision =
    Allow
  | Deny string
  | NeedsApproval string "RefusalContext list"

record CallerSession =
  cs_mode :: SessionMode
  cs_trust_expires :: "int option"
  cs_trust_timeout_mins :: u64

record RefusalEntry =
  re_tool :: string
  re_reason :: string
  re_expires_at :: int
  re_refused_at_ms :: u64

record SessionManager =
  sm_sessions :: "(string \<times> CallerSession) list"
  sm_refusal_log :: "RefusalEntry list"
  sm_default_trust_timeout_mins :: u64
  sm_default_mode :: SessionMode

record SessionState =
  ss_caller_uid :: string
  ss_mode :: SessionMode
  ss_trust_expires_ms :: u64
  ss_trust_timeout_mins :: u64

definition instant_add_secs :: "int \<Rightarrow> u64 \<Rightarrow> int option" where
  "instant_add_secs now secs =
     (let t = now + 1000 * uint secs in if t < 1000 * 2 ^ 63 then Some t else None)"

definition session_new :: "u64 \<Rightarrow> SessionManager" where
  "session_new default_trust_timeout_mins =
     \<lparr> sm_sessions = [], sm_refusal_log = [],
       sm_default_trust_timeout_mins = default_trust_timeout_mins, sm_default_mode = Inactive \<rparr>"

definition set_default_mode :: "SessionManager \<Rightarrow> SessionMode \<Rightarrow> SessionManager" where
  "set_default_mode sm mode = sm\<lparr>sm_default_mode := mode\<rparr>"

text \<open>The expiry of a session entering a mode: only trust expires.\<close>

definition trust_expiry :: "SessionMode \<Rightarrow> int \<Rightarrow> u64 \<Rightarrow> int option option" where
  "trust_expiry mode now timeout_mins =
     (if mode = Trust then map_option Some (instant_add_secs now (timeout_mins * 60)) else Some None)"

definition register_caller :: "SessionManager \<Rightarrow> int \<Rightarrow> string \<Rightarrow> SessionManager option" where
  "register_caller sm now caller_uid =
     (case map_of (sm_sessions sm) caller_uid of
        Some _ \<Rightarrow> Some sm
      | None \<Rightarrow>
          (case trust_expiry (sm_default_mode sm) now (sm_default_trust_timeout_mins sm) of
             None \<Rightarrow> None
           | Some expires \<Rightarrow>
               Some (sm\<lparr>sm_sessions := AList.update caller_uid
                 \<lparr> cs_mode = sm_default_mode sm, cs_trust_expires = expires,
                   cs_trust_timeout_mins = sm_default_trust_timeout_mins sm \<rparr> (sm_sessions sm)\<rparr>)))"

definition get_refusals :: "SessionManager \<Rightarrow> int \<Rightarrow> string \<Rightarrow> SessionManager \<times> RefusalContext list" where
  "get_refusals sm now tool =
     (let log = filter (\<lambda>e. now < re_expires_at e) (sm_refusal_log sm)
      in (sm\<lparr>sm_refusal_log := log\<rparr>,
          map (\<lambda>e. \<lparr> rc_tool = re_tool e, rc_reason = re_reason e, rc_refused_at_ms = re_refused_at_ms e \<rparr>)
            (filter (\<lambda>e. re_tool e = tool) log)))"

text \<open>\<open>dbg\<close> is the quoted and escaped rendering \<^verbatim>\<open>{:?}\<close> of a string.\<close>

definition check ::
  "(string \<Rightarrow> string) \<Rightarrow> SessionManager \<Rightarrow> int \<Rightarrow> string \<Rightarrow> string \<Rightarrow> (SessionManager \<times> SessionDecision) option" where
  "check dbg sm now tool caller_uid =
     (case map_of (sm_sessions sm) caller_uid of
        None \<Rightarrow> Some (sm, Deny ''session not activated'')
      | Some session \<Rightarrow>
          (case cs_mode session of
             Inactive \<Rightarrow> Some (sm, Deny ''session not activated'')
           | Strict \<Rightarrow>
               (let (sm', refusals) = get_refusals sm now tool
                in Some (sm', NeedsApproval (''strict mode: approval required for '' @ dbg tool) refusals))
           | Trust \<Rightarrow>
               (case cs_trust_expires session of
                  None \<Rightarrow> Some (sm, Allow)
                | Some expires \<Rightarrow>
                    if expires \<le> now
                    then Some (sm\<lparr>sm_sessions := AList.update caller_uid
                                 (session\<lparr>cs_mode := Inactive, cs_trust_expires := None\<rparr>) (sm_sessions sm)\<rparr>,
                               Deny ''trust expired'')
                    else (case instant_add_secs now (cs_trust_timeout_mins session * 60) of
                            None \<Rightarrow> None
                          | Some e \<Rightarrow>
                              Some (sm\<lparr>sm_sessions := AList.update caller_uid
                                      (session\<lparr>cs_trust_expires := Some e\<rparr>) (sm_sessions sm)\<rparr>, Allow)))
           | AutoAccept \<Rightarrow> Some (sm, Allow)))"

definition set_mode ::
  "SessionManager \<Rightarrow> int \<Rightarrow> u64 \<Rightarrow> string \<Rightarrow> SessionMode \<Rightarrow> u64 \<Rightarrow> (SessionManager \<times> SessionState) option" where
  "set_mode sm now now_ms caller_uid mode trust_timeout_mins =
     (let timeout = (if trust_timeout_mins = 0 then sm_default_trust_timeout_mins sm else trust_timeout_mins)
      in case trust_expiry mode now timeout of
           None \<Rightarrow> None
         | Some trust_expires \<Rightarrow>
             (let expires_ms = (case trust_expires of None \<Rightarrow> 0 | Some e \<Rightarrow> now_ms + word_of_int (e - now))
              in Some (sm\<lparr>sm_sessions := AList.update caller_uid
                        \<lparr> cs_mode = mode, cs_trust_expires = trust_expires, cs_trust_timeout_mins = timeout \<rparr>
                        (sm_sessions sm)\<rparr>,
                      \<lparr> ss_caller_uid = caller_uid, ss_mode = mode, ss_trust_expires_ms = expires_ms,
                        ss_trust_timeout_mins = timeout \<rparr>)))"

definition record_refusal :: "SessionManager \<Rightarrow> int \<Rightarrow> u64 \<Rightarrow> string \<Rightarrow> string \<Rightarrow> SessionManager" where
  "record_refusal sm now now_ms tool reason =
     sm\<lparr>sm_refusal_log := sm_refusal_log sm @
        [\<lparr> re_tool = tool, re_reason = reason, re_expires_at = now + 1000 * (24 * 3600), re_refused_at_ms = now_ms \<rparr>]\<rparr>"

definition session_state :: "int \<Rightarrow> u64 \<Rightarrow> string \<Rightarrow> CallerSession \<Rightarrow> SessionState" where
  "session_state now now_ms caller_uid session =
     \<lparr> ss_caller_uid = caller_uid, ss_mode = cs_mode session,
       ss_trust_expires_ms =
         (case cs_trust_expires session of
            None \<Rightarrow> 0
          | Some e \<Rightarrow> if now < e then now_ms + word_of_int (e - now) else 0),
       ss_trust_timeout_mins = cs_trust_timeout_mins session \<rparr>"

definition get_session_state :: "SessionManager \<Rightarrow> int \<Rightarrow> u64 \<Rightarrow> string \<Rightarrow> SessionState" where
  "get_session_state sm now now_ms caller_uid =
     (case map_of (sm_sessions sm) caller_uid of
        Some session \<Rightarrow> session_state now now_ms caller_uid session
      | None \<Rightarrow> \<lparr> ss_caller_uid = caller_uid, ss_mode = Inactive, ss_trust_expires_ms = 0,
                  ss_trust_timeout_mins = sm_default_trust_timeout_mins sm \<rparr>)"

definition query_sessions :: "SessionManager \<Rightarrow> int \<Rightarrow> u64 \<Rightarrow> string \<Rightarrow> SessionState list" where
  "query_sessions sm now now_ms caller_uid =
     (if caller_uid \<noteq> [] then [get_session_state sm now now_ms caller_uid]
      else map (\<lambda>(uid, session). session_state now now_ms uid session) (sm_sessions sm))"

subsection \<open>Approvals\<close>

record JobRequest =
  jr_job_id :: string
  jr_tool :: string
  jr_args :: "string list"
  jr_cwd :: string
  jr_env :: "(string \<times> string) list"
  jr_timeout_ms :: u64
  jr_interactive :: bool

record ApprovalResponse =
  ar_job_id :: string
  ar_approved :: bool
  ar_remember :: bool
  ar_reason :: string

record ApprovalRequest =
  aq_job_id :: string
  aq_tool :: string
  aq_args :: "string list"
  aq_cwd :: string
  aq_reason :: string
  aq_detected_domains :: "string list"
  aq_expires_ms :: u64
  aq_caller_uid :: string
  aq_previous_refusals :: "RefusalContext list"

text \<open>
  A oneshot channel as its waiting task sees it: open, answered, or closed because the sender was
  dropped. \<open>am_channels\<close> holds them all, by the order of their creation.
\<close>

datatype oneshot = Waiting | Answered ApprovalResponse | Closed

record PendingApproval =
  pa_request :: JobRequest
  pa_caller_uid :: string
  pa_approval_request :: ApprovalRequest
  pa_result_tx :: nat

record ApprovalManager =
  am_pending :: "(string \<times> PendingApproval) list"
  am_default_timeout_ms :: nat
  am_channels :: "oneshot list"

definition approval_new :: "u64 \<Rightarrow> ApprovalManager" where
  "approval_new timeout_secs =
     \<lparr> am_pending = [], am_default_timeout_ms = unat timeout_secs * 1000, am_channels = [] \<rparr>"

definition drop_sender :: "ApprovalManager \<Rightarrow> nat \<Rightarrow> ApprovalManager" where
  "drop_sender am ch =
     (if ch < length (am_channels am) \<and> am_channels am ! ch = Waiting
      then am\<lparr>am_channels := (am_channels am)[ch := Closed]\<rparr> else am)"

definition send_answer :: "ApprovalManager \<Rightarrow> nat \<Rightarrow> ApprovalResponse \<Rightarrow> ApprovalManager" where
  "send_answer am ch resp =
     (if ch < length (am_channels am) \<and> am_channels am ! ch = Waiting
      then am\<lparr>am_channels := (am_channels am)[ch := Answered resp]\<rparr> else am)"

text \<open>Inserting over an entry drops the sender of the old one.\<close>

definition submit_with_timeout ::
  "ApprovalManager \<Rightarrow> u64 \<Rightarrow> JobRequest \<Rightarrow> string \<Rightarrow> string \<Rightarrow> RefusalContext list \<Rightarrow> nat \<Rightarrow>
   ApprovalManager \<times> ApprovalRequest \<times> nat" where
  "submit_with_timeout am now_ms req caller_uid reason previous_refusals timeout_ms =
     (let ch = length (am_channels am);
          am = am\<lparr>am_channels := am_channels am @ [Waiting]\<rparr>;
          approval_req = \<lparr> aq_job_id = jr_job_id req, aq_tool = jr_tool req, aq_args = jr_args req,
                           aq_cwd = jr_cwd req, aq_reason = reason, aq_detected_domains = [],
                           aq_expires_ms = now_ms + word_of_nat timeout_ms, aq_caller_uid = caller_uid,
                           aq_previous_refusals = previous_refusals \<rparr>;
          entry = \<lparr> pa_request = req, pa_caller_uid = caller_uid, pa_approval_request = approval_req,
                    pa_result_tx = ch \<rparr>;
          am = (case map_of (am_pending am) (jr_job_id req) of
                  None \<Rightarrow> am
                | Some old \<Rightarrow> drop_sender am (pa_result_tx old))
      in (am\<lparr>am_pending := AList.update (jr_job_id req) entry (am_pending am)\<rparr>, approval_req, ch))"

definition submit ::
  "ApprovalManager \<Rightarrow> u64 \<Rightarrow> JobRequest \<Rightarrow> string \<Rightarrow> string \<Rightarrow> RefusalContext list \<Rightarrow>
   ApprovalManager \<times> ApprovalRequest \<times> nat" where
  "submit am now_ms req caller_uid reason previous_refusals =
     submit_with_timeout am now_ms req caller_uid reason previous_refusals (am_default_timeout_ms am)"

definition resolve_approval :: "ApprovalManager \<Rightarrow> ApprovalResponse \<Rightarrow> ApprovalManager \<times> (JobRequest \<times> string) option" where
  "resolve_approval am response =
     (case map_of (am_pending am) (ar_job_id response) of
        None \<Rightarrow> (am, None)
      | Some entry \<Rightarrow>
          (let am = am\<lparr>am_pending := AList.delete (ar_job_id response) (am_pending am)\<rparr>
           in (send_answer am (pa_result_tx entry) response, Some (pa_request entry, pa_caller_uid entry))))"

definition expire_approval :: "ApprovalManager \<Rightarrow> string \<Rightarrow> ApprovalManager \<times> bool" where
  "expire_approval am job_id =
     (case map_of (am_pending am) job_id of
        None \<Rightarrow> (am, False)
      | Some entry \<Rightarrow>
          (drop_sender (am\<lparr>am_pending := AList.delete job_id (am_pending am)\<rparr>) (pa_result_tx entry), True))"

definition list_pending :: "ApprovalManager \<Rightarrow> ApprovalRequest list" where
  "list_pending am = map (pa_approval_request \<circ> snd) (am_pending am)"

definition apply_approval_response ::
  "ApprovalManager \<Rightarrow> SessionManager \<Rightarrow> int \<Rightarrow> u64 \<Rightarrow> ApprovalResponse \<Rightarrow> ApprovalManager \<times> SessionManager \<times> bool" where
  "apply_approval_response am sm now now_ms resp =
     (if \<not> ar_approved resp \<and> ar_reason resp \<noteq> []
      then (case resolve_approval am resp of
              (am', Some (req, _)) \<Rightarrow> (am', record_refusal sm now now_ms (jr_tool req) (ar_reason resp), True)
            | (am', None) \<Rightarrow> (am', sm, False))
      else (case resolve_approval am resp of (am', r) \<Rightarrow> (am', sm, r \<noteq> None)))"


subsection \<open>Specification: histories\<close>

datatype session_op =
    SCheck int string string
  | SSetMode int u64 string SessionMode u64
  | SRegister int string
  | SDefault SessionMode
  | SRefuse int u64 string string

text \<open>A run yields the decisions taken, each with the caller it was taken for.\<close>

fun run_sessions ::
  "(string \<Rightarrow> string) \<Rightarrow> SessionManager \<Rightarrow> session_op list \<Rightarrow> (SessionManager \<times> (string \<times> SessionDecision) list) option" where
  "run_sessions dbg sm [] = Some (sm, [])"
| "run_sessions dbg sm (SCheck now tool u # ops) =
     (case check dbg sm now tool u of
        None \<Rightarrow> None
      | Some (sm', dec) \<Rightarrow> map_option (\<lambda>(sm'', ds). (sm'', (u, dec) # ds)) (run_sessions dbg sm' ops))"
| "run_sessions dbg sm (SSetMode now now_ms u mode mins # ops) =
     (case set_mode sm now now_ms u mode mins of
        None \<Rightarrow> None
      | Some (sm', _) \<Rightarrow> run_sessions dbg sm' ops)"
| "run_sessions dbg sm (SRegister now u # ops) =
     (case register_caller sm now u of None \<Rightarrow> None | Some sm' \<Rightarrow> run_sessions dbg sm' ops)"
| "run_sessions dbg sm (SDefault mode # ops) = run_sessions dbg (set_default_mode sm mode) ops"
| "run_sessions dbg sm (SRefuse now now_ms tool reason # ops) =
     run_sessions dbg (record_refusal sm now now_ms tool reason) ops"

fun sets_mode_of :: "string \<Rightarrow> session_op \<Rightarrow> bool" where
  "sets_mode_of u (SSetMode _ _ v _ _) = (v = u)"
| "sets_mode_of u _ = False"

definition mode_of :: "SessionManager \<Rightarrow> string \<Rightarrow> SessionMode option" where
  "mode_of sm u = map_option cs_mode (map_of (sm_sessions sm) u)"

text \<open>The instant of an operation, and the refusals a history records.\<close>

fun op_time :: "session_op \<Rightarrow> int option" where
  "op_time (SCheck now _ _) = Some now"
| "op_time (SSetMode now _ _ _ _) = Some now"
| "op_time (SRegister now _) = Some now"
| "op_time (SDefault _) = None"
| "op_time (SRefuse now _ _ _) = Some now"

fun recorded :: "session_op list \<Rightarrow> RefusalEntry list" where
  "recorded [] = []"
| "recorded (SRefuse now now_ms tool reason # ops) =
     \<lparr> re_tool = tool, re_reason = reason, re_expires_at = now + 86400000, re_refused_at_ms = now_ms \<rparr> # recorded ops"
| "recorded (_ # ops) = recorded ops"

datatype approval_op =
    ASubmit u64 JobRequest string string nat
  | AResolve ApprovalResponse
  | AExpire string

fun approval_step :: "ApprovalManager \<Rightarrow> approval_op \<Rightarrow> ApprovalManager" where
  "approval_step am (ASubmit now_ms req u reason timeout) =
     fst (submit_with_timeout am now_ms req u reason [] timeout)"
| "approval_step am (AResolve resp) = fst (resolve_approval am resp)"
| "approval_step am (AExpire j) = fst (expire_approval am j)"

fun submitted :: "approval_op list \<Rightarrow> string list" where
  "submitted [] = []"
| "submitted (ASubmit _ req _ _ _ # ops) = jr_job_id req # submitted ops"
| "submitted (_ # ops) = submitted ops"

text \<open>
  Channel \<open>n\<close> belongs to the \<open>n\<close>-th submission, whose job id is \<open>ids ! n\<close>: it is waiting exactly when
  it is the channel of a pending entry, the entry of that job id, and an answer it has received
  is an answer for that job.
\<close>

definition approval_inv :: "string list \<Rightarrow> ApprovalManager \<Rightarrow> bool" where
  "approval_inv ids am \<longleftrightarrow>
     length (am_channels am) = length ids \<and>
     (\<forall>j e. map_of (am_pending am) j = Some e \<longrightarrow>
        pa_result_tx e < length ids \<and> ids ! pa_result_tx e = j \<and> jr_job_id (pa_request e) = j) \<and>
     (\<forall>n < length ids. am_channels am ! n = Waiting \<longleftrightarrow>
        (\<exists>e. map_of (am_pending am) (ids ! n) = Some e \<and> pa_result_tx e = n)) \<and>
     (\<forall>n < length ids. \<forall>r. am_channels am ! n = Answered r \<longrightarrow> ar_job_id r = ids ! n)"

definition sample_request :: JobRequest where
  "sample_request = \<lparr> jr_job_id = ''j'', jr_tool = ''bash'', jr_args = [], jr_cwd = [],
     jr_env = [], jr_timeout_ms = 0, jr_interactive = False \<rparr>"

section \<open>Lemmas\<close>

subsection \<open>Session modes\<close>

lemma check_other_mode: "check dbg sm now tool u = Some (sm', dec) \<Longrightarrow> v \<noteq> u \<Longrightarrow> mode_of sm' v = mode_of sm v"
  by (auto simp: check_def mode_of_def get_refusals_def Let_def AList.update_conv'
      split: option.splits SessionMode.splits if_splits)

lemma check_inactive:
  "mode_of sm u = Some Inactive \<Longrightarrow> check dbg sm now tool u = Some (sm, Deny ''session not activated'')"
  by (auto simp: check_def mode_of_def)

lemma set_mode_other: "set_mode sm now ms u m t = Some (sm', st) \<Longrightarrow> v \<noteq> u \<Longrightarrow> mode_of sm' v = mode_of sm v"
  by (auto simp: set_mode_def mode_of_def Let_def AList.update_conv' split: option.splits)

lemma register_known: "register_caller sm now u = Some sm' \<Longrightarrow> mode_of sm v = Some m \<Longrightarrow> mode_of sm' v = Some m"
  by (auto simp: register_caller_def mode_of_def AList.update_conv' split: option.splits if_splits)

lemma run_inactive:
  assumes "run_sessions dbg sm ops = Some (sm', ds)" and "mode_of sm u = Some Inactive"
    and "\<not> list_ex (sets_mode_of u) ops"
  shows "\<forall>(v, dec) \<in> set ds. v = u \<longrightarrow> dec = Deny ''session not activated''"
  using assms
proof (induction ops arbitrary: sm ds)
  case (Cons op ops)
  show ?case
  proof (cases op)
    case (SCheck now tool v)
    with Cons.prems(1) obtain sm1 dec ds1 where
      c: "check dbg sm now tool v = Some (sm1, dec)" "run_sessions dbg sm1 ops = Some (sm', ds1)" "ds = (v, dec) # ds1"
      by (auto split: option.splits)
    have "mode_of sm1 u = Some Inactive \<and> (v = u \<longrightarrow> dec = Deny ''session not activated'')"
      using check_inactive [OF Cons.prems(2)] check_other_mode [OF c(1), of u] c(1) Cons.prems(2)
      by (cases "v = u") auto
    with Cons.IH [OF c(2)] Cons.prems(3) c(3) show ?thesis by auto
  next
    case (SSetMode now ms v m t)
    with Cons.prems obtain sm1 st where "set_mode sm now ms v m t = Some (sm1, st)"
      "run_sessions dbg sm1 ops = Some (sm', ds)" by (auto split: option.splits)
    with Cons.IH [of sm1 ds] set_mode_other [of sm now ms v m t sm1 st u] Cons.prems SSetMode show ?thesis by auto
  next
    case (SRegister now v)
    with Cons.prems obtain sm1 where "register_caller sm now v = Some sm1"
      "run_sessions dbg sm1 ops = Some (sm', ds)" by (auto split: option.splits)
    with Cons.IH [of sm1 ds] register_known [of sm now v sm1] Cons.prems show ?thesis by auto
  next
    case (SDefault m)
    with Cons.IH [of "set_default_mode sm m" ds] Cons.prems show ?thesis
      by (simp add: set_default_mode_def mode_of_def)
  next
    case (SRefuse now ms tool reason)
    with Cons.IH [of "record_refusal sm now ms tool reason" ds] Cons.prems show ?thesis
      by (simp add: record_refusal_def mode_of_def)
  qed
qed simp


subsection \<open>The trust window\<close>

lemma uint_times_60: "60 * uint (m :: u64) < 2 ^ 64 \<Longrightarrow> uint (m * 60) = 60 * uint m"
  using uint_mult_lem [of m 60] by simp

lemma trust_checks_window:
  assumes "map_of (sm_sessions sm) u = Some s" and "cs_mode s = Trust" and "cs_trust_timeout_mins s = m"
    and "cs_trust_expires s = Some (t0 + 60000 * uint m)" and "60 * uint m < 2 ^ 64"
    and "run_sessions dbg sm (map (\<lambda>t. SCheck t tool u) ts) = Some (sm', ds)"
    and "\<forall>d \<in> set ds. snd d = Allow"
  shows "\<forall>i < length ts. ts ! i < (t0 # ts) ! i + 60000 * uint m"
  using assms
proof (induction ts arbitrary: sm s t0 ds)
  case (Cons t ts)
  from Cons.prems(6) obtain sm1 dec ds1 where
    c: "check dbg sm t tool u = Some (sm1, dec)" "run_sessions dbg sm1 (map (\<lambda>t. SCheck t tool u) ts) = Some (sm', ds1)"
      "ds = (u, dec) # ds1" by (auto split: option.splits)
  with Cons.prems(7) have dec: "dec = Allow" by simp
  from c(1) dec Cons.prems(1-4) have lt: "t < t0 + 60000 * uint m"
    and sm1: "\<exists>e. instant_add_secs t (m * 60) = Some e \<and> map_of (sm_sessions sm1) u = Some (s\<lparr>cs_trust_expires := Some e\<rparr>)"
    by (auto simp: check_def AList.update_conv' split: if_splits option.splits)
  from sm1 uint_times_60 [OF Cons.prems(5)]
  have "map_of (sm_sessions sm1) u = Some (s\<lparr>cs_trust_expires := Some (t + 60000 * uint m)\<rparr>)"
    by (auto simp: instant_add_secs_def Let_def split: if_splits)
  from Cons.IH [OF this _ _ _ Cons.prems(5) c(2)] Cons.prems(2,3,7) c(3)
  have "\<forall>i < length ts. ts ! i < (t # ts) ! i + 60000 * uint m" by simp
  with lt show ?case by (auto simp: less_Suc_eq_0_disj)
qed simp

subsection \<open>Refusals\<close>

lemma check_log:
  "check dbg sm now tool u = Some (sm', dec) \<Longrightarrow>
   sm_refusal_log sm' = sm_refusal_log sm \<or> sm_refusal_log sm' = filter (\<lambda>e. now < re_expires_at e) (sm_refusal_log sm)"
  by (auto simp: check_def get_refusals_def Let_def split: option.splits SessionMode.splits if_splits)

lemma run_refusals:
  assumes "run_sessions dbg sm ops = Some (sm', ds)" and "\<forall>op \<in> set ops. \<forall>t. op_time op = Some t \<longrightarrow> t \<le> now"
  shows "filter (\<lambda>e. now < re_expires_at e) (sm_refusal_log sm') =
    filter (\<lambda>e. now < re_expires_at e) (sm_refusal_log sm @ recorded ops)"
  using assms
proof (induction ops arbitrary: sm ds)
  case (Cons op ops)
  show ?case
  proof (cases op)
    case (SCheck t tool v)
    with Cons.prems(1) obtain sm1 dec ds1 where
      c: "check dbg sm t tool v = Some (sm1, dec)" "run_sessions dbg sm1 ops = Some (sm', ds1)"
      by (auto split: option.splits)
    from SCheck Cons.prems(2) have "t \<le> now" by simp
    then have "filter (\<lambda>e. now < re_expires_at e) (filter (\<lambda>e. t < re_expires_at e) xs) =
        filter (\<lambda>e. now < re_expires_at e) xs" for xs by (auto intro: filter_cong)
    with check_log [OF c(1)] Cons.IH [OF c(2)] Cons.prems(2) SCheck show ?thesis by auto
  next
    case (SSetMode t ms v m mins)
    with Cons.prems obtain sm1 st where "set_mode sm t ms v m mins = Some (sm1, st)"
      "run_sessions dbg sm1 ops = Some (sm', ds)" by (auto split: option.splits)
    with Cons.IH [of sm1 ds] Cons.prems(2) SSetMode show ?thesis
      by (auto simp: set_mode_def Let_def split: option.splits)
  next
    case (SRegister t v)
    with Cons.prems obtain sm1 where "register_caller sm t v = Some sm1"
      "run_sessions dbg sm1 ops = Some (sm', ds)" by (auto split: option.splits)
    with Cons.IH [of sm1 ds] Cons.prems(2) SRegister show ?thesis
      by (auto simp: register_caller_def split: option.splits)
  qed (use Cons in \<open>auto simp: set_default_mode_def record_refusal_def\<close>)
qed simp

subsection \<open>Approvals\<close>

lemma approval_inv_submit:
  assumes "approval_inv ids am"
  shows "approval_inv (ids @ [jr_job_id req]) (fst (submit_with_timeout am now_ms req u reason rs timeout))"
proof -
  from assms have len: "length (am_channels am) = length ids" by (simp add: approval_inv_def)
  show ?thesis
  proof (cases "map_of (am_pending am) (jr_job_id req)")
    case None
    with assms len show ?thesis
      by (auto simp: approval_inv_def submit_with_timeout_def Let_def AList.update_conv' nth_append less_Suc_eq)
  next
    case (Some old)
    with assms have old: "pa_result_tx old < length ids" "ids ! pa_result_tx old = jr_job_id req"
      "am_channels am ! pa_result_tx old = Waiting" by (auto simp: approval_inv_def)
    moreover from old(1) have "pa_result_tx old \<noteq> length ids" by simp
    ultimately show ?thesis
      using assms len Some
      by (auto simp: approval_inv_def submit_with_timeout_def drop_sender_def Let_def AList.update_conv'
          nth_append less_Suc_eq nth_list_update split: if_splits)
        (metis nat_neq_iff)
  qed
qed

lemma approval_inv_remove:
  assumes "approval_inv ids am" and "map_of (am_pending am) j = Some e"
    and "st = Closed \<or> (\<exists>r. st = Answered r \<and> ar_job_id r = j)"
  shows "approval_inv ids (am\<lparr>am_pending := AList.delete j (am_pending am),
      am_channels := (am_channels am)[pa_result_tx e := st]\<rparr>)"
  using assms by (auto simp: approval_inv_def delete_conv' nth_list_update split: if_splits)

lemma approval_inv_step:
  assumes "approval_inv ids am"
  shows "approval_inv (ids @ submitted [op]) (approval_step am op)"
proof (cases op)
  case (ASubmit now_ms req u reason timeout)
  with approval_inv_submit [OF assms] show ?thesis by simp
next
  case (AResolve resp)
  show ?thesis
  proof (cases "map_of (am_pending am) (ar_job_id resp)")
    case (Some e)
    with assms have "pa_result_tx e < length (am_channels am)" "am_channels am ! pa_result_tx e = Waiting"
      by (auto simp: approval_inv_def)
    with approval_inv_remove [OF assms Some, of "Answered resp"] AResolve Some show ?thesis
      by (simp add: resolve_approval_def send_answer_def Let_def)
  qed (use assms AResolve in \<open>simp add: resolve_approval_def\<close>)
next
  case (AExpire j)
  show ?thesis
  proof (cases "map_of (am_pending am) j")
    case (Some e)
    with assms have "pa_result_tx e < length (am_channels am)" "am_channels am ! pa_result_tx e = Waiting"
      by (auto simp: approval_inv_def)
    with approval_inv_remove [OF assms Some, of Closed] AExpire Some show ?thesis
      by (simp add: expire_approval_def drop_sender_def)
  qed (use assms AExpire in \<open>simp add: expire_approval_def\<close>)
qed

lemma approval_inv_run: "approval_inv ids am \<Longrightarrow> approval_inv (ids @ submitted ops) (fold (\<lambda>op am. approval_step am op) ops am)"
proof (induction ops arbitrary: ids am)
  case (Cons op ops)
  have "submitted (op # ops) = submitted [op] @ submitted ops" by (cases op) auto
  with Cons.IH [OF approval_inv_step [OF Cons.prems]] show ?case by simp
qed simp

section \<open>Properties\<close>

text \<open>
  C16. No escalation. A caller whose session is inactive is refused by every check, until somebody sets
  that caller's mode: registering again, changing the default mode, other callers' activity and
  the passing of time do not let it in.
\<close>

theorem inactive_stays_denied:
  assumes "run_sessions dbg sm ops = Some (sm', ds)" and "mode_of sm u = Some Inactive"
    and "\<not> list_ex (sets_mode_of u) ops"
  shows "\<forall>(v, dec) \<in> set ds. v = u \<longrightarrow> dec = Deny ''session not activated''"
  using assms by (rule run_inactive)

theorem inactive_stays_denied_witness:
  "case run_sessions id (session_new 5) [SRegister 0 ''u''] of
     None \<Rightarrow> False
   | Some (sm, _) \<Rightarrow>
       map_option snd (run_sessions id sm [SDefault AutoAccept, SRegister 1 ''u'', SCheck 2 ''bash'' ''u''])
         = Some [(''u'', Deny ''session not activated'')]"
  using inactive_stays_denied [of id _ "[SDefault AutoAccept, SRegister 1 ''u'', SCheck 2 ''bash'' ''u'']" _ _ "''u''"]
  by (simp add: session_new_def register_caller_def trust_expiry_def set_default_mode_def check_def mode_of_def)

text \<open>
  Trust is a sliding window. If a caller is given trust for \<open>m\<close> minutes at \<open>t0\<close> and all its later
  checks are allowed, each of them came less than \<open>m\<close> minutes after the one before it.
\<close>

theorem trust_sliding_window:
  assumes "set_mode sm t0 now_ms u Trust m = Some (sm0, st)" and "m \<noteq> 0" and "60 * uint m < 2 ^ 64"
    and "run_sessions dbg sm0 (map (\<lambda>t. SCheck t tool u) ts) = Some (sm', ds)"
    and "\<forall>d \<in> set ds. snd d = Allow"
  shows "\<forall>i < length ts. ts ! i < (t0 # ts) ! i + 60000 * uint m"
proof -
  from assms(1,2) uint_times_60 [OF assms(3)] have
    "map_of (sm_sessions sm0) u = Some \<lparr> cs_mode = Trust, cs_trust_expires = Some (t0 + 60000 * uint m),
       cs_trust_timeout_mins = m \<rparr>"
    by (auto simp: set_mode_def trust_expiry_def instant_add_secs_def Let_def AList.update_conv' split: if_splits)
  from trust_checks_window [OF this _ _ _ assms(3-5)] show ?thesis by simp
qed

theorem trust_sliding_window_witness:
  "case set_mode (session_new 5) 0 0 ''u'' Trust 10 of
     None \<Rightarrow> False
   | Some (sm0, _) \<Rightarrow>
       map_option (map snd \<circ> snd) (run_sessions id sm0 (map (\<lambda>t. SCheck t ''bash'' ''u'') [500000, 1000000])) = Some [Allow, Allow] \<and>
       (\<forall>i < length [500000, 1000000]. [500000, 1000000] ! i < (0 # [500000, 1000000]) ! i + 60000 * uint (10 :: u64))"
  using trust_sliding_window [of "session_new 5" 0 0 "''u''" 10 _ _ id "''bash''" "[500000, 1000000]"]
  by (simp add: session_new_def set_mode_def trust_expiry_def instant_add_secs_def check_def Let_def)

text \<open>
  A refusal is shown for 24 hours and not longer. Whatever was checked and pruned in between, the
  refusals returned for a tool are the recorded ones for that tool that are less than 24 hours
  old, in the order they were recorded.
\<close>

theorem refusals_kept_24h:
  assumes "run_sessions dbg (session_new mins) ops = Some (sm, ds)"
    and "\<forall>op \<in> set ops. \<forall>t. op_time op = Some t \<longrightarrow> t \<le> now"
  shows "snd (get_refusals sm now tool) =
    map (\<lambda>e. \<lparr> rc_tool = re_tool e, rc_reason = re_reason e, rc_refused_at_ms = re_refused_at_ms e \<rparr>)
      (filter (\<lambda>e. now < re_expires_at e \<and> re_tool e = tool) (recorded ops))"
proof -
  have "filter (\<lambda>e. now < re_expires_at e) (sm_refusal_log sm) = filter (\<lambda>e. now < re_expires_at e) (recorded ops)"
    using run_refusals [OF assms] by (simp add: session_new_def)
  then have "filter (\<lambda>e. re_tool e = tool) (filter (\<lambda>e. now < re_expires_at e) (sm_refusal_log sm)) =
      filter (\<lambda>e. re_tool e = tool) (filter (\<lambda>e. now < re_expires_at e) (recorded ops))" by simp
  then show ?thesis by (simp add: get_refusals_def Let_def)
qed

theorem refusals_kept_24h_witness:
  "case run_sessions id (session_new 5) [SRefuse 0 1 ''bash'' ''no'', SRefuse 50000000 2 ''bash'' ''never'',
      SSetMode 60000000 0 ''u'' Strict 0, SCheck 60000000 ''bash'' ''u''] of
     None \<Rightarrow> False
   | Some (sm, _) \<Rightarrow> map rc_reason (snd (get_refusals sm 90000000 ''bash'')) = [''never'']"
  using refusals_kept_24h [of id 5 "[SRefuse 0 1 ''bash'' ''no'', SRefuse 50000000 2 ''bash'' ''never'',
      SSetMode 60000000 0 ''u'' Strict 0, SCheck 60000000 ''bash'' ''u'']" _ _ 90000000 "''bash''"]
  by (simp add: session_new_def record_refusal_def set_mode_def trust_expiry_def check_def get_refusals_def Let_def)

text \<open>
  No approval is orphaned or misdelivered. After any sequence of submissions, answers and
  expirations, a task still waiting is the one the pending entry of its own job id will answer,
  and a task that received an answer received one for its job.
\<close>

theorem approvals_not_orphaned:
  assumes "am = fold (\<lambda>op am. approval_step am op) ops (approval_new timeout_secs)"
    and "n < length (submitted ops)"
  shows "length (am_channels am) = length (submitted ops) \<and>
    (case am_channels am ! n of
       Waiting \<Rightarrow> \<exists>e. map_of (am_pending am) (submitted ops ! n) = Some e \<and> pa_result_tx e = n
     | Answered r \<Rightarrow> ar_job_id r = submitted ops ! n
     | Closed \<Rightarrow> True)"
proof -
  have "approval_inv [] (approval_new timeout_secs)" by (simp add: approval_inv_def approval_new_def)
  from approval_inv_run [OF this, of ops] assms show ?thesis
    by (auto simp: approval_inv_def split: oneshot.split)
qed

theorem approvals_not_orphaned_witness:
  "let am = fold (\<lambda>op am. approval_step am op)
         [ASubmit 0 sample_request ''u'' ''r'' 5, ASubmit 1 sample_request ''u'' ''r'' 5] (approval_new 60)
   in am_channels am = [Closed, Waiting] \<and>
      (\<exists>e. map_of (am_pending am) ''j'' = Some e \<and> pa_result_tx e = 1)"
  using approvals_not_orphaned [OF refl, of 1
      "[ASubmit 0 sample_request ''u'' ''r'' 5, ASubmit 1 sample_request ''u'' ''r'' 5]" 60]
  by (simp add: sample_request_def approval_new_def submit_with_timeout_def drop_sender_def Let_def)

text \<open>
  An answer counts once. Applying an answer to a pending job succeeds, hands it to the waiting
  task, and records a refusal exactly if it is a denial with a reason; applying any answer for
  the same job again changes nothing and reports failure.
\<close>

theorem answer_counts_once:
  assumes "am = fold (\<lambda>op am. approval_step am op) ops (approval_new timeout_secs)"
    and "submit am now_ms req u reason rs = (am1, aq, ch)"
    and "ar_job_id resp = jr_job_id req" and "ar_job_id resp' = jr_job_id req"
    and "apply_approval_response am1 sm now now_ms' resp = (am2, sm2, ok)"
  shows "ok \<and> am_channels am2 ! ch = Answered resp \<and>
    sm2 = (if \<not> ar_approved resp \<and> ar_reason resp \<noteq> []
           then record_refusal sm now now_ms' (jr_tool req) (ar_reason resp) else sm) \<and>
    apply_approval_response am2 sm2 now' now_ms'' resp' = (am2, sm2, False)"
proof -
  have "approval_inv [] (approval_new timeout_secs)" by (simp add: approval_inv_def approval_new_def)
  from approval_inv_run [OF this, of ops] assms(1) have
    "\<And>j e. map_of (am_pending am) j = Some e \<Longrightarrow> pa_result_tx e < length (am_channels am)"
    by (auto simp: approval_inv_def)
  with assms(2) have e: "\<exists>e. map_of (am_pending am1) (jr_job_id req) = Some e \<and> pa_request e = req \<and> pa_result_tx e = ch"
    and ch: "ch < length (am_channels am1)" "am_channels am1 ! ch = Waiting"
    by (fastforce simp: submit_def submit_with_timeout_def drop_sender_def Let_def AList.update_conv' nth_append
        split: option.splits if_splits)+
  then have r: "\<exists>c. resolve_approval am1 resp = (am1\<lparr>am_pending := AList.delete (jr_job_id req) (am_pending am1),
      am_channels := (am_channels am1)[ch := Answered resp]\<rparr>, Some (req, c))"
    using assms(3) by (auto simp: resolve_approval_def send_answer_def Let_def)
  with assms(5) have am2: "am2 = am1\<lparr>am_pending := AList.delete (jr_job_id req) (am_pending am1),
      am_channels := (am_channels am1)[ch := Answered resp]\<rparr>" and "ok"
    and "sm2 = (if \<not> ar_approved resp \<and> ar_reason resp \<noteq> []
           then record_refusal sm now now_ms' (jr_tool req) (ar_reason resp) else sm)"
    by (auto simp: apply_approval_response_def split: if_splits)
  moreover have "apply_approval_response am2 sm2 now' now_ms'' resp' = (am2, sm2, False)"
    by (simp add: am2 apply_approval_response_def resolve_approval_def assms(4) delete_conv')
  ultimately show ?thesis using ch by simp
qed

theorem answer_counts_once_witness:
  "let (am1, _, ch) = submit (approval_new 60) 0 sample_request ''u'' ''r'' [];
       resp = \<lparr> ar_job_id = ''j'', ar_approved = False, ar_remember = False, ar_reason = ''no'' \<rparr>;
       (am2, sm2, ok) = apply_approval_response am1 (session_new 5) 7 8 resp
   in ok \<and> am_channels am2 ! ch = Answered resp \<and> map re_reason (sm_refusal_log sm2) = [''no''] \<and>
      apply_approval_response am2 sm2 9 9 resp = (am2, sm2, False)"
  using answer_counts_once [of "approval_new 60" "[]" 60 0 sample_request "''u''" "''r''" "[]" _ _ _
      "\<lparr> ar_job_id = ''j'', ar_approved = False, ar_remember = False, ar_reason = ''no'' \<rparr>"
      "\<lparr> ar_job_id = ''j'', ar_approved = False, ar_remember = False, ar_reason = ''no'' \<rparr>" "session_new 5" 7 8 _ _ _ 9 9]
  by (simp add: sample_request_def approval_new_def session_new_def record_refusal_def split: prod.splits)
    fastforce

text \<open>
  The timeout is multiplied at 64 bits: a caller given trust for \<open>2 ^ 62\<close> (that is, 4611686018427387904)
  minutes has it expire at once.
\<close>

theorem huge_trust_timeout_wraps:
  assumes "t0 < 1000 * 2 ^ 63"
  shows "\<exists>sm0 st. set_mode sm t0 now_ms u Trust 4611686018427387904 = Some (sm0, st) \<and>
    map_option snd (check dbg sm0 t0 tool u) = Some (Deny ''trust expired'')"
  using assms
  by (auto simp: set_mode_def trust_expiry_def instant_add_secs_def check_def AList.update_conv' Let_def)

theorem huge_trust_timeout_wraps_witness:
  "\<exists>sm0 st. set_mode (session_new 5) 0 0 ''u'' Trust 4611686018427387904 = Some (sm0, st) \<and>
    map_option snd (check id sm0 0 ''bash'' ''u'') = Some (Deny ''trust expired'')"
  by (rule huge_trust_timeout_wraps) simp

end
