(* ===== verification/Tool_Policy.thy ===== *)
theory Tool_Policy
  imports Sessions "HOL-Library.Sublist"
begin

text \<open>
  The daemon's tool policy (\<^verbatim>\<open>ahandd/src/policy.rs\<close>): deny lists, allow lists, the approvals a user
  has given during the session, and the heuristic that finds the domains a network tool would
  contact.

  \<open>url_host\<close> stands for \<^verbatim>\<open>Url::parse(s).ok()?.host_str()\<close> of the url crate, \<open>dbg\<close> for \<^verbatim>\<open>{:?}\<close> of a string
  or of a string slice.
\<close>

section \<open>Definitions\<close>

datatype PolicyDecision =
    PolicyAllow
  | PolicyDeny string
  | PolicyNeedsApproval string "string list"

record PolicyConfig =
  pc_allowed_tools :: "string list"
  pc_denied_tools :: "string list"
  pc_denied_paths :: "string list"
  pc_allowed_domains :: "string list"
  pc_approval_timeout_secs :: u64

record PolicyChecker =
  po_config :: PolicyConfig
  po_session_approvals :: "(string \<times> string set) list"

record PolicyUpdate =
  pu_add_allowed_tools :: "string list"
  pu_remove_allowed_tools :: "string list"
  pu_add_denied_tools :: "string list"
  pu_remove_denied_tools :: "string list"
  pu_add_denied_paths :: "string list"
  pu_remove_denied_paths :: "string list"
  pu_add_allowed_domains :: "string list"
  pu_remove_allowed_domains :: "string list"
  pu_approval_timeout_secs :: u64

definition policy_new :: "PolicyConfig \<Rightarrow> PolicyChecker" where
  "policy_new config = \<lparr> po_config = config, po_session_approvals = [] \<rparr>"

subsection \<open>Domains in arguments\<close>

definition NETWORK_TOOLS :: "string list" where
  "NETWORK_TOOLS = [''curl'', ''wget'', ''git'', ''ssh'', ''scp'', ''rsync'', ''sftp'', ''nc'', ''ncat'', ''nmap'',
     ''ping'', ''dig'', ''nslookup'', ''http'', ''https'', ''fetch'']"

text \<open>\<^verbatim>\<open>s.rsplit(c).next()\<close> and \<^verbatim>\<open>s.split(c).next()\<close>.\<close>

definition after_last :: "char \<Rightarrow> string \<Rightarrow> string" where
  "after_last c s = rev (takeWhile (\<lambda>x. x \<noteq> c) (rev s))"

definition before_first :: "char \<Rightarrow> string \<Rightarrow> string" where
  "before_first c s = takeWhile (\<lambda>x. x \<noteq> c) s"

definition try_extract_ssh_host :: "string \<Rightarrow> string option" where
  "try_extract_ssh_host s =
     (if CHR ''@'' \<in> set s
      then (let after_at = tl (dropWhile (\<lambda>x. x \<noteq> CHR ''@'') s);
                host = before_first (CHR '':'') after_at
            in if host \<noteq> [] \<and> CHR ''.'' \<in> set host then Some host else None)
      else None)"

definition push_new :: "string list \<Rightarrow> string \<Rightarrow> string list" where
  "push_new xs x = (if x \<in> set xs then xs else xs @ [x])"

definition BARE_HOST_TOOLS :: "string list" where
  "BARE_HOST_TOOLS = [''ssh'', ''ping'', ''dig'', ''nslookup'', ''nc'', ''ncat'']"

fun extract_from_args :: "(string \<Rightarrow> string option) \<Rightarrow> string \<Rightarrow> string list \<Rightarrow> string list \<Rightarrow> string list" where
  "extract_from_args url_host base [] domains = domains"
| "extract_from_args url_host base (arg # args) domains =
     (if prefix ''-'' arg then extract_from_args url_host base args domains
      else (case url_host arg of
          Some host \<Rightarrow> extract_from_args url_host base args (push_new domains host)
        | None \<Rightarrow>
            (case try_extract_ssh_host arg of
               Some host \<Rightarrow> extract_from_args url_host base args (push_new domains host)
             | None \<Rightarrow>
                 if base \<in> set BARE_HOST_TOOLS \<and> CHR ''/'' \<notin> set arg \<and> CHR ''.'' \<in> set arg
                 then extract_from_args url_host base args (push_new domains (before_first (CHR '':'') arg))
                 else extract_from_args url_host base args domains)))"

definition extract_domains :: "(string \<Rightarrow> string option) \<Rightarrow> string \<Rightarrow> string list \<Rightarrow> string list" where
  "extract_domains url_host tool args =
     (let base = after_last (CHR ''/'') tool
      in if base \<notin> set NETWORK_TOOLS then [] else extract_from_args url_host base args [])"

subsection \<open>The check\<close>

definition approvals_of :: "PolicyChecker \<Rightarrow> string \<Rightarrow> string set" where
  "approvals_of pc u = (case map_of (po_session_approvals pc) u of None \<Rightarrow> {} | Some approvals \<Rightarrow> approvals)"

fun join_comma :: "string list \<Rightarrow> string" where
  "join_comma [] = []"
| "join_comma [s] = s"
| "join_comma (s # ss) = s @ '', '' @ join_comma ss"

definition policy_check ::
  "(string \<Rightarrow> string option) \<Rightarrow> (string \<Rightarrow> string) \<Rightarrow> PolicyChecker \<Rightarrow> JobRequest \<Rightarrow> string \<Rightarrow> PolicyDecision" where
  "policy_check url_host dbg pc req caller_uid =
     (let cfg = po_config pc
      in if jr_tool req \<in> set (pc_denied_tools cfg)
         then PolicyDeny (''tool '' @ dbg (jr_tool req) @ '' is in the deny list'')
         else if jr_cwd req \<noteq> [] \<and> list_ex (\<lambda>denied. prefix denied (jr_cwd req)) (pc_denied_paths cfg)
         then PolicyDeny (''working directory '' @ dbg (jr_cwd req) @ '' is denied by policy'')
         else
           (let detected_domains = extract_domains url_host (jr_tool req) (jr_args req);
                approvals = approvals_of pc caller_uid;
                tool_remembered = (''tool:'' @ jr_tool req \<in> approvals);
                remembered_domains = filter (\<lambda>d. ''domain:'' @ d \<in> approvals) detected_domains;
                tool_allowed = (pc_allowed_tools cfg = [] \<or> jr_tool req \<in> set (pc_allowed_tools cfg) \<or> tool_remembered)
            in if \<not> tool_allowed
               then PolicyNeedsApproval (''tool '' @ dbg (jr_tool req) @ '' is not in the allow list'') detected_domains
               else
                 (let unapproved = filter (\<lambda>d. d \<notin> set (pc_allowed_domains cfg) \<and> d \<notin> set remembered_domains) detected_domains
                  in if detected_domains \<noteq> [] \<and> pc_allowed_domains cfg \<noteq> [] \<and> unapproved \<noteq> []
                     then PolicyNeedsApproval (''domain(s) '' @ join_comma unapproved @ '' not in allowed domains'')
                            detected_domains
                     else PolicyAllow)))"

subsection \<open>Changing the policy\<close>

definition remember_approval :: "PolicyChecker \<Rightarrow> string \<Rightarrow> string \<Rightarrow> string list \<Rightarrow> PolicyChecker" where
  "remember_approval pc caller_uid tool domains =
     pc\<lparr>po_session_approvals := AList.update caller_uid
        (set (map (\<lambda>d. ''domain:'' @ d) domains) \<union> insert (''tool:'' @ tool) (approvals_of pc caller_uid))
        (po_session_approvals pc)\<rparr>"

definition apply_list_update :: "string list \<Rightarrow> string list \<Rightarrow> string list \<Rightarrow> string list" where
  "apply_list_update xs add rm = fold (\<lambda>x xs. push_new xs x) add (filter (\<lambda>x. x \<notin> set rm) xs)"

definition apply_update :: "PolicyChecker \<Rightarrow> PolicyUpdate \<Rightarrow> PolicyChecker" where
  "apply_update pc u =
     (let cfg = po_config pc;
          cfg = cfg\<lparr>pc_allowed_tools := apply_list_update (pc_allowed_tools cfg) (pu_add_allowed_tools u) (pu_remove_allowed_tools u)\<rparr>;
          cfg = cfg\<lparr>pc_denied_tools := apply_list_update (pc_denied_tools cfg) (pu_add_denied_tools u) (pu_remove_denied_tools u)\<rparr>;
          cfg = cfg\<lparr>pc_denied_paths := apply_list_update (pc_denied_paths cfg) (pu_add_denied_paths u) (pu_remove_denied_paths u)\<rparr>;
          cfg = cfg\<lparr>pc_allowed_domains := apply_list_update (pc_allowed_domains cfg) (pu_add_allowed_domains u) (pu_remove_allowed_domains u)\<rparr>;
          cfg = (if pu_approval_timeout_secs u > 0 then cfg\<lparr>pc_approval_timeout_secs := pu_approval_timeout_secs u\<rparr> else cfg)
      in pc\<lparr>po_config := cfg\<rparr>)"

section \<open>Lemmas\<close>

lemma set_push_new [simp]: "set (push_new xs x) = insert x (set xs)"
  by (auto simp: push_new_def)

lemma distinct_push_new: "distinct xs \<Longrightarrow> distinct (push_new xs x)"
  by (simp add: push_new_def)

lemma set_fold_push_new: "set (fold (\<lambda>x xs. push_new xs x) add xs) = set xs \<union> set add"
  by (induction add arbitrary: xs) auto

lemma distinct_fold_push_new: "distinct xs \<Longrightarrow> distinct (fold (\<lambda>x xs. push_new xs x) add xs)"
  by (induction add arbitrary: xs) (auto simp: distinct_push_new)

lemma set_apply_list_update: "set (apply_list_update xs add rm) = (set xs - set rm) \<union> set add"
  by (auto simp: apply_list_update_def set_fold_push_new)

lemma distinct_extract_from_args:
  "distinct domains \<Longrightarrow> distinct (extract_from_args url_host base args domains)"
  by (induction url_host base args domains rule: extract_from_args.induct)
    (auto simp: distinct_push_new split: option.splits)

lemma approvals_remember [simp]:
  "approvals_of (remember_approval pc u tool domains) v =
     (if v = u then (\<lambda>d. ''domain:'' @ d) ` set domains \<union> insert (''tool:'' @ tool) (approvals_of pc u)
      else approvals_of pc v)"
  by (simp add: approvals_of_def remember_approval_def AList.update_conv')

lemma config_remember [simp]: "po_config (remember_approval pc u tool domains) = po_config pc"
  by (simp add: remember_approval_def)

section \<open>Properties\<close>



text \<open>
  A remembered approval settles the request it was given for, and only for that caller. The same
  request of the same caller is not asked about again: it is allowed unless a deny list hits it.
  The decision for any other caller is unchanged, and deny lists keep their force.
\<close>

theorem remembered_approval_effect:
  assumes "pc' = remember_approval pc u (jr_tool req) (extract_domains url_host (jr_tool req) (jr_args req))"
  shows "policy_check url_host dbg pc' req u =
      (case policy_check url_host dbg pc req u of PolicyNeedsApproval _ _ \<Rightarrow> PolicyAllow | dec \<Rightarrow> dec) \<and>
    (v \<noteq> u \<longrightarrow> policy_check url_host dbg pc' req' v = policy_check url_host dbg pc req' v)"
  using assms by (auto simp: policy_check_def Let_def filter_empty_conv)

theorem remembered_approval_effect_witness:
  "let pc = policy_new \<lparr> pc_allowed_tools = [''ls''], pc_denied_tools = [], pc_denied_paths = [],
         pc_allowed_domains = [], pc_approval_timeout_secs = 60 \<rparr>;
       req = \<lparr> jr_job_id = ''j'', jr_tool = ''bash'', jr_args = [], jr_cwd = [],
         jr_env = [], jr_timeout_ms = 0, jr_interactive = False \<rparr>
   in policy_check (\<lambda>_. None) id (remember_approval pc ''u'' ''bash'' []) req ''u'' = PolicyAllow \<and>
      policy_check (\<lambda>_. None) id (remember_approval pc ''u'' ''bash'' []) req ''w'' = policy_check (\<lambda>_. None) id pc req ''w''"
  using remembered_approval_effect [of _
      "policy_new \<lparr> pc_allowed_tools = [''ls''], pc_denied_tools = [], pc_denied_paths = [],
         pc_allowed_domains = [], pc_approval_timeout_secs = 60 \<rparr>" "''u''"
      "\<lparr> jr_job_id = ''j'', jr_tool = ''bash'', jr_args = [], jr_cwd = [],
         jr_env = [], jr_timeout_ms = 0, jr_interactive = False \<rparr>" "\<lambda>_. None", OF refl, of id "''w''"
      "\<lparr> jr_job_id = ''j'', jr_tool = ''bash'', jr_args = [], jr_cwd = [],
         jr_env = [], jr_timeout_ms = 0, jr_interactive = False \<rparr>"]
  by (simp add: policy_new_def extract_domains_def after_last_def NETWORK_TOOLS_def policy_check_def approvals_of_def)

end
