(* ===== verification/Job_Registries.thy ===== *)
theory Job_Registries
  imports Prelude "HOL-Library.AList" "HOL-Library.List_Lexorder" "HOL-Library.Char_ord"
begin

text \<open>
  The daemon's registries: running and completed jobs (\<^verbatim>\<open>ahandd/src/registry.rs\<close>) and app tools with
  their calls (\<^verbatim>\<open>ahandd/src/app_tool_registry/mod.rs\<close>). Both keep a bounded queue of completed
  results so that a repeated request is answered from it; the locale \<open>completed_cache\<close> states what
  that queue promises and is interpreted on both.

  \<open>JobRegistry::cancel\<close> awaits a bounded channel while it holds the registry's mutex, so the last part
  models the read loop, the job tasks, the mutex, the permits and the channels as a transition
  system.
\<close>

section \<open>Definitions\<close>

subsection \<open>The job registry\<close>

record CompletedJob =
  cj_exit_code :: int
  cj_error :: string

datatype IsKnown = KnownRunning | KnownCompleted CompletedJob | Unknown

text \<open>
  A running job is identified with its task; the cancel and stdin channels are the messages sent
  on them. Permits are counted in the transition system below.
\<close>

record 'i JobRegistry =
  jg_jobs :: "(string \<times> nat) list"
  jg_stdin_senders :: "(string \<times> 'i list) list"
  jg_completed :: "(string \<times> CompletedJob) list"
  jg_max_completed :: nat

definition registry_new :: "'i JobRegistry" where
  "registry_new = \<lparr> jg_jobs = [], jg_stdin_senders = [], jg_completed = [], jg_max_completed = 1000 \<rparr>"

definition register_job :: "'i JobRegistry \<Rightarrow> string \<Rightarrow> nat \<Rightarrow> 'i JobRegistry" where
  "register_job rg job_id task = rg\<lparr>jg_jobs := AList.update job_id task (jg_jobs rg)\<rparr>"

definition register_interactive :: "'i JobRegistry \<Rightarrow> string \<Rightarrow> nat \<Rightarrow> 'i JobRegistry" where
  "register_interactive rg job_id task =
     rg\<lparr>jg_jobs := AList.update job_id task (jg_jobs rg),
        jg_stdin_senders := AList.update job_id [] (jg_stdin_senders rg)\<rparr>"

definition send_stdin :: "'i JobRegistry \<Rightarrow> string \<Rightarrow> 'i \<Rightarrow> 'i JobRegistry \<times> bool" where
  "send_stdin rg job_id input =
     (case map_of (jg_stdin_senders rg) job_id of
        None \<Rightarrow> (rg, False)
      | Some q \<Rightarrow> (rg\<lparr>jg_stdin_senders := AList.update job_id (q @ [input]) (jg_stdin_senders rg)\<rparr>, True))"

definition remove_job :: "'i JobRegistry \<Rightarrow> string \<Rightarrow> 'i JobRegistry" where
  "remove_job rg job_id =
     rg\<lparr>jg_jobs := AList.delete job_id (jg_jobs rg), jg_stdin_senders := AList.delete job_id (jg_stdin_senders rg)\<rparr>"

definition is_known :: "'i JobRegistry \<Rightarrow> string \<Rightarrow> IsKnown" where
  "is_known rg job_id =
     (if map_of (jg_jobs rg) job_id \<noteq> None then KnownRunning
      else (case map_of (jg_completed rg) job_id of
              Some result \<Rightarrow> KnownCompleted result
            | None \<Rightarrow> Unknown))"

definition mark_job_completed :: "'i JobRegistry \<Rightarrow> string \<Rightarrow> int \<Rightarrow> string \<Rightarrow> 'i JobRegistry" where
  "mark_job_completed rg job_id exit_code err =
     rg\<lparr>jg_completed := evict (jg_max_completed rg)
        (jg_completed rg @ [(job_id, \<lparr> cj_exit_code = exit_code, cj_error = err \<rparr>)])\<rparr>"

definition active_count :: "'i JobRegistry \<Rightarrow> nat" where
  "active_count rg = length (jg_jobs rg)"

subsection \<open>The app tool registry\<close>

definition DEFAULT_TIMEOUT_MS :: nat where "DEFAULT_TIMEOUT_MS = 60000"
definition MIN_TIMEOUT_MS :: nat where "MIN_TIMEOUT_MS = 1000"
definition MAX_TIMEOUT_MS :: nat where "MAX_TIMEOUT_MS = 300000"
definition MAX_CONCURRENT_APP_TOOLS :: nat where "MAX_CONCURRENT_APP_TOOLS = 4"
definition MAX_COMPLETED_CALLS :: nat where "MAX_COMPLETED_CALLS = 256"

record AppToolError =
  te_code :: string
  te_message :: string

record CompletedAppToolCall =
  tc_result_json :: "string option"
  tc_error :: "AppToolError option"

datatype CallState = CallRunning | CallCompleted CompletedAppToolCall | CallUnknown

record AppToolDescriptor =
  td_name :: string
  td_description :: string
  td_input_schema_json :: string
  td_requires_approval :: bool

text \<open>
  A tool definition carries its schema already rendered, and whether it is a JSON object; a handler
  is an opaque value. The revision counter is the value of its watch channel.
\<close>

record AppToolDef =
  ad_name :: string
  ad_description :: string
  ad_schema_json :: string
  ad_schema_is_object :: bool
  ad_requires_approval :: bool

record 'h AppToolRegistry =
  tr_tools :: "(string \<times> (AppToolDescriptor \<times> 'h)) list"
  tr_revision :: u64
  tr_permits :: nat
  tr_running :: "string set"
  tr_completed :: "(string \<times> CompletedAppToolCall) list"

definition tool_registry_new :: "'h AppToolRegistry" where
  "tool_registry_new =
     \<lparr> tr_tools = [], tr_revision = 0, tr_permits = MAX_CONCURRENT_APP_TOOLS, tr_running = {}, tr_completed = [] \<rparr>"

definition valid_char :: "char \<Rightarrow> bool" where
  "valid_char c \<longleftrightarrow> (CHR ''a'' \<le> c \<and> c \<le> CHR ''z'') \<or> (CHR ''0'' \<le> c \<and> c \<le> CHR ''9'') \<or> c = CHR ''_'' \<or> c = CHR ''-''"

definition valid_name :: "string \<Rightarrow> bool" where
  "valid_name name \<longleftrightarrow> name \<noteq> [] \<and> length name \<le> 64 \<and> list_all valid_char name"

datatype RegisterError = InvalidName string | SchemaNotObject string | AlreadyRegistered string

definition register_tool :: "'h AppToolRegistry \<Rightarrow> AppToolDef \<Rightarrow> 'h \<Rightarrow> 'h AppToolRegistry \<times> (RegisterError + unit)" where
  "register_tool rg def handler =
     (if \<not> valid_name (ad_name def) then (rg, Inl (InvalidName (ad_name def)))
      else if \<not> ad_schema_is_object def then (rg, Inl (SchemaNotObject (ad_name def)))
      else if map_of (tr_tools rg) (ad_name def) \<noteq> None then (rg, Inl (AlreadyRegistered (ad_name def)))
      else
        (let descriptor = \<lparr> td_name = ad_name def, td_description = ad_description def,
                            td_input_schema_json = ad_schema_json def,
                            td_requires_approval = ad_requires_approval def \<rparr>
         in (rg\<lparr>tr_tools := AList.update (ad_name def) (descriptor, handler) (tr_tools rg),
                tr_revision := tr_revision rg + 1\<rparr>, Inr ())))"

definition unregister_tool :: "'h AppToolRegistry \<Rightarrow> string \<Rightarrow> 'h AppToolRegistry \<times> bool" where
  "unregister_tool rg name =
     (if map_of (tr_tools rg) name \<noteq> None
      then (rg\<lparr>tr_tools := AList.delete name (tr_tools rg), tr_revision := tr_revision rg + 1\<rparr>, True)
      else (rg, False))"

definition snapshot :: "'h AppToolRegistry \<Rightarrow> u64 \<times> AppToolDescriptor list" where
  "snapshot rg = (tr_revision rg, sort_key td_name (map (fst \<circ> snd) (tr_tools rg)))"

definition lookup_tool :: "'h AppToolRegistry \<Rightarrow> string \<Rightarrow> (AppToolDescriptor \<times> 'h) option" where
  "lookup_tool rg name = map_of (tr_tools rg) name"

definition try_acquire_permit :: "'h AppToolRegistry \<Rightarrow> 'h AppToolRegistry \<times> bool" where
  "try_acquire_permit rg = (if tr_permits rg = 0 then (rg, False) else (rg\<lparr>tr_permits := tr_permits rg - 1\<rparr>, True))"

definition release_permit :: "'h AppToolRegistry \<Rightarrow> 'h AppToolRegistry" where
  "release_permit rg = rg\<lparr>tr_permits := Suc (tr_permits rg)\<rparr>"

definition call_state :: "'h AppToolRegistry \<Rightarrow> string \<Rightarrow> CallState" where
  "call_state rg tool_call_id =
     (if tool_call_id \<in> tr_running rg then CallRunning
      else (case map_of (tr_completed rg) tool_call_id of
              Some result \<Rightarrow> CallCompleted result
            | None \<Rightarrow> CallUnknown))"

definition mark_running :: "'h AppToolRegistry \<Rightarrow> string \<Rightarrow> 'h AppToolRegistry" where
  "mark_running rg tool_call_id = rg\<lparr>tr_running := insert tool_call_id (tr_running rg)\<rparr>"

definition mark_call_completed :: "'h AppToolRegistry \<Rightarrow> string \<Rightarrow> CompletedAppToolCall \<Rightarrow> 'h AppToolRegistry" where
  "mark_call_completed rg tool_call_id result =
     rg\<lparr>tr_running := tr_running rg - {tool_call_id},
        tr_completed := evict MAX_COMPLETED_CALLS (tr_completed rg @ [(tool_call_id, result)])\<rparr>"

definition clamp_timeout :: "nat \<Rightarrow> nat" where
  "clamp_timeout timeout_ms =
     (if timeout_ms = 0 then DEFAULT_TIMEOUT_MS else max MIN_TIMEOUT_MS (min timeout_ms MAX_TIMEOUT_MS))"

subsection \<open>Cancelling: tasks, permits, the mutex and the channels\<close>

text \<open>
  A job task first waits for a permit, then executes while it listens on its cancel channel, which
  closes when the execution ends, then locks the registry to remove itself, and releases its
  permit when it returns. The read loop
  handles one message after another; to cancel a job it locks the registry and sends on the job's
  channel of capacity one, keeping the lock until the message is accepted.
\<close>

datatype task_pc = TWaitPermit | TExecuting | TRemoving | TReleasing | TReturned

datatype loop_pc = LIdle | LSending nat

record CancelSystem =
  sy_tasks :: "task_pc list"
  sy_channel :: "nat list"
  sy_permits :: nat
  sy_loop :: loop_pc

datatype cancel_action =
    CancelArrives nat
  | SendAccepted
  | GetPermit nat
  | SeeCancel nat
  | Finish nat
  | RemoveSelf nat
  | ReleasePermit nat

definition locked :: "CancelSystem \<Rightarrow> bool" where
  "locked s \<longleftrightarrow> (\<exists>i \<in> {..<length (sy_tasks s)}. sy_loop s = LSending i)"

definition at_pc :: "CancelSystem \<Rightarrow> nat \<Rightarrow> task_pc \<Rightarrow> bool" where
  "at_pc s i pc \<longleftrightarrow> i < length (sy_tasks s) \<and> sy_tasks s ! i = pc"

definition registered :: "CancelSystem \<Rightarrow> nat \<Rightarrow> bool" where
  "registered s i \<longleftrightarrow> at_pc s i TWaitPermit \<or> at_pc s i TExecuting \<or> at_pc s i TRemoving"

fun cancel_step :: "CancelSystem \<Rightarrow> cancel_action \<Rightarrow> CancelSystem option" where
  "cancel_step s (CancelArrives i) =
     (if sy_loop s = LIdle then Some (if registered s i then s\<lparr>sy_loop := LSending i\<rparr> else s) else None)"
| "cancel_step s SendAccepted =
     (case sy_loop s of
        LIdle \<Rightarrow> None
      | LSending i \<Rightarrow>
          if \<not> at_pc s i TWaitPermit \<and> \<not> at_pc s i TExecuting then Some (s\<lparr>sy_loop := LIdle\<rparr>)
          else if sy_channel s ! i = 0
          then Some (s\<lparr>sy_loop := LIdle, sy_channel := (sy_channel s)[i := 1]\<rparr>)
          else None)"
| "cancel_step s (GetPermit i) =
     (if at_pc s i TWaitPermit \<and> 0 < sy_permits s
      then Some (s\<lparr>sy_tasks := (sy_tasks s)[i := TExecuting], sy_permits := sy_permits s - 1\<rparr>) else None)"
| "cancel_step s (SeeCancel i) =
     (if at_pc s i TExecuting \<and> sy_channel s ! i = 1
      then Some (s\<lparr>sy_tasks := (sy_tasks s)[i := TRemoving], sy_channel := (sy_channel s)[i := 0]\<rparr>) else None)"
| "cancel_step s (Finish i) =
     (if at_pc s i TExecuting then Some (s\<lparr>sy_tasks := (sy_tasks s)[i := TRemoving]\<rparr>) else None)"
| "cancel_step s (RemoveSelf i) =
     (if at_pc s i TRemoving \<and> \<not> locked s then Some (s\<lparr>sy_tasks := (sy_tasks s)[i := TReleasing]\<rparr>) else None)"
| "cancel_step s (ReleasePermit i) =
     (if at_pc s i TReleasing
      then Some (s\<lparr>sy_tasks := (sy_tasks s)[i := TReturned], sy_permits := Suc (sy_permits s)\<rparr>) else None)"

fun cancel_run :: "CancelSystem \<Rightarrow> cancel_action list \<Rightarrow> CancelSystem option" where
  "cancel_run s [] = Some s"
| "cancel_run s (a # as) = (case cancel_step s a of None \<Rightarrow> None | Some s' \<Rightarrow> cancel_run s' as)"

definition cancel_init :: "nat \<Rightarrow> nat \<Rightarrow> CancelSystem" where
  "cancel_init tasks permits =
     \<lparr> sy_tasks = replicate tasks TWaitPermit, sy_channel = replicate tasks 0, sy_permits = permits, sy_loop = LIdle \<rparr>"


subsection \<open>Specification\<close>

datatype tool_op = RegisterTool AppToolDef | UnregisterTool string

fun tool_step :: "unit AppToolRegistry \<Rightarrow> tool_op \<Rightarrow> unit AppToolRegistry" where
  "tool_step rg (RegisterTool def) = fst (register_tool rg def ())"
| "tool_step rg (UnregisterTool name) = fst (unregister_tool rg name)"

definition run_tools :: "unit AppToolRegistry \<Rightarrow> tool_op list \<Rightarrow> unit AppToolRegistry" where
  "run_tools rg ops = fold (\<lambda>op rg. tool_step rg op) ops rg"

fun cancels :: "cancel_action list \<Rightarrow> nat list" where
  "cancels [] = []"
| "cancels (CancelArrives i # as) = i # cancels as"
| "cancels (_ # as) = cancels as"

definition cancel_inv :: "(nat \<Rightarrow> nat) \<Rightarrow> CancelSystem \<Rightarrow> bool" where
  "cancel_inv n s \<longleftrightarrow> length (sy_channel s) = length (sy_tasks s) \<and>
     (\<forall>i < length (sy_tasks s). sy_channel s ! i + (if sy_loop s = LSending i then 1 else 0) \<le> n i)"

section \<open>Lemmas\<close>

subsection \<open>The cache of completed results\<close>

locale completed_cache =
  fixes complete :: "'s \<Rightarrow> string \<Rightarrow> 'r \<Rightarrow> 's"
    and cached :: "'s \<Rightarrow> (string \<times> 'r) list"
    and cap :: "'s \<Rightarrow> nat"
  assumes complete_law: "cached (complete s i r) = evict (cap s) (cached s @ [(i, r)])"
    and cap_law: "cap (complete s i r) = cap s"
begin

definition complete_all :: "'s \<Rightarrow> (string \<times> 'r) list \<Rightarrow> 's" where
  "complete_all s xs = fold (\<lambda>(i, r) s. complete s i r) xs s"

lemma complete_all_cap: "cap (complete_all s xs) = cap s"
  by (induction xs arbitrary: s) (auto simp: complete_all_def cap_law)

lemma complete_all_cached:
  "length (cached s) \<le> cap s \<Longrightarrow> cached (complete_all s xs) = last_n (cap s) (cached s @ xs)"
proof (induction xs arbitrary: s)
  case (Cons x xs)
  obtain i r where x: "x = (i, r)" by (cases x)
  have c: "cached (complete s i r) = last_n (cap s) (cached s @ [(i, r)])" by (simp only: complete_law evict_last_n)
  have "cached (complete_all (complete s i r) xs) = last_n (cap s) (last_n (cap s) (cached s @ [(i, r)]) @ xs)"
    using Cons.IH [of "complete s i r"] by (simp add: c cap_law)
  also have "\<dots> = last_n (cap s) (cached s @ (i, r) # xs)"
    using last_n_append [of "cached s @ [(i, r)]" "cap s" xs] by simp
  finally show ?case by (simp add: complete_all_def x)
qed (simp add: complete_all_def)

lemma recent_result_cached:
  assumes "length (cached s) \<le> cap s" and "map_of (cached s) i = None"
    and "length xs < cap s" and "map_of xs i = None"
  shows "map_of (cached (complete_all (complete s i r) xs)) i = Some r"
proof -
  have "cached (complete_all s ((i, r) # xs)) = last_n (cap s) (cached s @ (i, r) # xs)"
    by (rule complete_all_cached [OF assms(1)])
  moreover have "last_n (cap s) (cached s @ (i, r) # xs) = drop (length (cached s) + Suc (length xs) - cap s) (cached s) @ (i, r) # xs"
    using assms(3) by simp
  moreover have "map_of (drop n (cached s)) i = None" for n
    using assms(2) by (auto simp: map_of_eq_None_iff dest: in_set_dropD)
  ultimately show ?thesis by (simp add: complete_all_def map_add_def)
qed

end

interpretation job_cache: completed_cache "\<lambda>rg i r. mark_job_completed rg i (cj_exit_code r) (cj_error r)"
  jg_completed jg_max_completed
proof unfold_locales
  fix s :: "'i JobRegistry" and i and r :: CompletedJob
  show "jg_completed (mark_job_completed s i (cj_exit_code r) (cj_error r)) =
      evict (jg_max_completed s) (jg_completed s @ [(i, r)])"
    by (cases r) (simp add: mark_job_completed_def)
qed (simp add: mark_job_completed_def)

interpretation call_cache: completed_cache mark_call_completed tr_completed "\<lambda>_. MAX_COMPLETED_CALLS"
  by unfold_locales (simp_all add: mark_call_completed_def)

subsection \<open>Revisions\<close>

lemma tool_step_revision:
  "tr_revision (tool_step rg op) = tr_revision rg \<and> tr_tools (tool_step rg op) = tr_tools rg \<or>
   tr_revision (tool_step rg op) = tr_revision rg + 1"
  by (cases op) (auto simp: register_tool_def unregister_tool_def Let_def)

lemma run_tools_revision:
  "\<exists>k \<le> length ops. tr_revision (run_tools rg ops) = tr_revision rg + of_nat k \<and>
     (k = 0 \<longrightarrow> tr_tools (run_tools rg ops) = tr_tools rg)"
proof (induction ops arbitrary: rg)
  case (Cons op ops)
  from Cons.IH [of "tool_step rg op"] obtain k where
    k: "k \<le> length ops" "tr_revision (run_tools rg (op # ops)) = tr_revision (tool_step rg op) + of_nat k"
      "k = 0 \<Longrightarrow> tr_tools (run_tools rg (op # ops)) = tr_tools (tool_step rg op)"
    by (auto simp: run_tools_def)
  from tool_step_revision [of rg op] show ?case
  proof
    assume "tr_revision (tool_step rg op) = tr_revision rg \<and> tr_tools (tool_step rg op) = tr_tools rg"
    with k show ?thesis by (intro exI [of _ k]) auto
  next
    assume "tr_revision (tool_step rg op) = tr_revision rg + 1"
    with k show ?thesis by (intro exI [of _ "Suc k"]) auto
  qed
qed (simp add: run_tools_def)

subsection \<open>Cancelling\<close>

lemma cancel_step_inv:
  assumes "cancel_inv n s" and "cancel_step s a = Some s'"
  shows "cancel_inv (case a of CancelArrives i \<Rightarrow> n(i := Suc (n i)) | _ \<Rightarrow> n) s'"
  using assms
  by (cases a)
    (auto simp: cancel_inv_def at_pc_def nth_list_update split: if_splits loop_pc.splits intro: le_SucI)

lemma cancel_run_inv:
  "cancel_inv n s \<Longrightarrow> cancel_run s as = Some s' \<Longrightarrow> cancel_inv (\<lambda>i. n i + count_list (cancels as) i) s'"
proof (induction as arbitrary: s n)
  case (Cons a as)
  from Cons.prems(2) obtain s1 where s1: "cancel_step s a = Some s1" "cancel_run s1 as = Some s'"
    by (auto split: option.splits)
  from Cons.IH [OF cancel_step_inv [OF Cons.prems(1) s1(1)] s1(2)] show ?case
    by (cases a) (auto elim!: back_subst [of "\<lambda>n. cancel_inv n s'"])
qed simp

section \<open>Properties\<close>

text \<open>
  Completed jobs are answered from the cache. The result of a job is found under its id, and the
  job is not started again, until 1000 other jobs have completed after it.
\<close>

theorem completed_job_known:
  fixes later :: "(string \<times> CompletedJob) list"
  assumes "length (jg_completed rg) \<le> jg_max_completed rg" and "is_known rg j = Unknown"
    and "length later < jg_max_completed rg" and "j \<notin> fst ` set later"
  shows "is_known (fold (\<lambda>(i, r) rg. mark_job_completed rg i (cj_exit_code r) (cj_error r)) later
      (mark_job_completed rg j exit_code err)) j
    = KnownCompleted \<lparr> cj_exit_code = exit_code, cj_error = err \<rparr>"
proof -
  let ?rg' = "fold (\<lambda>(i, r) rg. mark_job_completed rg i (cj_exit_code r) (cj_error r)) later
      (mark_job_completed rg j exit_code err)"
  have jobs: "jg_jobs (fold (\<lambda>(i, r) rg. mark_job_completed rg i (cj_exit_code r) (cj_error r)) xs r0) = jg_jobs r0" for xs r0
    by (induction xs arbitrary: r0) (auto simp: mark_job_completed_def)
  from assms(2) have none: "map_of (jg_jobs rg) j = None" "map_of (jg_completed rg) j = None"
    by (auto simp: is_known_def split: if_splits option.splits)
  have "map_of later j = None" using assms(4) by (simp add: map_of_eq_None_iff)
  from job_cache.recent_result_cached [OF assms(1) none(2) assms(3) this, of "\<lparr> cj_exit_code = exit_code, cj_error = err \<rparr>"]
  have "map_of (jg_completed ?rg') j = Some \<lparr> cj_exit_code = exit_code, cj_error = err \<rparr>"
    by (simp add: job_cache.complete_all_def)
  moreover have "map_of (jg_jobs ?rg') j = None" using none(1) by (simp only: jobs) (simp add: mark_job_completed_def)
  ultimately show ?thesis by (simp add: is_known_def)
qed

theorem completed_job_known_witness:
  "is_known (fold (\<lambda>(i, r) rg. mark_job_completed rg i (cj_exit_code r) (cj_error r))
      [(''j2'', \<lparr> cj_exit_code = 1, cj_error = ''x'' \<rparr>)] (mark_job_completed registry_new ''j1'' 0 [])) ''j1''
    = KnownCompleted \<lparr> cj_exit_code = 0, cj_error = [] \<rparr>"
  by (rule completed_job_known) (simp_all add: registry_new_def is_known_def)

text \<open>
  A catalog revision identifies its content: two snapshots of the registry with the same revision
  list the same tools, whatever registrations and removals were attempted in between.
\<close>

theorem revision_identifies_tools:
  assumes "rg' = run_tools rg ops" and "length ops < 2 ^ 64" and "tr_revision rg' = tr_revision rg"
  shows "snapshot rg' = snapshot rg \<and> (\<forall>name. lookup_tool rg' name = lookup_tool rg name)"
proof -
  from run_tools_revision [of ops rg] obtain k where k: "k \<le> length ops"
    "tr_revision rg' = tr_revision rg + of_nat k" "k = 0 \<longrightarrow> tr_tools rg' = tr_tools rg"
    unfolding assms(1) by blast
  from k(2) assms(3) have "(of_nat k :: u64) = 0" by simp
  with k(1) assms(2) have "k = 0" by (metis le_less_trans unat_0 unat_of_nat_u64)
  with k(3) assms(3) show ?thesis by (simp add: snapshot_def lookup_tool_def)
qed

theorem revision_identifies_tools_witness:
  "let rg = fst (register_tool tool_registry_new \<lparr> ad_name = ''open'', ad_description = [], ad_schema_json = ''{}'',
         ad_schema_is_object = True, ad_requires_approval = False \<rparr> ());
       rg' = run_tools rg [RegisterTool \<lparr> ad_name = ''Bad Name'', ad_description = [], ad_schema_json = ''{}'',
         ad_schema_is_object = True, ad_requires_approval = False \<rparr>, UnregisterTool ''close'']
   in snapshot rg' = snapshot rg"
  using revision_identifies_tools [OF refl,
      of "[RegisterTool \<lparr> ad_name = ''Bad Name'', ad_description = [], ad_schema_json = ''{}'',
         ad_schema_is_object = True, ad_requires_approval = False \<rparr>, UnregisterTool ''close'']"
      "fst (register_tool tool_registry_new \<lparr> ad_name = ''open'', ad_description = [], ad_schema_json = ''{}'',
         ad_schema_is_object = True, ad_requires_approval = False \<rparr> ())"]
  by (simp add: run_tools_def register_tool_def unregister_tool_def tool_registry_new_def valid_name_def
      valid_char_def less_eq_char_def Let_def)

text \<open>
  Cancelling does not block the read loop as long as no job is cancelled twice: in every state such
  a run reaches, the message being sent is accepted at once.
\<close>

theorem single_cancel_never_blocks:
  assumes "cancel_run (cancel_init tasks permits) as = Some s" and "distinct (cancels as)"
    and "sy_loop s = LSending i" and "i < length (sy_tasks s)"
  shows "cancel_step s SendAccepted \<noteq> None"
proof -
  have "cancel_inv (\<lambda>_. 0) (cancel_init tasks permits)" by (simp add: cancel_inv_def cancel_init_def)
  from cancel_run_inv [OF this assms(1)] have
    "sy_channel s ! i + 1 \<le> count_list (cancels as) i" using assms(3,4) by (fastforce simp: cancel_inv_def)
  moreover have "count_list (cancels as) i \<le> 1" using assms(2) by (rule distinct_count_list_le)
  ultimately show ?thesis using assms(3) by simp
qed

theorem single_cancel_never_blocks_witness:
  "\<exists>s. cancel_run (cancel_init 2 1) [GetPermit 0, CancelArrives 0, SendAccepted, CancelArrives 1] = Some s \<and>
     cancel_step s SendAccepted \<noteq> None"
  using single_cancel_never_blocks [of 2 1 "[GetPermit 0, CancelArrives 0, SendAccepted, CancelArrives 1]" _ 1]
  by (simp add: cancel_init_def at_pc_def registered_def numeral_2_eq_2)

text \<open>
  Cancelling a queued job twice deadlocks the daemon. With all permits taken, the second cancel keeps
  the registry locked while it waits for the queued job to read its channel; the running jobs
  cannot remove themselves, so no permit is ever released, and nothing can happen any more.
\<close>

theorem double_cancel_deadlock:
  "\<exists>s. cancel_run (cancel_init 2 1) [GetPermit 0, CancelArrives 1, SendAccepted, CancelArrives 1, Finish 0] = Some s \<and>
     (\<forall>a. cancel_step s a = None)"
proof (intro exI conjI allI)
  let ?s = "\<lparr> sy_tasks = [TRemoving, TWaitPermit], sy_channel = [0, 1], sy_permits = 0, sy_loop = LSending 1 \<rparr>"
  show "cancel_run (cancel_init 2 1) [GetPermit 0, CancelArrives 1, SendAccepted, CancelArrives 1, Finish 0] = Some ?s"
    by (simp add: cancel_init_def at_pc_def registered_def numeral_2_eq_2)
  show "cancel_step ?s a = None" for a
    by (cases a) (auto simp: at_pc_def locked_def less_Suc_eq nth_Cons')
qed

end
