(* ===== verification/Daemon_Jobs.thy ===== *)
theory Daemon_Jobs
  imports Sessions Job_Registries "HOL-Library.Monad_Syntax"
begin

text \<open>
  How the daemon handles a job request and an app tool request (\<^verbatim>\<open>handle_job_request\<close>,
  \<^verbatim>\<open>spawn_job\<close>, \<^verbatim>\<open>handle_app_tool_request\<close> and their helpers in \<^verbatim>\<open>ahandd/src/ahand_client.rs\<close>): the
  idempotency check, the session gate, the approval that may be needed, and the tasks spawned to
  wait for it and to run the work.

  The state holds the managers the handlers share, what was sent to the hub, and the spawned
  tasks; a task that waits takes its next step in a definition of its own. Given as arguments:
  the result of the capability lookup (\<open>provider\<close>), of parsing the JSON arguments (\<open>parse_args\<close>), the
  outcome of a handler or of a process, and the clock.
\<close>

section \<open>Definitions\<close>

datatype JobProvider = DefaultExec | ManagedRuntime

datatype DaemonPayload =
    PayloadJobFinished string int string
  | PayloadJobRejected string string
  | PayloadApprovalRequest ApprovalRequest
  | PayloadAppToolError string string string
  | PayloadAppToolResult string string
  | PayloadSessionState SessionState

record AppToolRequest =
  at_tool_call_id :: string
  at_name :: string
  at_args_json :: string
  at_timeout_ms :: nat

text \<open>A task that waits for an approval, with its oneshot channel.\<close>

record JobWaiter =
  jw_channel :: nat
  jw_request :: JobRequest
  jw_caller_uid :: string
  jw_provider :: JobProvider

record ToolWaiter =
  tw_channel :: nat
  tw_request :: AppToolRequest
  tw_timeout_ms :: nat
  tw_total_deadline_ms :: nat
  tw_approval_job_id :: string

record Daemon =
  dm_sessions :: SessionManager
  dm_approvals :: ApprovalManager
  dm_registry :: "unit JobRegistry"
  dm_tools :: "unit AppToolRegistry"
  dm_sent :: "DaemonPayload list"
  dm_broadcast :: "DaemonPayload list"
  dm_job_waiters :: "JobWaiter list"
  dm_tool_waiters :: "ToolWaiter list"
  dm_started :: "JobRequest list"
  dm_executing :: "(string \<times> nat) list"
  dm_handlers :: nat

definition daemon_new :: "u64 \<Rightarrow> u64 \<Rightarrow> Daemon" where
  "daemon_new trust_mins approval_secs =
     \<lparr> dm_sessions = session_new trust_mins, dm_approvals = approval_new approval_secs,
       dm_registry = registry_new, dm_tools = tool_registry_new, dm_sent = [], dm_broadcast = [], dm_job_waiters = [],
       dm_tool_waiters = [], dm_started = [], dm_executing = [], dm_handlers = 0 \<rparr>"

definition tx_send :: "Daemon \<Rightarrow> DaemonPayload \<Rightarrow> Daemon" where
  "tx_send dm p = dm\<lparr>dm_sent := dm_sent dm @ [p]\<rparr>"

text \<open>An approval request goes to the hub and to every local client.\<close>

definition announce_approval :: "Daemon \<Rightarrow> ApprovalManager \<Rightarrow> ApprovalRequest \<Rightarrow> Daemon" where
  "announce_approval dm am approval_req =
     (let dm = tx_send (dm\<lparr>dm_approvals := am\<rparr>) (PayloadApprovalRequest approval_req)
      in dm\<lparr>dm_broadcast := dm_broadcast dm @ [PayloadApprovalRequest approval_req]\<rparr>)"

subsection \<open>Sessions and approvals\<close>

definition handle_approval_response :: "Daemon \<Rightarrow> int \<Rightarrow> u64 \<Rightarrow> ApprovalResponse \<Rightarrow> Daemon" where
  "handle_approval_response dm now now_ms resp =
     (case apply_approval_response (dm_approvals dm) (dm_sessions dm) now now_ms resp of
        (am, sm, _) \<Rightarrow> dm\<lparr>dm_approvals := am, dm_sessions := sm\<rparr>)"

text \<open>An unknown number stands for the inactive mode.\<close>

definition decode_session_mode :: "int \<Rightarrow> SessionMode" where
  "decode_session_mode m = (if m = 1 then Strict else if m = 2 then Trust else if m = 3 then AutoAccept else Inactive)"

definition handle_set_session_mode :: "Daemon \<Rightarrow> int \<Rightarrow> u64 \<Rightarrow> string \<Rightarrow> int \<Rightarrow> u64 \<Rightarrow> Daemon option" where
  "handle_set_session_mode dm now now_ms caller_uid mode trust_timeout_mins =
     (case set_mode (dm_sessions dm) now now_ms caller_uid (decode_session_mode mode) trust_timeout_mins of
        None \<Rightarrow> None
      | Some (sm, state) \<Rightarrow> Some (tx_send (dm\<lparr>dm_sessions := sm\<rparr>) (PayloadSessionState state)))"

definition handle_session_query :: "Daemon \<Rightarrow> int \<Rightarrow> u64 \<Rightarrow> string \<Rightarrow> Daemon" where
  "handle_session_query dm now now_ms caller_uid =
     foldl (\<lambda>dm state. tx_send dm (PayloadSessionState state)) dm
       (query_sessions (dm_sessions dm) now now_ms caller_uid)"

subsection \<open>Jobs\<close>

definition managed_runtime_interactive_rejection :: "JobRequest \<Rightarrow> DaemonPayload" where
  "managed_runtime_interactive_rejection req =
     PayloadJobRejected (jr_job_id req)
       (''managed runtime tool '' @ jr_tool req @ '' does not support interactive PTY jobs'')"

definition spawn_job :: "Daemon \<Rightarrow> JobRequest \<Rightarrow> JobProvider \<Rightarrow> Daemon" where
  "spawn_job dm req provider =
     (let task = length (dm_started dm)
      in if jr_interactive req
         then if provider = ManagedRuntime then tx_send dm (managed_runtime_interactive_rejection req)
              else dm\<lparr>dm_registry := register_interactive (dm_registry dm) (jr_job_id req) task,
                      dm_started := dm_started dm @ [req]\<rparr>
         else dm\<lparr>dm_registry := register_job (dm_registry dm) (jr_job_id req) task,
                 dm_started := dm_started dm @ [req]\<rparr>)"

definition handle_job_request ::
  "(string \<Rightarrow> string) \<Rightarrow> Daemon \<Rightarrow> int \<Rightarrow> u64 \<Rightarrow> string + JobProvider \<Rightarrow> JobRequest \<Rightarrow> string \<Rightarrow> Daemon option" where
  "handle_job_request dbg dm now now_ms provider req caller_uid =
     (case provider of
        Inl err \<Rightarrow> Some (tx_send dm (PayloadJobRejected (jr_job_id req) err))
      | Inr job_provider \<Rightarrow>
          if jr_interactive req \<and> job_provider = ManagedRuntime
          then Some (tx_send dm (managed_runtime_interactive_rejection req))
          else (case is_known (dm_registry dm) (jr_job_id req) of
              KnownRunning \<Rightarrow> Some dm
            | KnownCompleted c \<Rightarrow>
                Some (tx_send dm (PayloadJobFinished (jr_job_id req) (cj_exit_code c) (cj_error c)))
            | Unknown \<Rightarrow>
                (case check dbg (dm_sessions dm) now (jr_tool req) caller_uid of
                   None \<Rightarrow> None
                 | Some (sm, decision) \<Rightarrow>
                     (let dm = dm\<lparr>dm_sessions := sm\<rparr>
                      in Some (case decision of
                           Deny reason \<Rightarrow> tx_send dm (PayloadJobRejected (jr_job_id req) reason)
                         | Allow \<Rightarrow> spawn_job dm req job_provider
                         | NeedsApproval reason previous_refusals \<Rightarrow>
                             (let (am, approval_req, ch) =
                                    submit (dm_approvals dm) now_ms req caller_uid reason previous_refusals;
                                  dm = announce_approval dm am approval_req
                              in dm\<lparr>dm_job_waiters := dm_job_waiters dm @
                                    [\<lparr> jw_channel = ch, jw_request = req, jw_caller_uid = caller_uid,
                                       jw_provider = job_provider \<rparr>]\<rparr>))))))"

text \<open>
  The waiting task goes on with the answer, or with \<open>None\<close> when the wait timed out or the channel was
  closed.
\<close>

definition job_waiter_wakes :: "Daemon \<Rightarrow> int \<Rightarrow> u64 \<Rightarrow> JobWaiter \<Rightarrow> ApprovalResponse option \<Rightarrow> Daemon" where
  "job_waiter_wakes dm now now_ms w result =
     (let job_id = jr_job_id (jw_request w)
      in case result of
           Some resp \<Rightarrow>
             if ar_approved resp then spawn_job dm (jw_request w) (jw_provider w)
             else
               (let dm = (if ar_reason resp \<noteq> []
                          then dm\<lparr>dm_sessions := record_refusal (dm_sessions dm) now now_ms
                                   (jr_tool (jw_request w)) (ar_reason resp)\<rparr>
                          else dm);
                    dm = dm\<lparr>dm_approvals := fst (expire_approval (dm_approvals dm) job_id)\<rparr>
                in tx_send dm (PayloadJobRejected job_id
                     (if ar_reason resp = [] then ''approval denied'' else ''approval denied: '' @ ar_reason resp)))
         | None \<Rightarrow>
             tx_send (dm\<lparr>dm_approvals := fst (expire_approval (dm_approvals dm) job_id)\<rparr>)
               (PayloadJobRejected job_id ''approval timed out''))"

text \<open>The end of a job's task: it removes the job and then records the result.\<close>

definition job_removed :: "Daemon \<Rightarrow> string \<Rightarrow> Daemon" where
  "job_removed dm job_id = dm\<lparr>dm_registry := remove_job (dm_registry dm) job_id\<rparr>"

definition job_recorded :: "Daemon \<Rightarrow> string \<Rightarrow> int \<Rightarrow> string \<Rightarrow> Daemon" where
  "job_recorded dm job_id exit_code err =
     dm\<lparr>dm_registry := mark_job_completed (dm_registry dm) job_id exit_code err\<rparr>"

subsection \<open>App tools\<close>

definition fail_app_tool_call :: "Daemon \<Rightarrow> string \<Rightarrow> string \<Rightarrow> string \<Rightarrow> Daemon" where
  "fail_app_tool_call dm tool_call_id code message =
     tx_send (dm\<lparr>dm_tools := mark_call_completed (dm_tools dm) tool_call_id
                   \<lparr> tc_result_json = None, tc_error = Some \<lparr> te_code = code, te_message = message \<rparr> \<rparr>\<rparr>)
       (PayloadAppToolError tool_call_id code message)"

definition validate_and_execute_app_tool ::
  "(string \<Rightarrow> string + bool) \<Rightarrow> Daemon \<Rightarrow> string \<Rightarrow> string \<Rightarrow> nat \<Rightarrow> Daemon" where
  "validate_and_execute_app_tool parse_args dm tool_call_id args_json timeout_ms_req =
     (case parse_args args_json of
        Inl err \<Rightarrow>
          fail_app_tool_call dm tool_call_id ''INVALID_ARGS'' (''args_json is not valid JSON: '' @ err)
      | Inr is_object \<Rightarrow>
          if \<not> is_object
          then fail_app_tool_call dm tool_call_id ''INVALID_ARGS'' ''args_json must be a JSON object''
          else (case try_acquire_permit (dm_tools dm) of
                  (_, False) \<Rightarrow>
                    fail_app_tool_call dm tool_call_id ''CONCURRENCY_LIMIT''
                      ''too many app tool calls in flight on this device; retry after in-flight calls finish''
                | (tools, True) \<Rightarrow>
                    dm\<lparr>dm_tools := mark_running tools tool_call_id,
                       dm_executing := dm_executing dm @ [(tool_call_id, clamp_timeout timeout_ms_req)],
                       dm_handlers := Suc (dm_handlers dm)\<rparr>))"

datatype ToolOutcome =
    HandlerOk string
  | HandlerErr AppToolError
  | HandlerPanicked
  | HandlerCancelled
  | HandlerTimeout

text \<open>
  The outcome of an execution is recorded and sent. A handler task holds its permit until it
  finishes, which a timeout does not wait for.
\<close>

definition outcome_result :: "nat \<Rightarrow> ToolOutcome \<Rightarrow> CompletedAppToolCall" where
  "outcome_result timeout_ms oc =
     (case oc of
        HandlerOk json \<Rightarrow> \<lparr> tc_result_json = Some json, tc_error = None \<rparr>
      | HandlerErr e \<Rightarrow>
          \<lparr> tc_result_json = None,
            tc_error = Some (if te_code e = [] then e\<lparr>te_code := ''HANDLER_ERROR''\<rparr> else e) \<rparr>
      | HandlerPanicked \<Rightarrow>
          \<lparr> tc_result_json = None, tc_error = Some \<lparr> te_code = ''HANDLER_PANIC'',
              te_message = ''app tool handler panicked; the app may be in a bad state'' \<rparr> \<rparr>
      | HandlerCancelled \<Rightarrow>
          \<lparr> tc_result_json = None, tc_error = Some \<lparr> te_code = ''HANDLER_ERROR'', te_message = ''app tool task was cancelled'' \<rparr> \<rparr>
      | HandlerTimeout \<Rightarrow>
          \<lparr> tc_result_json = None, tc_error = Some \<lparr> te_code = ''EXECUTION_TIMEOUT'',
              te_message = ''app tool did not finish within '' @ show_nat timeout_ms @ ''ms'' \<rparr> \<rparr>)"

definition result_payload :: "string \<Rightarrow> CompletedAppToolCall \<Rightarrow> DaemonPayload" where
  "result_payload tool_call_id r =
     (case (tc_result_json r, tc_error r) of
        (Some json, _) \<Rightarrow> PayloadAppToolResult tool_call_id json
      | (None, Some e) \<Rightarrow> PayloadAppToolError tool_call_id (te_code e) (te_message e)
      | (None, None) \<Rightarrow> PayloadAppToolError tool_call_id ''HANDLER_ERROR'' ''cached result had no outcome'')"

definition execute_app_tool_ends :: "Daemon \<Rightarrow> string \<Rightarrow> nat \<Rightarrow> ToolOutcome \<Rightarrow> Daemon" where
  "execute_app_tool_ends dm tool_call_id timeout_ms oc =
     (let r = outcome_result timeout_ms oc
      in tx_send (dm\<lparr>dm_tools := mark_call_completed (dm_tools dm) tool_call_id r,
                     dm_executing := filter (\<lambda>e. fst e \<noteq> tool_call_id) (dm_executing dm)\<rparr>)
           (result_payload tool_call_id r))"

definition handler_ends :: "Daemon \<Rightarrow> Daemon" where
  "handler_ends dm = dm\<lparr>dm_tools := release_permit (dm_tools dm), dm_handlers := dm_handlers dm - 1\<rparr>"

text \<open>The gate of an app tool call: the session's decision, raised to an approval where the tool asks for one.\<close>

definition tool_gate ::
  "(string \<Rightarrow> string) \<Rightarrow> SessionManager \<Rightarrow> int \<Rightarrow> AppToolDescriptor \<Rightarrow> string \<Rightarrow> string \<Rightarrow> (SessionManager \<times> SessionDecision) option" where
  "tool_gate dbg sm now descriptor name caller_uid =
     (case check dbg sm now (''app:'' @ name) caller_uid of
        None \<Rightarrow> None
      | Some (sm, decision) \<Rightarrow>
          Some (if decision = Allow \<and> td_requires_approval descriptor
                then (let (sm', refusals) = get_refusals sm now (''app:'' @ name)
                      in (sm', NeedsApproval (''app tool '' @ dbg name @ '' is registered with requires_approval'') refusals))
                else (sm, decision)))"

definition synthetic_request :: "AppToolRequest \<Rightarrow> JobRequest" where
  "synthetic_request req =
     \<lparr> jr_job_id = ''app-tool:'' @ at_tool_call_id req, jr_tool = ''app:'' @ at_name req,
       jr_args = [take_chars 512 (at_args_json req)], jr_cwd = [], jr_env = [], jr_timeout_ms = 0,
       jr_interactive = False \<rparr>"

definition handle_app_tool_request ::
  "(string \<Rightarrow> string) \<Rightarrow> (string \<Rightarrow> string + bool) \<Rightarrow> Daemon \<Rightarrow> int \<Rightarrow> u64 \<Rightarrow> AppToolRequest \<Rightarrow> string \<Rightarrow> Daemon option" where
  "handle_app_tool_request dbg parse_args dm now now_ms req caller_uid =
     (let call_id = at_tool_call_id req
      in case call_state (dm_tools dm) call_id of
           CallRunning \<Rightarrow> Some dm
         | CallCompleted cached \<Rightarrow> Some (tx_send dm (result_payload call_id cached))
         | CallUnknown \<Rightarrow>
             (case lookup_tool (dm_tools dm) (at_name req) of
                None \<Rightarrow>
                  Some (tx_send dm (PayloadAppToolError call_id ''TOOL_NOT_FOUND''
                    (''no app tool named '' @ dbg (at_name req) @ '' is registered on this device'')))
              | Some (descriptor, _) \<Rightarrow>
                  (case tool_gate dbg (dm_sessions dm) now descriptor (at_name req) caller_uid of
                     None \<Rightarrow> None
                   | Some (sm, decision) \<Rightarrow>
                       (let dm = dm\<lparr>dm_sessions := sm\<rparr>
                        in Some (case decision of
                             Deny reason \<Rightarrow>
                               tx_send dm (PayloadAppToolError call_id ''SESSION_INACTIVE''
                                 (''session mode rejects app tool calls: '' @ reason))
                           | Allow \<Rightarrow>
                               validate_and_execute_app_tool parse_args dm call_id (at_args_json req) (at_timeout_ms req)
                           | NeedsApproval reason previous_refusals \<Rightarrow>
                               (let total_deadline_ms = clamp_timeout (at_timeout_ms req);
                                    timeout = min (am_default_timeout_ms (dm_approvals dm)) total_deadline_ms;
                                    synthetic = synthetic_request req;
                                    dm = dm\<lparr>dm_tools := mark_running (dm_tools dm) call_id\<rparr>;
                                    (am, approval_req, ch) = submit_with_timeout (dm_approvals dm) now_ms synthetic
                                       caller_uid reason previous_refusals timeout;
                                    dm = announce_approval dm am approval_req
                                in dm\<lparr>dm_tool_waiters := dm_tool_waiters dm @
                                      [\<lparr> tw_channel = ch, tw_request = req, tw_timeout_ms = timeout,
                                         tw_total_deadline_ms = total_deadline_ms,
                                         tw_approval_job_id = jr_job_id synthetic \<rparr>]\<rparr>))))))"

definition remaining_ms :: "nat \<Rightarrow> nat \<Rightarrow> nat" where
  "remaining_ms total_deadline_ms approval_wait_ms = max (total_deadline_ms - approval_wait_ms) MIN_TIMEOUT_MS"

definition tool_waiter_wakes ::
  "(string \<Rightarrow> string + bool) \<Rightarrow> Daemon \<Rightarrow> ToolWaiter \<Rightarrow> nat \<Rightarrow> ApprovalResponse option \<Rightarrow> Daemon" where
  "tool_waiter_wakes parse_args dm w approval_wait_ms result =
     (case result of
        Some resp \<Rightarrow>
          if ar_approved resp
          then validate_and_execute_app_tool parse_args dm (at_tool_call_id (tw_request w)) (at_args_json (tw_request w))
                 (remaining_ms (tw_total_deadline_ms w) approval_wait_ms)
          else fail_app_tool_call dm (at_tool_call_id (tw_request w)) ''APPROVAL_DENIED''
                 (if ar_reason resp = [] then ''the user declined this call''
                  else ''the user declined this call: '' @ ar_reason resp)
      | None \<Rightarrow>
          fail_app_tool_call
            (dm\<lparr>dm_approvals := fst (expire_approval (dm_approvals dm) (tw_approval_job_id w))\<rparr>)
            (at_tool_call_id (tw_request w)) ''APPROVAL_TIMEOUT'' ''approval request expired without a user response'')"

subsection \<open>The daemon as a transition system\<close>

text \<open>
  What happens to the daemon: a message of the hub is handled, a waiting task goes on, a job or a
  handler ends, the embedding application changes its tools. A task waiting for an approval sees
  the answer when there is one; otherwise it goes on because its channel was closed or its time
  ran out.
\<close>

datatype daemon_event =
    EvJobRequest int u64 "string + JobProvider" JobRequest string
  | EvApproval int u64 ApprovalResponse
  | EvJobWaiter int u64 JobWaiter
  | EvJobRemoved string
  | EvJobRecorded string int string
  | EvToolRequest int u64 AppToolRequest string
  | EvToolWaiter ToolWaiter nat
  | EvToolEnds string nat ToolOutcome
  | EvHandlerEnds
  | EvSetMode int u64 string int u64
  | EvSessionQuery int u64 string
  | EvTools tool_op

definition answer_of :: "ApprovalManager \<Rightarrow> nat \<Rightarrow> ApprovalResponse option" where
  "answer_of am ch = (case am_channels am ! ch of Answered r \<Rightarrow> Some r | _ \<Rightarrow> None)"

inductive daemon_step :: "(string \<Rightarrow> string) \<Rightarrow> (string \<Rightarrow> string + bool) \<Rightarrow> Daemon \<Rightarrow> daemon_event \<Rightarrow> Daemon \<Rightarrow> bool"
  for dbg parse_args where
  job_request: "handle_job_request dbg dm now ms p req uid = Some dm' \<Longrightarrow>
    daemon_step dbg parse_args dm (EvJobRequest now ms p req uid) dm'"
| approval: "daemon_step dbg parse_args dm (EvApproval now ms resp) (handle_approval_response dm now ms resp)"
| job_waiter: "w \<in> set (dm_job_waiters dm) \<Longrightarrow>
    daemon_step dbg parse_args dm (EvJobWaiter now ms w)
      (job_waiter_wakes (dm\<lparr>dm_job_waiters := remove1 w (dm_job_waiters dm)\<rparr>) now ms w
        (answer_of (dm_approvals dm) (jw_channel w)))"
| job_removal: "daemon_step dbg parse_args dm (EvJobRemoved j) (job_removed dm j)"
| job_record: "daemon_step dbg parse_args dm (EvJobRecorded j c e) (job_recorded dm j c e)"
| tool_request: "handle_app_tool_request dbg parse_args dm now ms treq uid = Some dm' \<Longrightarrow>
    daemon_step dbg parse_args dm (EvToolRequest now ms treq uid) dm'"
| tool_waiter: "tw \<in> set (dm_tool_waiters dm) \<Longrightarrow>
    daemon_step dbg parse_args dm (EvToolWaiter tw waited)
      (tool_waiter_wakes parse_args (dm\<lparr>dm_tool_waiters := remove1 tw (dm_tool_waiters dm)\<rparr>) tw waited
        (answer_of (dm_approvals dm) (tw_channel tw)))"
| tool_ends: "(t, limit) \<in> set (dm_executing dm) \<Longrightarrow>
    daemon_step dbg parse_args dm (EvToolEnds t limit oc) (execute_app_tool_ends dm t limit oc)"
| handler: "0 < dm_handlers dm \<Longrightarrow> daemon_step dbg parse_args dm EvHandlerEnds (handler_ends dm)"
| session_mode: "handle_set_session_mode dm now ms uid m mins = Some dm' \<Longrightarrow>
    daemon_step dbg parse_args dm (EvSetMode now ms uid m mins) dm'"
| session_query: "daemon_step dbg parse_args dm (EvSessionQuery now ms uid) (handle_session_query dm now ms uid)"
| tools: "daemon_step dbg parse_args dm (EvTools op) (dm\<lparr>dm_tools := tool_step (dm_tools dm) op\<rparr>)"

text \<open>A history lists each event with the state it happened in.\<close>

type_synonym history = "(Daemon \<times> daemon_event) list"

inductive daemon_run :: "(string \<Rightarrow> string) \<Rightarrow> (string \<Rightarrow> string + bool) \<Rightarrow> Daemon \<Rightarrow> history \<Rightarrow> Daemon \<Rightarrow> bool"
  for dbg parse_args dm0 where
  run_start: "daemon_run dbg parse_args dm0 [] dm0"
| run_step: "daemon_run dbg parse_args dm0 h dm \<Longrightarrow> daemon_step dbg parse_args dm ev dm' \<Longrightarrow>
    daemon_run dbg parse_args dm0 (h @ [(dm, ev)]) dm'"

subsection \<open>Specification\<close>

definition session_allows :: "(string \<Rightarrow> string) \<Rightarrow> Daemon \<Rightarrow> int \<Rightarrow> string \<Rightarrow> string \<Rightarrow> bool" where
  "session_allows dbg dm now tool uid \<longleftrightarrow> (\<exists>sm. check dbg (dm_sessions dm) now tool uid = Some (sm, Allow))"

text \<open>A request was answered: the answer arrived while that very request was pending under its job id.\<close>

definition answered_by :: "history \<Rightarrow> ApprovalResponse \<Rightarrow> JobRequest \<Rightarrow> bool" where
  "answered_by h r req \<longleftrightarrow>
     (\<exists>dm now ms e. (dm, EvApproval now ms r) \<in> set h \<and>
        map_of (am_pending (dm_approvals dm)) (ar_job_id r) = Some e \<and> pa_request e = req)"

definition job_authorised :: "(string \<Rightarrow> string) \<Rightarrow> history \<Rightarrow> JobRequest \<Rightarrow> bool" where
  "job_authorised dbg h req \<longleftrightarrow>
     (\<exists>dm now ms p uid. (dm, EvJobRequest now ms p req uid) \<in> set h \<and>
        (session_allows dbg dm now (jr_tool req) uid \<or> (\<exists>r. ar_approved r \<and> answered_by h r req)))"

definition tool_authorised :: "(string \<Rightarrow> string) \<Rightarrow> history \<Rightarrow> string \<Rightarrow> bool" where
  "tool_authorised dbg h t \<longleftrightarrow>
     (\<exists>dm now ms treq uid d. (dm, EvToolRequest now ms treq uid) \<in> set h \<and> at_tool_call_id treq = t \<and>
        lookup_tool (dm_tools dm) (at_name treq) = Some (d, ()) \<and>
        (session_allows dbg dm now (''app:'' @ at_name treq) uid \<and> \<not> td_requires_approval d \<or>
         (\<exists>r. ar_approved r \<and> answered_by h r (synthetic_request treq))))"

text \<open>The channels being waited on, each with the request its answer is for.\<close>

definition waits :: "Daemon \<Rightarrow> (nat \<times> JobRequest) set" where
  "waits dm = (\<lambda>w. (jw_channel w, jw_request w)) ` set (dm_job_waiters dm) \<union>
              (\<lambda>w. (tw_channel w, synthetic_request (tw_request w))) ` set (dm_tool_waiters dm)"

definition waits_ok :: "history \<Rightarrow> ApprovalManager \<Rightarrow> (nat \<times> JobRequest) set \<Rightarrow> bool" where
  "waits_ok h am W \<longleftrightarrow>
     (\<exists>ids. approval_inv ids am \<and>
        (\<forall>(ch, req) \<in> W. ch < length ids \<and>
           (\<forall>j e. map_of (am_pending am) j = Some e \<longrightarrow> pa_result_tx e = ch \<longrightarrow> pa_request e = req) \<and>
           (\<forall>r. am_channels am ! ch = Answered r \<longrightarrow> answered_by h r req)))"

definition job_requested :: "history \<Rightarrow> JobRequest \<Rightarrow> bool" where
  "job_requested h req \<longleftrightarrow> (\<exists>dm now ms p uid. (dm, EvJobRequest now ms p req uid) \<in> set h)"

definition tool_requested :: "history \<Rightarrow> AppToolRequest \<Rightarrow> bool" where
  "tool_requested h treq \<longleftrightarrow> (\<exists>dm now ms uid d. (dm, EvToolRequest now ms treq uid) \<in> set h \<and>
     lookup_tool (dm_tools dm) (at_name treq) = Some (d, ()))"

definition daemon_inv :: "(string \<Rightarrow> string) \<Rightarrow> history \<Rightarrow> Daemon \<Rightarrow> bool" where
  "daemon_inv dbg h dm \<longleftrightarrow>
     waits_ok h (dm_approvals dm) (waits dm) \<and>
     (\<forall>req \<in> set (dm_started dm). job_authorised dbg h req) \<and>
     (\<forall>w \<in> set (dm_job_waiters dm). job_requested h (jw_request w)) \<and>
     (\<forall>x \<in> set (dm_executing dm). tool_authorised dbg h (fst x)) \<and>
     (\<forall>w \<in> set (dm_tool_waiters dm). tool_requested h (tw_request w))"

text \<open>
  The calls in progress: those waiting for an approval and those executing. Each is marked running,
  once, and nothing else is.
\<close>

definition in_progress :: "Daemon \<Rightarrow> string list" where
  "in_progress dm = map (at_tool_call_id \<circ> tw_request) (dm_tool_waiters dm) @ map fst (dm_executing dm)"

definition tools_inv :: "Daemon \<Rightarrow> bool" where
  "tools_inv dm \<longleftrightarrow> distinct (in_progress dm) \<and> tr_running (dm_tools dm) = set (in_progress dm) \<and>
     tr_permits (dm_tools dm) + dm_handlers dm = MAX_CONCURRENT_APP_TOOLS"

section \<open>Lemmas\<close>

subsection \<open>Answers reach the tasks that wait for them\<close>

lemma answered_by_mono: "answered_by h r req \<Longrightarrow> set h \<subseteq> set h' \<Longrightarrow> answered_by h' r req"
  unfolding answered_by_def by blast

lemma waits_okI:
  assumes "approval_inv ids am"
    and "\<And>c r. (c, r) \<in> W \<Longrightarrow> c < length ids \<and>
           (\<forall>j e. map_of (am_pending am) j = Some e \<longrightarrow> pa_result_tx e = c \<longrightarrow> pa_request e = r) \<and>
           (\<forall>a. am_channels am ! c = Answered a \<longrightarrow> answered_by h a r)"
  shows "waits_ok h am W"
  unfolding waits_ok_def
proof (intro exI conjI ballI)
  show "approval_inv ids am" by (rule assms(1))
  fix x assume "x \<in> W"
  then show "case x of (ch, req) \<Rightarrow> ch < length ids \<and>
      (\<forall>j e. map_of (am_pending am) j = Some e \<longrightarrow> pa_result_tx e = ch \<longrightarrow> pa_request e = req) \<and>
      (\<forall>r. am_channels am ! ch = Answered r \<longrightarrow> answered_by h r req)"
    using assms(2) [of "fst x" "snd x"] by (cases x) simp
qed

lemma waits_okE:
  assumes "waits_ok h am W"
  obtains ids where "approval_inv ids am"
    and "\<And>c r. (c, r) \<in> W \<Longrightarrow> c < length ids \<and>
           (\<forall>j e. map_of (am_pending am) j = Some e \<longrightarrow> pa_result_tx e = c \<longrightarrow> pa_request e = r) \<and>
           (\<forall>a. am_channels am ! c = Answered a \<longrightarrow> answered_by h a r)"
  using assms unfolding waits_ok_def by blast

lemma waits_ok_mono:
  assumes "waits_ok h am W" and "set h \<subseteq> set h'" and "W' \<subseteq> W"
  shows "waits_ok h' am W'"
  using assms(1)
proof (rule waits_okE)
  fix ids assume inv: "approval_inv ids am" and W: "\<And>c r. (c, r) \<in> W \<Longrightarrow> c < length ids \<and>
           (\<forall>j e. map_of (am_pending am) j = Some e \<longrightarrow> pa_result_tx e = c \<longrightarrow> pa_request e = r) \<and>
           (\<forall>a. am_channels am ! c = Answered a \<longrightarrow> answered_by h a r)"
  from inv show ?thesis
  proof (rule waits_okI)
    fix c r assume "(c, r) \<in> W'"
    with assms(3) W [of c r] show "c < length ids \<and>
           (\<forall>j e. map_of (am_pending am) j = Some e \<longrightarrow> pa_result_tx e = c \<longrightarrow> pa_request e = r) \<and>
           (\<forall>a. am_channels am ! c = Answered a \<longrightarrow> answered_by h' a r)"
      by (auto intro: answered_by_mono [OF _ assms(2)])
  qed
qed

lemma waits_ok_submit:
  assumes "waits_ok h am W" and "submit_with_timeout am now_ms req u reason rs timeout = (am', q, ch)"
  shows "waits_ok h am' (insert (ch, req) W)"
proof -
  from assms(1) obtain ids where inv: "approval_inv ids am"
    and W: "\<And>c r. (c, r) \<in> W \<Longrightarrow> c < length ids \<and>
           (\<forall>j e. map_of (am_pending am) j = Some e \<longrightarrow> pa_result_tx e = c \<longrightarrow> pa_request e = r) \<and>
           (\<forall>a. am_channels am ! c = Answered a \<longrightarrow> answered_by h a r)"
    by (rule waits_okE) blast
  have len: "length (am_channels am) = length ids" using inv by (simp add: approval_inv_def)
  have old: "\<And>j e. map_of (am_pending am) j = Some e \<Longrightarrow> pa_result_tx e < length ids" using inv by (simp add: approval_inv_def)
  have am': "ch = length ids" "am_pending am' = AList.update (jr_job_id req) \<lparr> pa_request = req, pa_caller_uid = u,
      pa_approval_request = q, pa_result_tx = ch \<rparr> (am_pending am)"
    using assms(2) len by (auto simp: submit_with_timeout_def drop_sender_def Let_def split: option.splits if_splits)
  have chans: "am_channels am' ! c = Answered a \<Longrightarrow> c < length ids \<and> am_channels am ! c = Answered a" if "c \<le> length ids" for c a
    using assms(2) len that
    by (auto simp: submit_with_timeout_def drop_sender_def Let_def nth_append nth_list_update split: option.splits if_splits)
  have "approval_inv (ids @ [jr_job_id req]) am'"
    using approval_inv_submit [OF inv, of req now_ms u reason rs timeout] assms(2) by simp
  moreover have "c < Suc (length ids) \<and>
      (\<forall>j e. map_of (am_pending am') j = Some e \<longrightarrow> pa_result_tx e = c \<longrightarrow> pa_request e = r) \<and>
      (\<forall>a. am_channels am' ! c = Answered a \<longrightarrow> answered_by h a r)" if "(c, r) \<in> insert (ch, req) W" for c r
  proof (cases "(c, r) = (ch, req)")
    case True
    with am' chans [of c] old show ?thesis by (fastforce simp: AList.update_conv' split: if_splits)
  next
    case False
    with that have "(c, r) \<in> W" by auto
    from W [OF this] am' chans [of c] show ?thesis by (auto simp: AList.update_conv' split: if_splits)
  qed
  ultimately show ?thesis by (intro waits_okI [of "ids @ [jr_job_id req]"]) simp_all
qed

lemma waits_ok_request:
  "waits_ok h am W \<Longrightarrow> (pa_result_tx e, req) \<in> W \<Longrightarrow> map_of (am_pending am) j = Some e \<Longrightarrow> pa_request e = req"
  by (erule waits_okE) blast

lemma waits_ok_update:
  assumes "waits_ok h am W" and "\<And>ids. approval_inv ids am \<Longrightarrow> approval_inv ids am'"
    and "\<And>k e. map_of (am_pending am') k = Some e \<Longrightarrow> map_of (am_pending am) k = Some e"
    and "\<And>c req a. (c, req) \<in> W \<Longrightarrow> am_channels am' ! c = Answered a \<Longrightarrow> am_channels am ! c = Answered a \<or> answered_by h a req"
  shows "waits_ok h am' W"
proof -
  from assms(1) obtain ids where inv: "approval_inv ids am"
    and W: "\<And>c r. (c, r) \<in> W \<Longrightarrow> c < length ids \<and>
           (\<forall>j e. map_of (am_pending am) j = Some e \<longrightarrow> pa_result_tx e = c \<longrightarrow> pa_request e = r) \<and>
           (\<forall>a. am_channels am ! c = Answered a \<longrightarrow> answered_by h a r)"
    by (rule waits_okE) blast
  have "c < length ids \<and>
      (\<forall>j e. map_of (am_pending am') j = Some e \<longrightarrow> pa_result_tx e = c \<longrightarrow> pa_request e = r) \<and>
      (\<forall>a. am_channels am' ! c = Answered a \<longrightarrow> answered_by h a r)" if "(c, r) \<in> W" for c r
    using W [OF that] assms(3) assms(4) [OF that] by blast
  with assms(2) [OF inv] show ?thesis by (rule waits_okI)
qed

lemma waits_ok_resolve:
  assumes "waits_ok h am W" and "(dm, EvApproval now ms resp) \<in> set h" and "dm_approvals dm = am"
  shows "waits_ok h (fst (resolve_approval am resp)) W"
proof (rule waits_ok_update [OF assms(1)])
  fix ids assume "approval_inv ids am"
  from approval_inv_step [OF this, of "AResolve resp"] show "approval_inv ids (fst (resolve_approval am resp))" by simp
next
  fix k e assume "map_of (am_pending (fst (resolve_approval am resp))) k = Some e"
  then show "map_of (am_pending am) k = Some e"
    by (auto simp: resolve_approval_def send_answer_def Let_def delete_conv' split: option.splits if_splits)
next
  fix c req a assume "(c, req) \<in> W" and new: "am_channels (fst (resolve_approval am resp)) ! c = Answered a"
  show "am_channels am ! c = Answered a \<or> answered_by h a req"
  proof (cases "map_of (am_pending am) (ar_job_id resp)")
    case (Some e)
    show ?thesis
    proof (cases "c = pa_result_tx e \<and> a = resp")
      case True
      with waits_ok_request [OF assms(1) _ Some] \<open>(c, req) \<in> W\<close> have "pa_request e = req" by simp
      with True Some assms(2,3) show ?thesis unfolding answered_by_def by blast
    next
      case False
      with new Some show ?thesis
        by (auto simp: resolve_approval_def send_answer_def Let_def nth_list_update split: if_splits)
    qed
  qed (use new in \<open>simp add: resolve_approval_def\<close>)
qed

lemma waits_ok_expire:
  assumes "waits_ok h am W"
  shows "waits_ok h (fst (expire_approval am j)) W"
proof (rule waits_ok_update [OF assms(1)])
  fix ids assume "approval_inv ids am"
  from approval_inv_step [OF this, of "AExpire j"] show "approval_inv ids (fst (expire_approval am j))" by simp
next
  fix k e assume "map_of (am_pending (fst (expire_approval am j))) k = Some e"
  then show "map_of (am_pending am) k = Some e"
    by (auto simp: expire_approval_def drop_sender_def delete_conv' split: option.splits if_splits)
next
  fix c req a assume "am_channels (fst (expire_approval am j)) ! c = Answered a"
  then show "am_channels am ! c = Answered a \<or> answered_by h a req"
    by (auto simp: expire_approval_def drop_sender_def nth_list_update split: option.splits if_splits)
qed

subsection \<open>Only authorised work runs\<close>

lemma job_authorised_mono: "job_authorised dbg h req \<Longrightarrow> set h \<subseteq> set h' \<Longrightarrow> job_authorised dbg h' req"
  unfolding job_authorised_def by (meson answered_by_mono subsetD)

lemma tool_authorised_mono: "tool_authorised dbg h t \<Longrightarrow> set h \<subseteq> set h' \<Longrightarrow> tool_authorised dbg h' t"
  unfolding tool_authorised_def by (elim exE conjE) (blast intro: answered_by_mono)

lemma daemon_inv_mono: "daemon_inv dbg h dm \<Longrightarrow> set h \<subseteq> set h' \<Longrightarrow> daemon_inv dbg h' dm"
  unfolding daemon_inv_def
  by (elim conjE, intro conjI ballI)
    (rule waits_ok_mono, assumption+, simp, blast intro: job_authorised_mono, fastforce simp: job_requested_def,
      blast intro: tool_authorised_mono, fastforce simp: tool_requested_def)

text \<open>The invariant reads five fields only, and shrinking the lists of tasks keeps it.\<close>

lemma daemon_inv_frame:
  assumes "daemon_inv dbg h dm" and "dm_approvals dm' = dm_approvals dm" and "dm_started dm' = dm_started dm"
    and "set (dm_job_waiters dm') \<subseteq> set (dm_job_waiters dm)" and "set (dm_tool_waiters dm') \<subseteq> set (dm_tool_waiters dm)"
    and "set (dm_executing dm') \<subseteq> set (dm_executing dm)"
  shows "daemon_inv dbg h dm'"
proof -
  have "waits dm' \<subseteq> waits dm" using assms(4,5) unfolding waits_def by blast
  with assms show ?thesis unfolding daemon_inv_def by (auto intro: waits_ok_mono)
qed

lemmas frame_simps = tx_send_def job_removed_def job_recorded_def fail_app_tool_call_def
  execute_app_tool_ends_def handler_ends_def managed_runtime_interactive_rejection_def Let_def

lemma daemon_inv_send: "daemon_inv dbg h dm \<Longrightarrow> daemon_inv dbg h (tx_send dm x)"
  by (erule daemon_inv_frame) (simp_all add: frame_simps)

lemma daemon_inv_fail: "daemon_inv dbg h dm \<Longrightarrow> daemon_inv dbg h (fail_app_tool_call dm t c m)"
  by (erule daemon_inv_frame) (simp_all add: frame_simps)

lemma daemon_inv_sessions: "daemon_inv dbg h dm \<Longrightarrow> daemon_inv dbg h (dm\<lparr>dm_sessions := sm\<rparr>)"
  by (erule daemon_inv_frame) simp_all

lemma daemon_inv_expire:
  "daemon_inv dbg h dm \<Longrightarrow> daemon_inv dbg h (dm\<lparr>dm_approvals := fst (expire_approval (dm_approvals dm) j)\<rparr>)"
  unfolding daemon_inv_def waits_def by (simp add: waits_ok_expire)

lemma daemon_inv_spawn:
  assumes "daemon_inv dbg h dm" and "job_authorised dbg h req"
  shows "daemon_inv dbg h (spawn_job dm req p)"
proof (cases "jr_interactive req \<and> p = ManagedRuntime")
  case True
  with assms(1) show ?thesis by (simp add: spawn_job_def daemon_inv_send)
next
  case False
  have "daemon_inv dbg h (dm\<lparr>dm_registry := rg, dm_started := dm_started dm @ [req]\<rparr>)" for rg
    using assms by (simp add: daemon_inv_def waits_def)
  with False show ?thesis by (simp add: spawn_job_def Let_def)
qed

lemma daemon_inv_execute:
  assumes "daemon_inv dbg h dm" and "tool_authorised dbg h t"
  shows "daemon_inv dbg h (validate_and_execute_app_tool parse_args dm t args ms)"
proof -
  have "daemon_inv dbg h (dm\<lparr>dm_tools := tools, dm_executing := dm_executing dm @ [(t, n)], dm_handlers := k\<rparr>)" for tools n k
    using assms by (simp add: daemon_inv_def waits_def)
  then show ?thesis
    using daemon_inv_fail [OF assms(1)]
    by (simp add: validate_and_execute_app_tool_def split: sum.split prod.split bool.split)
qed

lemma daemon_inv_wait_job:
  assumes "daemon_inv dbg h dm" and "submit_with_timeout (dm_approvals dm) ms req u reason rs timeout = (am, q, ch)"
    and "job_requested h req"
  shows "daemon_inv dbg h (let dm = announce_approval dm am q in dm\<lparr>dm_job_waiters := dm_job_waiters dm @
      [\<lparr> jw_channel = ch, jw_request = req, jw_caller_uid = u', jw_provider = jp \<rparr>]\<rparr>)"
proof -
  from assms(1) have "waits_ok h am (insert (ch, req) (waits dm))"
    unfolding daemon_inv_def by (intro waits_ok_submit [OF _ assms(2)]) simp
  with assms(1,3) show ?thesis
    unfolding daemon_inv_def by (auto simp: waits_def announce_approval_def tx_send_def Let_def)
qed

lemma daemon_inv_wait_tool:
  assumes "daemon_inv dbg h dm"
    and "submit_with_timeout (dm_approvals dm) ms (synthetic_request treq) u reason rs timeout = (am, q, ch)"
    and "tool_requested h treq"
  shows "daemon_inv dbg h (let dm = announce_approval (dm\<lparr>dm_tools := tools\<rparr>) am q in dm\<lparr>dm_tool_waiters := dm_tool_waiters dm @
      [\<lparr> tw_channel = ch, tw_request = treq, tw_timeout_ms = t1, tw_total_deadline_ms = t2, tw_approval_job_id = j \<rparr>]\<rparr>)"
proof -
  from assms(1) have "waits_ok h am (insert (ch, synthetic_request treq) (waits dm))"
    unfolding daemon_inv_def by (intro waits_ok_submit [OF _ assms(2)]) simp
  with assms(1,3) show ?thesis
    unfolding daemon_inv_def by (auto simp: waits_def announce_approval_def tx_send_def Let_def)
qed

lemma waiter_answer:
  assumes "daemon_inv dbg h dm" and "(ch, req) \<in> waits dm" and "answer_of (dm_approvals dm) ch = Some r"
  shows "answered_by h r req"
proof -
  from assms(1) have "waits_ok h (dm_approvals dm) (waits dm)" by (simp add: daemon_inv_def)
  moreover have "am_channels (dm_approvals dm) ! ch = Answered r"
    using assms(3) by (simp add: answer_of_def split: oneshot.splits)
  ultimately show ?thesis using assms(2) by (auto elim: waits_okE)
qed

lemma daemon_inv_job_request:
  assumes "daemon_inv dbg h dm" and ev: "(dm, EvJobRequest now ms p req uid) \<in> set h"
    and "handle_job_request dbg dm now ms p req uid = Some dm'"
  shows "daemon_inv dbg h dm'"
proof -
  have req: "job_requested h req" using ev unfolding job_requested_def by blast
  show ?thesis
  proof (cases "\<exists>jp. p = Inr jp \<and> \<not> (jr_interactive req \<and> jp = ManagedRuntime) \<and> is_known (dm_registry dm) (jr_job_id req) = Unknown")
    case False
    with assms show ?thesis
      by (auto simp: handle_job_request_def daemon_inv_send split: sum.splits if_splits IsKnown.splits)
  next
    case True
    then obtain jp where jp: "p = Inr jp" "\<not> (jr_interactive req \<and> jp = ManagedRuntime)"
      "is_known (dm_registry dm) (jr_job_id req) = Unknown" by blast
    with assms(3) obtain sm dec where c: "check dbg (dm_sessions dm) now (jr_tool req) uid = Some (sm, dec)"
      by (auto simp: handle_job_request_def split: option.splits)
    note s = daemon_inv_sessions [OF assms(1), of sm]
    show ?thesis
    proof (cases dec)
      case Allow
      with c ev have "job_authorised dbg h req" unfolding job_authorised_def session_allows_def by blast
      with daemon_inv_spawn [OF s] assms(3) jp c Allow show ?thesis by (auto simp: handle_job_request_def)
    next
      case (Deny x)
      with daemon_inv_send [OF s] assms(3) jp c show ?thesis by (auto simp: handle_job_request_def)
    next
      case (NeedsApproval reason rs)
      obtain am q ch where sub: "submit_with_timeout (dm_approvals dm) ms req uid reason rs (am_default_timeout_ms (dm_approvals dm)) = (am, q, ch)"
        by (metis prod_cases3)
      then have "submit_with_timeout (dm_approvals (dm\<lparr>dm_sessions := sm\<rparr>)) ms req uid reason rs (am_default_timeout_ms (dm_approvals dm)) = (am, q, ch)" by simp
      from daemon_inv_wait_job [OF s this req] sub assms(3) jp c NeedsApproval show ?thesis
        by (auto simp: handle_job_request_def submit_def Let_def)
    qed
  qed
qed

lemma daemon_inv_tool_request:
  assumes "daemon_inv dbg h dm" and ev: "(dm, EvToolRequest now ms treq uid) \<in> set h"
    and "handle_app_tool_request dbg parse_args dm now ms treq uid = Some dm'"
  shows "daemon_inv dbg h dm'"
proof (cases "call_state (dm_tools dm) (at_tool_call_id treq) = CallUnknown \<and> lookup_tool (dm_tools dm) (at_name treq) \<noteq> None")
  case False
  with assms show ?thesis
    by (cases "call_state (dm_tools dm) (at_tool_call_id treq)"; cases "lookup_tool (dm_tools dm) (at_name treq)")
      (auto simp: handle_app_tool_request_def daemon_inv_send Let_def)
next
  case True
  then obtain d where d: "call_state (dm_tools dm) (at_tool_call_id treq) = CallUnknown"
    "lookup_tool (dm_tools dm) (at_name treq) = Some (d, ())" by auto
  have treq: "tool_requested h treq" using ev d(2) unfolding tool_requested_def by blast
  from assms(3) d obtain sm dec where g: "tool_gate dbg (dm_sessions dm) now d (at_name treq) uid = Some (sm, dec)"
    by (auto simp: handle_app_tool_request_def Let_def split: option.splits)
  note s = daemon_inv_sessions [OF assms(1), of sm]
  show ?thesis
  proof (cases dec)
    case Allow
    with g have "session_allows dbg dm now (''app:'' @ at_name treq) uid" "\<not> td_requires_approval d"
      by (auto simp: tool_gate_def session_allows_def Let_def split: option.splits prod.splits if_splits)
    with ev d(2) have "tool_authorised dbg h (at_tool_call_id treq)" unfolding tool_authorised_def by blast
    from daemon_inv_execute [OF s this] assms(3) d g Allow show ?thesis by (simp add: handle_app_tool_request_def Let_def) blast
  next
    case (Deny x)
    with daemon_inv_send [OF s] assms(3) d g show ?thesis by (auto simp: handle_app_tool_request_def Let_def)
  next
    case (NeedsApproval reason rs)
    define t where "t = min (am_default_timeout_ms (dm_approvals dm)) (clamp_timeout (at_timeout_ms treq))"
    obtain am q ch where sub: "submit_with_timeout (dm_approvals dm) ms (synthetic_request treq) uid reason rs t = (am, q, ch)"
      by (metis prod_cases3)
    then have "submit_with_timeout (dm_approvals (dm\<lparr>dm_sessions := sm\<rparr>)) ms (synthetic_request treq) uid reason rs t = (am, q, ch)" by simp
    from daemon_inv_wait_tool [OF s this treq] sub assms(3) d g NeedsApproval show ?thesis
      by (auto simp: handle_app_tool_request_def Let_def t_def)
  qed
qed

lemma daemon_inv_job_waiter:
  assumes "daemon_inv dbg h dm" and "w \<in> set (dm_job_waiters dm)"
  shows "daemon_inv dbg h (job_waiter_wakes (dm\<lparr>dm_job_waiters := remove1 w (dm_job_waiters dm)\<rparr>) now ms w
      (answer_of (dm_approvals dm) (jw_channel w)))"
proof -
  let ?dm = "dm\<lparr>dm_job_waiters := remove1 w (dm_job_waiters dm)\<rparr>"
  have i: "daemon_inv dbg h ?dm"
    using assms(1) by (rule daemon_inv_frame) (auto dest: notin_set_remove1 intro: set_remove1_subset [THEN subsetD])
  have "job_authorised dbg h (jw_request w)" if "answer_of (dm_approvals dm) (jw_channel w) = Some r" "ar_approved r" for r
  proof -
    from assms(2) have "(jw_channel w, jw_request w) \<in> waits dm" unfolding waits_def by blast
    from waiter_answer [OF assms(1) this that(1)] that(2) assms show ?thesis
      unfolding job_authorised_def daemon_inv_def job_requested_def by blast
  qed
  then show ?thesis
    using daemon_inv_spawn [OF i] daemon_inv_expire [OF i] daemon_inv_expire [OF daemon_inv_sessions [OF i]]
    by (auto simp: job_waiter_wakes_def Let_def daemon_inv_send split: option.split)
qed

lemma daemon_inv_tool_waiter:
  assumes "daemon_inv dbg h dm" and "w \<in> set (dm_tool_waiters dm)"
  shows "daemon_inv dbg h (tool_waiter_wakes parse_args (dm\<lparr>dm_tool_waiters := remove1 w (dm_tool_waiters dm)\<rparr>) w waited
      (answer_of (dm_approvals dm) (tw_channel w)))"
proof -
  let ?dm = "dm\<lparr>dm_tool_waiters := remove1 w (dm_tool_waiters dm)\<rparr>"
  have i: "daemon_inv dbg h ?dm"
    using assms(1) by (rule daemon_inv_frame) (auto intro: set_remove1_subset [THEN subsetD])
  have "tool_authorised dbg h (at_tool_call_id (tw_request w))"
    if "answer_of (dm_approvals dm) (tw_channel w) = Some r" "ar_approved r" for r
  proof -
    from assms(2) have "(tw_channel w, synthetic_request (tw_request w)) \<in> waits dm" unfolding waits_def by blast
    from waiter_answer [OF assms(1) this that(1)] that(2) assms show ?thesis
      unfolding tool_authorised_def daemon_inv_def tool_requested_def by blast
  qed
  then show ?thesis
    using daemon_inv_execute [OF i] daemon_inv_fail [OF i] daemon_inv_fail [OF daemon_inv_expire [OF i]]
    by (auto simp: tool_waiter_wakes_def split: option.split)
qed

lemma daemon_inv_approval:
  assumes "daemon_inv dbg h dm" and "(dm, EvApproval now ms resp) \<in> set h"
  shows "daemon_inv dbg h (handle_approval_response dm now ms resp)"
proof -
  have "waits_ok h (fst (resolve_approval (dm_approvals dm) resp)) (waits dm)"
    using assms by (intro waits_ok_resolve) (simp_all add: daemon_inv_def)
  with assms(1) have "daemon_inv dbg h (dm\<lparr>dm_approvals := fst (resolve_approval (dm_approvals dm) resp)\<rparr>)"
    by (simp add: daemon_inv_def waits_def)
  then have "daemon_inv dbg h (dm\<lparr>dm_approvals := fst (resolve_approval (dm_approvals dm) resp), dm_sessions := sm\<rparr>)" for sm
    by (rule daemon_inv_frame) simp_all
  moreover obtain am sm b where a: "apply_approval_response (dm_approvals dm) (dm_sessions dm) now ms resp = (am, sm, b)"
    by (metis prod_cases3)
  moreover have "fst (apply_approval_response (dm_approvals dm) (dm_sessions dm) now ms resp) = fst (resolve_approval (dm_approvals dm) resp)"
    by (simp add: apply_approval_response_def split: prod.split option.split)
  ultimately show ?thesis by (simp add: handle_approval_response_def)
qed

lemma daemon_inv_query: "daemon_inv dbg h dm \<Longrightarrow> daemon_inv dbg h (handle_session_query dm now ms uid)"
proof -
  have "daemon_inv dbg h (foldl (\<lambda>dm state. tx_send dm (PayloadSessionState state)) dm xs)" if "daemon_inv dbg h dm" for xs
    using that by (induction xs arbitrary: dm) (simp_all add: daemon_inv_send)
  then show "daemon_inv dbg h dm \<Longrightarrow> ?thesis" unfolding handle_session_query_def by blast
qed

lemma daemon_inv_step:
  assumes "daemon_step dbg parse_args dm ev dm'" and "daemon_inv dbg h dm" and "(dm, ev) \<in> set h"
  shows "daemon_inv dbg h dm'"
  using assms
proof (cases rule: daemon_step.cases)
  case (tools op)
  with assms(2) show ?thesis by (auto intro: daemon_inv_frame)
next
  case (session_mode now ms uid m mins)
  with assms(2) show ?thesis
    by (auto simp: handle_set_session_mode_def daemon_inv_send daemon_inv_sessions split: option.splits)
qed (use assms(2,3) in \<open>auto intro: daemon_inv_job_request daemon_inv_tool_request daemon_inv_job_waiter
    daemon_inv_tool_waiter daemon_inv_approval daemon_inv_query daemon_inv_frame simp: frame_simps\<close>)

lemma daemon_run_inv:
  assumes "daemon_run dbg parse_args (daemon_new m s) h dm"
  shows "daemon_inv dbg h dm"
  using assms
proof (induction rule: daemon_run.induct)
  case run_start
  have "approval_inv [] (approval_new s)" by (simp add: approval_inv_def approval_new_def)
  then show ?case by (auto simp: daemon_inv_def daemon_new_def waits_def intro: waits_okI)
next
  case (run_step h dm ev dm')
  have "daemon_inv dbg (h @ [(dm, ev)]) dm" by (rule daemon_inv_mono [OF run_step.IH]) auto
  from daemon_inv_step [OF run_step.hyps(2) this] show ?case by simp
qed

subsection \<open>Calls in progress\<close>

text \<open>A call about to start or to fail: it may be marked running, and is not among the tasks.\<close>

definition ready :: "string \<Rightarrow> Daemon \<Rightarrow> bool" where
  "ready t dm \<longleftrightarrow> distinct (in_progress dm) \<and> t \<notin> set (in_progress dm) \<and>
     tr_running (dm_tools dm) - {t} = set (in_progress dm) \<and>
     tr_permits (dm_tools dm) + dm_handlers dm = MAX_CONCURRENT_APP_TOOLS"

lemma tools_inv_frame:
  assumes "tools_inv dm" and "dm_tools dm' = dm_tools dm" and "dm_tool_waiters dm' = dm_tool_waiters dm"
    and "dm_executing dm' = dm_executing dm" and "dm_handlers dm' = dm_handlers dm"
  shows "tools_inv dm'"
  using assms by (simp add: tools_inv_def in_progress_def)

lemma ready_frame:
  assumes "ready t dm" and "dm_tools dm' = dm_tools dm" and "dm_tool_waiters dm' = dm_tool_waiters dm"
    and "dm_executing dm' = dm_executing dm" and "dm_handlers dm' = dm_handlers dm"
  shows "ready t dm'"
  using assms by (simp add: ready_def in_progress_def)

lemma ready_unknown: "tools_inv dm \<Longrightarrow> call_state (dm_tools dm) t = CallUnknown \<Longrightarrow> ready t dm"
  by (auto simp: tools_inv_def ready_def call_state_def split: if_splits)

lemma tools_inv_fail: "ready t dm \<Longrightarrow> tools_inv (fail_app_tool_call dm t c m)"
  by (simp add: ready_def tools_inv_def in_progress_def fail_app_tool_call_def tx_send_def mark_call_completed_def)

lemma tools_inv_execute:
  assumes "ready t dm"
  shows "tools_inv (validate_and_execute_app_tool parse_args dm t args ms)"
proof -
  have "tools_inv (dm\<lparr>dm_tools := mark_running (dm_tools dm\<lparr>tr_permits := tr_permits (dm_tools dm) - 1\<rparr>) t,
      dm_executing := dm_executing dm @ [(t, n)], dm_handlers := Suc (dm_handlers dm)\<rparr>)"
    if "tr_permits (dm_tools dm) \<noteq> 0" for n
    using assms that by (auto simp: ready_def tools_inv_def in_progress_def mark_running_def)
  with tools_inv_fail [OF assms] show ?thesis
    by (simp add: validate_and_execute_app_tool_def try_acquire_permit_def split: sum.split)
qed

lemma tools_inv_wait:
  assumes "ready t dm" and "dm_tools dm' = mark_running (dm_tools dm) t"
    and "dm_tool_waiters dm' = dm_tool_waiters dm @ [w]" and "at_tool_call_id (tw_request w) = t"
    and "dm_executing dm' = dm_executing dm" and "dm_handlers dm' = dm_handlers dm"
  shows "tools_inv dm'"
proof -
  define A B where "A = map (at_tool_call_id \<circ> tw_request) (dm_tool_waiters dm)" and "B = map fst (dm_executing dm)"
  have "in_progress dm = A @ B" "in_progress dm' = A @ [t] @ B"
    using assms by (simp_all add: in_progress_def A_def B_def)
  with assms(1,2,6) show ?thesis by (auto simp: ready_def tools_inv_def mark_running_def)
qed

lemma tools_inv_tool_request:
  assumes "tools_inv dm" and "handle_app_tool_request dbg parse_args dm now ms treq uid = Some dm'"
  shows "tools_inv dm'"
proof (cases "call_state (dm_tools dm) (at_tool_call_id treq) = CallUnknown \<and> lookup_tool (dm_tools dm) (at_name treq) \<noteq> None")
  case False
  have "tools_inv (tx_send dm x)" for x using assms(1) by (rule tools_inv_frame) (simp_all add: tx_send_def)
  with False assms show ?thesis
    by (cases "call_state (dm_tools dm) (at_tool_call_id treq)"; cases "lookup_tool (dm_tools dm) (at_name treq)")
      (auto simp: handle_app_tool_request_def Let_def)
next
  case True
  then obtain d where d: "call_state (dm_tools dm) (at_tool_call_id treq) = CallUnknown"
    "lookup_tool (dm_tools dm) (at_name treq) = Some (d, ())" by auto
  from assms(2) d obtain sm dec where g: "tool_gate dbg (dm_sessions dm) now d (at_name treq) uid = Some (sm, dec)"
    by (auto simp: handle_app_tool_request_def Let_def split: option.splits)
  from ready_unknown [OF assms(1) d(1)] have r: "ready (at_tool_call_id treq) (dm\<lparr>dm_sessions := sm\<rparr>)"
    by (rule ready_frame) simp_all
  show ?thesis
  proof (cases dec)
    case Allow
    with tools_inv_execute [OF r] assms(2) d g show ?thesis by (simp add: handle_app_tool_request_def Let_def) blast
  next
    case (Deny x)
    with assms d g show ?thesis
      by (auto simp: handle_app_tool_request_def Let_def tx_send_def intro: tools_inv_frame [OF assms(1)])
  next
    case (NeedsApproval reason rs)
    obtain am q ch where sub: "submit_with_timeout (dm_approvals dm) ms (synthetic_request treq) uid reason rs
        (min (am_default_timeout_ms (dm_approvals dm)) (clamp_timeout (at_timeout_ms treq))) = (am, q, ch)"
      by (metis prod_cases3)
    with assms(2) d g NeedsApproval show ?thesis
      by (intro tools_inv_wait [OF r]) (auto simp: handle_app_tool_request_def Let_def announce_approval_def tx_send_def)
  qed
qed

lemma tools_inv_tool_waiter:
  assumes "tools_inv dm" and "w \<in> set (dm_tool_waiters dm)"
  shows "tools_inv (tool_waiter_wakes parse_args (dm\<lparr>dm_tool_waiters := remove1 w (dm_tool_waiters dm)\<rparr>) w waited a)"
proof -
  let ?dm = "dm\<lparr>dm_tool_waiters := remove1 w (dm_tool_waiters dm)\<rparr>"
  let ?t = "at_tool_call_id (tw_request w)"
  from assms(2) obtain us vs where ws: "dm_tool_waiters dm = us @ w # vs" "w \<notin> set us" by (metis split_list_first)
  with assms(1) have r: "ready ?t ?dm"
    by (auto simp: tools_inv_def ready_def in_progress_def remove1_append)
  then have "ready ?t (?dm\<lparr>dm_approvals := am\<rparr>)" for am by (rule ready_frame) simp_all
  with r show ?thesis
    by (simp add: tool_waiter_wakes_def tools_inv_execute tools_inv_fail split: option.split)
qed

lemma tools_inv_job_waiter:
  assumes "tools_inv dm"
  shows "tools_inv (job_waiter_wakes (dm\<lparr>dm_job_waiters := ws\<rparr>) now ms w a)"
  using assms
  by (rule tools_inv_frame)
    (simp_all add: job_waiter_wakes_def spawn_job_def tx_send_def Let_def split: option.split)

lemma tools_inv_job_request:
  assumes "tools_inv dm" and "handle_job_request dbg dm now ms p req uid = Some dm'"
  shows "tools_inv dm'"
  using assms(1)
proof (rule tools_inv_frame)
qed (use assms(2) in \<open>auto simp: handle_job_request_def spawn_job_def tx_send_def announce_approval_def Let_def
    split: sum.splits if_splits IsKnown.splits option.splits prod.splits SessionDecision.splits\<close>)

lemma tools_inv_ends:
  assumes "tools_inv dm" and "(t, limit) \<in> set (dm_executing dm)"
  shows "tools_inv (execute_app_tool_ends dm t limit oc)"
proof -
  define A B where "A = map (at_tool_call_id \<circ> tw_request) (dm_tool_waiters dm)" and "B = map fst (dm_executing dm)"
  have "map fst (filter (\<lambda>e. fst e \<noteq> t) xs) = filter (\<lambda>x. x \<noteq> t) (map fst xs)" for xs :: "(string \<times> nat) list"
    by (induction xs) auto
  then have "in_progress dm = A @ B" "in_progress (execute_app_tool_ends dm t limit oc) = A @ filter (\<lambda>x. x \<noteq> t) B"
    by (simp_all add: in_progress_def A_def B_def execute_app_tool_ends_def Let_def tx_send_def)
  moreover from assms(2) have "t \<in> set B" unfolding B_def by force
  ultimately show ?thesis
    using assms(1) by (auto simp: tools_inv_def execute_app_tool_ends_def Let_def tx_send_def mark_call_completed_def)
qed

lemma tools_inv_send: "tools_inv dm \<Longrightarrow> tools_inv (tx_send dm x)"
  by (erule tools_inv_frame) (simp_all add: tx_send_def)

lemma tools_inv_query: "tools_inv dm \<Longrightarrow> tools_inv (handle_session_query dm now ms uid)"
proof -
  have "tools_inv (foldl (\<lambda>dm state. tx_send dm (PayloadSessionState state)) dm xs)" if "tools_inv dm" for xs
    using that by (induction xs arbitrary: dm) (simp_all add: tools_inv_send)
  then show "tools_inv dm \<Longrightarrow> ?thesis" unfolding handle_session_query_def by blast
qed

lemma tools_inv_step:
  assumes "daemon_step dbg parse_args dm ev dm'" and "tools_inv dm"
  shows "tools_inv dm'"
  using assms
proof (cases rule: daemon_step.cases)
  case (tools op)
  have "tr_running (tool_step rg op) = tr_running rg \<and> tr_permits (tool_step rg op) = tr_permits rg" for rg
    by (cases op) (auto simp: register_tool_def unregister_tool_def Let_def)
  with tools assms(2) show ?thesis by (simp add: tools_inv_def in_progress_def)
next
  case handler
  with assms(2) show ?thesis by (auto simp: tools_inv_def in_progress_def handler_ends_def release_permit_def)
next
  case (session_mode now ms uid m mins)
  with assms(2) show ?thesis
    by (auto simp: handle_set_session_mode_def tx_send_def split: option.splits intro: tools_inv_frame)
next
  case (approval now ms resp)
  with assms(2) show ?thesis
    by (auto simp: handle_approval_response_def split: prod.split intro: tools_inv_frame)
qed (auto intro: tools_inv_job_request tools_inv_tool_request tools_inv_job_waiter tools_inv_tool_waiter
    tools_inv_ends tools_inv_query tools_inv_frame simp: job_removed_def job_recorded_def)

lemma daemon_run_tools_inv:
  assumes "daemon_run dbg parse_args (daemon_new m s) h dm"
  shows "tools_inv dm"
  using assms
proof (induction rule: daemon_run.induct)
  case run_start
  then show ?case by (simp add: tools_inv_def in_progress_def daemon_new_def tool_registry_new_def)
next
  case (run_step h dm ev dm')
  then show ?case by (blast intro: tools_inv_step)
qed

subsection \<open>Requests in strict mode\<close>

definition strict_unknown :: "Daemon \<Rightarrow> string \<Rightarrow> JobRequest \<Rightarrow> bool" where
  "strict_unknown dm uid req \<longleftrightarrow>
     mode_of (dm_sessions dm) uid = Some Strict \<and> is_known (dm_registry dm) (jr_job_id req) = Unknown"

lemma strict_request:
  assumes "strict_unknown dm uid req" and "handle_job_request dbg dm now ms (Inr DefaultExec) req uid = Some dm'"
  shows "strict_unknown dm' uid req"
    and "dm_job_waiters dm' = dm_job_waiters dm @ [\<lparr> jw_channel = length (am_channels (dm_approvals dm)),
           jw_request = req, jw_caller_uid = uid, jw_provider = DefaultExec \<rparr>]"
    and "\<exists>x y z. dm_approvals dm' = fst (submit_with_timeout (dm_approvals dm) ms req uid x y z)"
proof -
  from assms(1) obtain c where c: "map_of (sm_sessions (dm_sessions dm)) uid = Some c" "cs_mode c = Strict"
    by (auto simp: strict_unknown_def mode_of_def)
  define sub where "sub = submit (dm_approvals dm) ms req uid (''strict mode: approval required for '' @ dbg (jr_tool req))
      (snd (get_refusals (dm_sessions dm) now (jr_tool req)))"
  have ch: "snd (snd sub) = length (am_channels (dm_approvals dm))"
    by (simp add: sub_def submit_def submit_with_timeout_def Let_def)
  have dm': "dm' = (let d = announce_approval (dm\<lparr>dm_sessions := fst (get_refusals (dm_sessions dm) now (jr_tool req))\<rparr>)
        (fst sub) (fst (snd sub))
      in d\<lparr>dm_job_waiters := dm_job_waiters d @ [\<lparr> jw_channel = snd (snd sub), jw_request = req, jw_caller_uid = uid,
        jw_provider = DefaultExec \<rparr>]\<rparr>)"
    using assms c by (simp add: sub_def strict_unknown_def handle_job_request_def check_def Let_def split: prod.splits)
  show "strict_unknown dm' uid req"
    using assms(1) by (simp add: dm' announce_approval_def tx_send_def Let_def strict_unknown_def mode_of_def get_refusals_def)
  show "dm_job_waiters dm' = dm_job_waiters dm @ [\<lparr> jw_channel = length (am_channels (dm_approvals dm)),
           jw_request = req, jw_caller_uid = uid, jw_provider = DefaultExec \<rparr>]"
    by (simp add: dm' ch announce_approval_def tx_send_def Let_def)
  have "dm_approvals dm' = fst sub" by (simp add: dm' announce_approval_def tx_send_def Let_def)
  then show "\<exists>x y z. dm_approvals dm' = fst (submit_with_timeout (dm_approvals dm) ms req uid x y z)"
    unfolding sub_def submit_def by blast
qed

lemma submit_pending:
  "\<exists>e. map_of (am_pending (fst (submit_with_timeout am ms req uid x y z))) (jr_job_id req) = Some e \<and>
     pa_result_tx e = length (am_channels am)"
  by (simp add: submit_with_timeout_def Let_def AList.update_conv')

lemma submit_fresh:
  "map_of (am_pending am) (jr_job_id req) = None \<Longrightarrow>
   am_channels (fst (submit_with_timeout am ms req uid x y z)) = am_channels am @ [Waiting]"
  by (simp add: submit_with_timeout_def Let_def)

lemma submit_again:
  "map_of (am_pending am) (jr_job_id req) = Some e \<Longrightarrow> am_channels am = cs @ [Waiting] \<Longrightarrow> pa_result_tx e = length cs \<Longrightarrow>
   am_channels (fst (submit_with_timeout am ms req uid x y z)) = cs @ [Closed, Waiting]"
  by (simp add: submit_with_timeout_def drop_sender_def Let_def nth_append list_update_append)

subsection \<open>A sample run\<close>

definition sample_tool :: AppToolDef where
  "sample_tool = \<lparr> ad_name = ''t'', ad_description = [], ad_schema_json = ''{}'', ad_schema_is_object = True,
     ad_requires_approval = False \<rparr>"

definition sample_started :: Daemon where
  "sample_started = the (do {
     dm \<leftarrow> handle_set_session_mode (daemon_new 60 60) 0 0 ''u'' 3 0;
     handle_job_request (\<lambda>s. s) dm 0 0 (Inr DefaultExec) sample_request ''u'' })"

definition sample_strict :: Daemon where
  "sample_strict = the (handle_set_session_mode (daemon_new 60 60) 0 0 ''u'' 1 0)"

lemma sample_strict:
  "strict_unknown sample_strict ''u'' req" "dm_job_waiters sample_strict = []" "dm_approvals sample_strict = approval_new 60"
  "handle_set_session_mode (daemon_new 60 60) 0 0 ''u'' 1 0 = Some sample_strict"
  "am_channels (approval_new 60) = []" "am_pending (approval_new 60) = []"
  by (simp_all add: sample_strict_def handle_set_session_mode_def set_mode_def decode_session_mode_def trust_expiry_def
      daemon_new_def strict_unknown_def mode_of_def is_known_def registry_new_def tx_send_def approval_new_def Let_def
      AList.update_conv')

lemma strict_accepts: "strict_unknown dm uid req \<Longrightarrow> \<exists>dm'. handle_job_request dbg dm now ms (Inr DefaultExec) req uid = Some dm'"
  by (auto simp: strict_unknown_def mode_of_def handle_job_request_def check_def Let_def split: prod.split)

section \<open>Properties\<close>

text \<open>
  C6. The session gate cannot be bypassed. In every run of the daemon, a job was started only if its
  request arrived and either the caller's session allowed it at that moment, or an approving answer
  arrived while that very request was pending; and an app tool executes only if its call arrived for
  a registered tool and either the session allowed it and the tool asks for no approval, or it was
  approved in the same sense.
\<close>

theorem work_authorised:
  assumes "daemon_run dbg parse_args (daemon_new m s) h dm"
  shows "(\<forall>req \<in> set (dm_started dm). job_authorised dbg h req) \<and>
         (\<forall>(t, limit) \<in> set (dm_executing dm). tool_authorised dbg h t)"
  using daemon_run_inv [OF assms] by (auto simp: daemon_inv_def)

theorem work_authorised_witness:
  "\<exists>h. daemon_run (\<lambda>s. s) (\<lambda>s. Inr True) (daemon_new 60 60) h sample_started \<and>
     sample_request \<in> set (dm_started sample_started) \<and> job_authorised (\<lambda>s. s) h sample_request"
proof -
  define dm0 where "dm0 = daemon_new 60 60"
  define dm1 where "dm1 = the (handle_set_session_mode dm0 0 0 ''u'' 3 0)"
  have 1: "handle_set_session_mode dm0 0 0 ''u'' 3 0 = Some dm1"
    by (simp add: dm0_def dm1_def handle_set_session_mode_def set_mode_def decode_session_mode_def trust_expiry_def Let_def)
  have dm1: "dm_registry dm1 = registry_new" "map_of (sm_sessions (dm_sessions dm1)) ''u'' \<noteq> None"
    "\<And>c. map_of (sm_sessions (dm_sessions dm1)) ''u'' = Some c \<Longrightarrow> cs_mode c = AutoAccept" "dm_started dm1 = []"
    using 1 by (auto simp: dm0_def daemon_new_def handle_set_session_mode_def set_mode_def decode_session_mode_def
        trust_expiry_def Let_def tx_send_def session_new_def)
  have 2: "handle_job_request (\<lambda>s. s) dm1 0 0 (Inr DefaultExec) sample_request ''u'' = Some sample_started"
    "dm_started sample_started = [sample_request]"
    using 1 dm1 by (auto simp: sample_started_def handle_job_request_def is_known_def registry_new_def check_def dm0_def
        spawn_job_def Let_def)
  have run: "daemon_run (\<lambda>s. s) (\<lambda>s. Inr True) dm0
      (([] @ [(dm0, EvSetMode 0 0 ''u'' 3 0)]) @ [(dm1, EvJobRequest 0 0 (Inr DefaultExec) sample_request ''u'')]) sample_started"
    by (intro run_step run_start session_mode job_request 1 2(1))
  from work_authorised [OF run [unfolded dm0_def]] 2(2) run show ?thesis unfolding dm0_def by auto
qed

text \<open>
  C7. App tool calls are tracked exactly. In every reachable state the calls marked running are those
  waiting for an approval or executing, each of them once, so that a duplicate request never starts a
  second execution and no call is stuck as running; and the handlers alive never exceed the four
  permits, whose count is exact.
\<close>

theorem tool_calls_tracked:
  assumes "daemon_run dbg parse_args (daemon_new m s) h dm"
  shows "tr_running (dm_tools dm) = set (in_progress dm) \<and> distinct (in_progress dm) \<and>
         dm_handlers dm = 4 - tr_permits (dm_tools dm) \<and> tr_permits (dm_tools dm) \<le> 4"
  using daemon_run_tools_inv [OF assms] by (auto simp: tools_inv_def MAX_CONCURRENT_APP_TOOLS_def)

theorem tool_calls_tracked_witness:
  "\<exists>h dm. daemon_run (\<lambda>s. s) (\<lambda>s. Inr True) (daemon_new 60 60) h dm \<and> in_progress dm = [''c''] \<and>
     tr_running (dm_tools dm) = {''c''} \<and> dm_handlers dm = 1"
proof -
  define dm0 where "dm0 = daemon_new 60 60"
  define dm1 where "dm1 = dm0\<lparr>dm_tools := tool_step (dm_tools dm0) (RegisterTool sample_tool)\<rparr>"
  define dm2 where "dm2 = the (handle_set_session_mode dm1 0 0 ''u'' 3 0)"
  let ?req = "\<lparr> at_tool_call_id = ''c'', at_name = ''t'', at_args_json = ''{}'', at_timeout_ms = 0 \<rparr>"
  define dm3 where "dm3 = the (handle_app_tool_request (\<lambda>s. s) (\<lambda>s. Inr True) dm2 0 0 ?req ''u'')"
  have 1: "handle_set_session_mode dm1 0 0 ''u'' 3 0 = Some dm2"
    by (simp add: dm2_def handle_set_session_mode_def set_mode_def decode_session_mode_def trust_expiry_def Let_def)
  have tool: "lookup_tool (dm_tools dm1) ''t'' = Some (\<lparr> td_name = ''t'', td_description = [], td_input_schema_json = ''{}'',
      td_requires_approval = False \<rparr>, ())" "dm_tool_waiters dm1 = []" "dm_executing dm1 = []" "dm_handlers dm1 = 0"
      "tr_permits (dm_tools dm1) = 4" "tr_running (dm_tools dm1) = {}" "tr_completed (dm_tools dm1) = []"
    by (simp_all add: dm1_def dm0_def daemon_new_def tool_registry_new_def register_tool_def valid_name_def valid_char_def
        sample_tool_def lookup_tool_def MAX_CONCURRENT_APP_TOOLS_def Let_def)
  have dm2: "dm_tools dm2 = dm_tools dm1" "dm_tool_waiters dm2 = []" "dm_executing dm2 = []" "dm_handlers dm2 = 0"
    "check (\<lambda>s. s) (dm_sessions dm2) 0 (''app:'' @ ''t'') ''u'' = Some (dm_sessions dm2, Allow)"
    using 1 tool by (auto simp: handle_set_session_mode_def set_mode_def decode_session_mode_def check_def
        trust_expiry_def Let_def tx_send_def AList.update_conv')
  have 2: "handle_app_tool_request (\<lambda>s. s) (\<lambda>s. Inr True) dm2 0 0 ?req ''u'' = Some dm3" "in_progress dm3 = [''c'']"
    using tool dm2 by (auto simp: dm3_def handle_app_tool_request_def call_state_def tool_gate_def Let_def
        validate_and_execute_app_tool_def try_acquire_permit_def in_progress_def)
  have 3: "tr_permits (dm_tools dm3) = 3"
    using 2 tool dm2 by (auto simp: dm3_def handle_app_tool_request_def call_state_def tool_gate_def Let_def
        validate_and_execute_app_tool_def try_acquire_permit_def mark_running_def)
  have "daemon_run (\<lambda>s. s) (\<lambda>s. Inr True) dm0 ([] @ [(dm0, EvTools (RegisterTool sample_tool))]) dm1"
    unfolding dm1_def by (rule run_step [OF run_start tools])
  from run_step [OF run_step [OF this session_mode [OF 1]] tool_request [OF 2(1)]]
  have run: "daemon_run (\<lambda>s. s) (\<lambda>s. Inr True) dm0 ((([] @ [(dm0, EvTools (RegisterTool sample_tool))]) @
      [(dm1, EvSetMode 0 0 ''u'' 3 0)]) @ [(dm2, EvToolRequest 0 0 ?req ''u'')]) dm3" .
  have "tr_running (dm_tools dm3) = {''c''}" "dm_handlers dm3 = 1"
    using tool_calls_tracked [OF run [unfolded dm0_def]] unfolding 2(2) 3 by simp_all
  with 2(2) run show ?thesis unfolding dm0_def by blast
qed

text \<open>
  A refused job leaves two refusals. When the user denies a pending job with a reason, the refusal
  is recorded by the code that applies the answer, and once more by the task that waited for it,
  although the handling of app tools leaves it to the former so as not to duplicate it.
\<close>

theorem denial_recorded_twice:
  assumes "daemon_run dbg parse_args (daemon_new m s) h dm" and "w \<in> set (dm_job_waiters dm)"
    and "am_channels (dm_approvals dm) ! jw_channel w = Waiting"
    and "ar_job_id resp = jr_job_id (jw_request w)" and "\<not> ar_approved resp" and "ar_reason resp \<noteq> []"
    and "dm1 = handle_approval_response dm now ms resp"
  shows "answer_of (dm_approvals dm1) (jw_channel w) = Some resp \<and>
    map (\<lambda>e. (re_tool e, re_reason e)) (sm_refusal_log (dm_sessions (job_waiter_wakes dm1 now' ms' w (Some resp)))) =
    map (\<lambda>e. (re_tool e, re_reason e)) (sm_refusal_log (dm_sessions dm)) @
      [(jr_tool (jw_request w), ar_reason resp), (jr_tool (jw_request w), ar_reason resp)]"
proof -
  from daemon_run_inv [OF assms(1)] have ok: "waits_ok h (dm_approvals dm) (waits dm)" by (simp add: daemon_inv_def)
  have wait: "(jw_channel w, jw_request w) \<in> waits dm" using assms(2) unfolding waits_def by blast
  from ok wait obtain ids where ids: "approval_inv ids (dm_approvals dm)" "jw_channel w < length ids" by (auto elim: waits_okE)
  with assms(3) obtain j e where e: "map_of (am_pending (dm_approvals dm)) j = Some e" "pa_result_tx e = jw_channel w"
    "jr_job_id (pa_request e) = j" and len: "jw_channel w < length (am_channels (dm_approvals dm))"
    unfolding approval_inv_def by metis
  from waits_ok_request [OF ok _ e(1)] wait e(2) have req: "pa_request e = jw_request w" by simp
  with e(1,3) assms(4) have p: "map_of (am_pending (dm_approvals dm)) (ar_job_id resp) = Some e" by simp
  have 1: "dm1 = dm\<lparr>dm_approvals := send_answer (dm_approvals dm\<lparr>am_pending := AList.delete (ar_job_id resp) (am_pending (dm_approvals dm))\<rparr>)
        (jw_channel w) resp, dm_sessions := record_refusal (dm_sessions dm) now ms (jr_tool (jw_request w)) (ar_reason resp)\<rparr>"
    using p req e(2) assms(5-7) by (simp add: handle_approval_response_def apply_approval_response_def resolve_approval_def Let_def)
  have "answer_of (dm_approvals dm1) (jw_channel w) = Some resp"
    using len assms(3) by (simp add: 1 answer_of_def send_answer_def)
  moreover have "sm_refusal_log (dm_sessions (job_waiter_wakes dm1 now' ms' w (Some resp))) =
      sm_refusal_log (record_refusal (dm_sessions dm1) now' ms' (jr_tool (jw_request w)) (ar_reason resp))"
    using assms(5,6) by (simp add: job_waiter_wakes_def Let_def tx_send_def)
  ultimately show ?thesis by (simp add: 1 record_refusal_def)
qed

theorem denial_recorded_twice_witness:
  "\<exists>dm w. dm_job_waiters dm = [w] \<and> jw_request w = sample_request \<and>
     (let resp = \<lparr> ar_job_id = ''j'', ar_approved = False, ar_remember = False, ar_reason = ''no'' \<rparr>
      in map (\<lambda>e. (re_tool e, re_reason e)) (sm_refusal_log (dm_sessions
           (job_waiter_wakes (handle_approval_response dm 1 1 resp) 2 2 w (Some resp)))) =
         map (\<lambda>e. (re_tool e, re_reason e)) (sm_refusal_log (dm_sessions dm)) @ [(''bash'', ''no''), (''bash'', ''no'')])"
proof -
  let ?resp = "\<lparr> ar_job_id = ''j'', ar_approved = False, ar_remember = False, ar_reason = ''no'' \<rparr>"
  obtain dm where 1: "handle_job_request (\<lambda>s. s) sample_strict 0 0 (Inr DefaultExec) sample_request ''u'' = Some dm"
    using strict_accepts [OF sample_strict(1)] by blast
  note r = strict_request [OF sample_strict(1) 1]
  have run: "daemon_run (\<lambda>s. s) (\<lambda>s. Inr True) (daemon_new 60 60) (([] @ [(daemon_new 60 60, EvSetMode 0 0 ''u'' 1 0)]) @
      [(sample_strict, EvJobRequest 0 0 (Inr DefaultExec) sample_request ''u'')]) dm"
    by (rule run_step [OF run_step [OF run_start session_mode [OF sample_strict(4)]] job_request [OF 1]])
  let ?w = "\<lparr> jw_channel = 0, jw_request = sample_request, jw_caller_uid = ''u'', jw_provider = DefaultExec \<rparr>"
  have w: "dm_job_waiters dm = [?w]" using r(2) by (simp add: sample_strict)
  have "am_channels (dm_approvals dm) = [Waiting]"
    using r(3) submit_fresh [of "dm_approvals sample_strict" sample_request] by (auto simp: sample_strict)
  with w have "?w \<in> set (dm_job_waiters dm)" "am_channels (dm_approvals dm) ! jw_channel ?w = Waiting"
    "ar_job_id ?resp = jr_job_id (jw_request ?w)" "\<not> ar_approved ?resp" "ar_reason ?resp \<noteq> []" "jr_tool (jw_request ?w) = ''bash''"
    by (simp_all add: sample_request_def)
  from denial_recorded_twice [OF run this(1-5) refl, of 1 1 2 2] this(6) have
    "map (\<lambda>e. (re_tool e, re_reason e)) (sm_refusal_log (dm_sessions
       (job_waiter_wakes (handle_approval_response dm 1 1 ?resp) 2 2 ?w (Some ?resp)))) =
     map (\<lambda>e. (re_tool e, re_reason e)) (sm_refusal_log (dm_sessions dm)) @ [(''bash'', ''no''), (''bash'', ''no'')]"
    by simp
  with w show ?thesis
    unfolding Let_def by (intro exI [of _ dm] exI [of _ ?w] conjI) (assumption, rule JobWaiter.select_convs, assumption)
qed

text \<open>
  A repeated request in strict mode makes the job unapprovable. While a job waits for an approval
  it is unknown to the registry, so the same request arriving again is submitted again. That closes
  the first task's channel; it reports a time-out at once and removes the pending entry, which by now
  is the second one's, so the second task is refused as well although nobody has answered.
\<close>

theorem duplicate_request_refused:
  assumes "daemon_run dbg parse_args (daemon_new m s) h dm" and "strict_unknown dm uid req"
    and "map_of (am_pending (dm_approvals dm)) (jr_job_id req) = None"
    and "handle_job_request dbg dm now ms (Inr DefaultExec) req uid = Some dm1"
    and "handle_job_request dbg dm1 now' ms' (Inr DefaultExec) req uid = Some dm2"
  shows "\<exists>w1 w2 dm3. dm_job_waiters dm2 = dm_job_waiters dm @ [w1, w2] \<and>
    jw_request w1 = req \<and> jw_request w2 = req \<and>
    dm3 = job_waiter_wakes dm2 now'' ms'' w1 (answer_of (dm_approvals dm2) (jw_channel w1)) \<and>
    dm_sent dm3 = dm_sent dm2 @ [PayloadJobRejected (jr_job_id req) ''approval timed out''] \<and>
    am_channels (dm_approvals dm2) ! jw_channel w2 = Waiting \<and>
    am_channels (dm_approvals dm3) ! jw_channel w2 = Closed \<and>
    map_of (am_pending (dm_approvals dm3)) (jr_job_id req) = None"
proof -
  let ?cs = "am_channels (dm_approvals dm)"
  define w1 w2 where "w1 = \<lparr> jw_channel = length ?cs, jw_request = req, jw_caller_uid = uid, jw_provider = DefaultExec \<rparr>"
    and "w2 = \<lparr> jw_channel = Suc (length ?cs), jw_request = req, jw_caller_uid = uid, jw_provider = DefaultExec \<rparr>"
  note r1 = strict_request [OF assms(2,4)]
  note r2 = strict_request [OF r1(1) assms(5)]
  obtain e1 where 1: "am_channels (dm_approvals dm1) = ?cs @ [Waiting]"
    "map_of (am_pending (dm_approvals dm1)) (jr_job_id req) = Some e1" "pa_result_tx e1 = length ?cs"
  proof -
    from r1(3) obtain x y z where am: "dm_approvals dm1 = fst (submit_with_timeout (dm_approvals dm) ms req uid x y z)" by blast
    from submit_pending [of "dm_approvals dm" ms req uid x y z] show thesis
      unfolding am [symmetric] using that submit_fresh [OF assms(3), of ms uid x y z, folded am] by blast
  qed
  obtain e2 where 2: "am_channels (dm_approvals dm2) = ?cs @ [Closed, Waiting]"
    "map_of (am_pending (dm_approvals dm2)) (jr_job_id req) = Some e2" "pa_result_tx e2 = Suc (length ?cs)"
  proof -
    from r2(3) obtain x y z where am: "dm_approvals dm2 = fst (submit_with_timeout (dm_approvals dm1) ms' req uid x y z)" by blast
    have "length (am_channels (dm_approvals dm1)) = Suc (length ?cs)" by (simp add: 1(1))
    with submit_pending [of "dm_approvals dm1" ms' req uid x y z] show thesis
      unfolding am [symmetric] using that submit_again [OF 1(2,1,3), of ms' uid x y z, folded am] by auto
  qed
  have w: "dm_job_waiters dm2 = dm_job_waiters dm @ [w1, w2]" "jw_request w1 = req" "jw_request w2 = req"
    "jw_channel w1 = length ?cs" "jw_channel w2 = Suc (length ?cs)"
    using r1(2) r2(2) 1(1) by (simp_all add: w1_def w2_def)
  have "answer_of (dm_approvals dm2) (jw_channel w1) = None"
    by (simp add: answer_of_def nth_append w 2(1))
  then have 3: "job_waiter_wakes dm2 now'' ms'' w1 (answer_of (dm_approvals dm2) (jw_channel w1)) =
      tx_send (dm2\<lparr>dm_approvals := fst (expire_approval (dm_approvals dm2) (jr_job_id req))\<rparr>)
        (PayloadJobRejected (jr_job_id req) ''approval timed out'')"
    by (simp add: job_waiter_wakes_def w Let_def)
  show ?thesis
    by (rule exI [of _ w1], rule exI [of _ w2], unfold 3)
      (simp add: w tx_send_def expire_approval_def 2 drop_sender_def nth_append delete_conv')
qed

theorem duplicate_request_refused_witness:
  "\<exists>dm1 dm2 w1 w2. handle_job_request (\<lambda>s. s) sample_strict 0 0 (Inr DefaultExec) sample_request ''u'' = Some dm1 \<and>
     handle_job_request (\<lambda>s. s) dm1 1 1 (Inr DefaultExec) sample_request ''u'' = Some dm2 \<and> dm_job_waiters dm2 = [w1, w2] \<and>
     am_channels (dm_approvals (job_waiter_wakes dm2 2 2 w1 (answer_of (dm_approvals dm2) (jw_channel w1)))) ! jw_channel w2 = Closed"
proof -
  obtain dm1 where 1: "handle_job_request (\<lambda>s. s) sample_strict 0 0 (Inr DefaultExec) sample_request ''u'' = Some dm1"
    using strict_accepts [OF sample_strict(1)] by blast
  obtain dm2 where 2: "handle_job_request (\<lambda>s. s) dm1 1 1 (Inr DefaultExec) sample_request ''u'' = Some dm2"
    using strict_accepts [OF strict_request(1) [OF sample_strict(1) 1]] by blast
  have run: "daemon_run (\<lambda>s. s) (\<lambda>s. Inr True) (daemon_new 60 60) ([] @ [(daemon_new 60 60, EvSetMode 0 0 ''u'' 1 0)]) sample_strict"
    by (rule run_step [OF run_start session_mode [OF sample_strict(4)]])
  have "map_of (am_pending (dm_approvals sample_strict)) (jr_job_id sample_request) = None" by (simp add: sample_strict)
  from duplicate_request_refused [OF run sample_strict(1) this 1 2, of 2 2] 1 2 show ?thesis by (auto simp: sample_strict)
qed

end
