(* ===== verification/Output_Stream.thy ===== *)
theory Output_Stream
  imports Prelude "HOL-Library.AList"
begin

text \<open>
  The output of a job, recorded and streamed to subscribers (\<^verbatim>\<open>ahand-hub/src/output_stream.rs\<close>): the
  in-memory backend with its bounded history and broadcast channel, the server-sent event stream
  with its resynchronisation events, and the terminal stream.

  A broadcast channel is the list of everything ever sent on it; a receiver is a position in that
  list and lags when more than the channel's capacity lies between it and the end. Recording an item
  and opening a subscription are sequences of steps, as other tasks may run in between. Output
  chunks are text already decoded; sequence numbers are natural numbers, as the 64-bit counter
  cannot wrap in any feasible run.
\<close>

section \<open>Definitions\<close>

datatype OutputItem = OStdout string | OStderr string | OProgress nat | OFinished int string

definition item_terminal :: "OutputItem \<Rightarrow> bool" where
  "item_terminal item \<longleftrightarrow> (case item of OFinished _ _ \<Rightarrow> True | _ \<Rightarrow> False)"

datatype OutputEvent = TermStdout string | TermStderr string | TermFinished int string

definition to_output_event :: "OutputItem \<Rightarrow> OutputEvent option" where
  "to_output_event item =
     (case item of
        OStdout chunk \<Rightarrow> Some (TermStdout chunk)
      | OStderr chunk \<Rightarrow> Some (TermStderr chunk)
      | OProgress _ \<Rightarrow> None
      | OFinished exit_code err \<Rightarrow> Some (TermFinished exit_code err))"

text \<open>A server-sent event: its id, its name and its data; the data of a finished event is a JSON object.\<close>

datatype sse_data = DataText string | DataFinished int string

datatype Event = SseEvent nat string sse_data | SseResync string

definition to_event :: "nat \<Rightarrow> OutputItem \<Rightarrow> Event" where
  "to_event seq item =
     (case item of
        OStdout chunk \<Rightarrow> SseEvent seq ''stdout'' (DataText chunk)
      | OStderr chunk \<Rightarrow> SseEvent seq ''stderr'' (DataText chunk)
      | OProgress progress \<Rightarrow> SseEvent seq ''progress'' (DataText (show_nat progress))
      | OFinished exit_code err \<Rightarrow> SseEvent seq ''finished'' (DataFinished exit_code err))"

type_synonym sequenced = "nat \<times> OutputItem"

record JobOutputState =
  os_history :: "sequenced list"
  os_sent :: "sequenced list"
  os_finished :: bool
  os_next_seq :: nat

definition output_state_new :: JobOutputState where
  "output_state_new = \<lparr> os_history = [], os_sent = [], os_finished = False, os_next_seq = 0 \<rparr>"

definition BROADCAST_CAPACITY :: nat where
  "BROADCAST_CAPACITY = 64"

record MemoryOutputStream =
  mo_jobs :: "(string \<times> JobOutputState) list"
  mo_max_history :: nat

definition memory_output_new :: "nat \<Rightarrow> MemoryOutputStream" where
  "memory_output_new max_history = \<lparr> mo_jobs = [], mo_max_history = max max_history 1 \<rparr>"

subsection \<open>Recording\<close>

text \<open>The steps of \<^verbatim>\<open>record\<close>: take a number, append to the history, set the flag, send.\<close>

definition rec_number :: "JobOutputState \<Rightarrow> OutputItem \<Rightarrow> JobOutputState \<times> sequenced" where
  "rec_number st item = (st\<lparr>os_next_seq := os_next_seq st + 1\<rparr>, (os_next_seq st + 1, item))"

definition rec_push :: "nat \<Rightarrow> JobOutputState \<Rightarrow> sequenced \<Rightarrow> JobOutputState" where
  "rec_push max_history st x =
     (let history = os_history st @ [x]
      in st\<lparr>os_history := (if max_history < length history then drop (length history - max_history) history else history)\<rparr>)"

definition rec_flag :: "JobOutputState \<Rightarrow> sequenced \<Rightarrow> JobOutputState" where
  "rec_flag st x = (if item_terminal (snd x) then st\<lparr>os_finished := True\<rparr> else st)"

definition rec_send :: "JobOutputState \<Rightarrow> sequenced \<Rightarrow> JobOutputState" where
  "rec_send st x = st\<lparr>os_sent := os_sent st @ [x]\<rparr>"

definition rec_item :: "nat \<Rightarrow> JobOutputState \<Rightarrow> OutputItem \<Rightarrow> JobOutputState" where
  "rec_item max_history st item =
     (let (st, x) = rec_number st item in rec_send (rec_flag (rec_push max_history st x) x) x)"

definition job_state :: "MemoryOutputStream \<Rightarrow> string \<Rightarrow> JobOutputState" where
  "job_state mo job_id = (case map_of (mo_jobs mo) job_id of None \<Rightarrow> output_state_new | Some st \<Rightarrow> st)"

definition record_output :: "MemoryOutputStream \<Rightarrow> string \<Rightarrow> OutputItem \<Rightarrow> MemoryOutputStream" where
  "record_output mo job_id item =
     mo\<lparr>mo_jobs := AList.update job_id (rec_item (mo_max_history mo) (job_state mo job_id) item) (mo_jobs mo)\<rparr>"

definition prime :: "MemoryOutputStream \<Rightarrow> string \<Rightarrow> MemoryOutputStream" where
  "prime mo job_id = mo\<lparr>mo_jobs := AList.update job_id (job_state mo job_id) (mo_jobs mo)\<rparr>"

text \<open>Some time after the terminal item the state of the job is dropped.\<close>

definition evict_finished :: "MemoryOutputStream \<Rightarrow> string \<Rightarrow> MemoryOutputStream" where
  "evict_finished mo job_id = mo\<lparr>mo_jobs := AList.delete job_id (mo_jobs mo)\<rparr>"

definition push_stdout :: "(bytes \<Rightarrow> string) \<Rightarrow> MemoryOutputStream \<Rightarrow> string \<Rightarrow> bytes \<Rightarrow> MemoryOutputStream" where
  "push_stdout lossy mo job_id chunk = record_output mo job_id (OStdout (lossy chunk))"

definition push_stderr :: "(bytes \<Rightarrow> string) \<Rightarrow> MemoryOutputStream \<Rightarrow> string \<Rightarrow> bytes \<Rightarrow> MemoryOutputStream" where
  "push_stderr lossy mo job_id chunk = record_output mo job_id (OStderr (lossy chunk))"

definition push_progress :: "MemoryOutputStream \<Rightarrow> string \<Rightarrow> nat \<Rightarrow> MemoryOutputStream" where
  "push_progress mo job_id progress = record_output mo job_id (OProgress progress)"

definition push_finished :: "MemoryOutputStream \<Rightarrow> string \<Rightarrow> int \<Rightarrow> string \<Rightarrow> MemoryOutputStream" where
  "push_finished mo job_id exit_code err = record_output mo job_id (OFinished exit_code err)"

subsection \<open>The event stream\<close>

datatype phase =
    Begin
  | Loaded
  | Subscribed
  | Replaying "sequenced list"
  | Live
  | Ended

record Subscriber =
  sb_from :: "nat option"
  sb_phase :: phase
  sb_finished :: bool
  sb_pos :: nat
  sb_last :: nat
  sb_out :: "Event list"

definition subscribe_from :: "nat option \<Rightarrow> Subscriber" where
  "subscribe_from last_event_id =
     \<lparr> sb_from = last_event_id, sb_phase = Begin, sb_finished = False, sb_pos = 0,
       sb_last = (case last_event_id of None \<Rightarrow> 0 | Some i \<Rightarrow> i), sb_out = [] \<rparr>"

definition needs_resync :: "sequenced list \<Rightarrow> nat option \<Rightarrow> bool" where
  "needs_resync history last_event_id =
     (case (history, last_event_id) of
        (x # _, Some i) \<Rightarrow> i + 1 < fst x
      | _ \<Rightarrow> False)"

definition yield_item :: "Subscriber \<Rightarrow> sequenced \<Rightarrow> phase \<Rightarrow> Subscriber" where
  "yield_item sb x next =
     sb\<lparr>sb_last := fst x, sb_out := sb_out sb @ [to_event (fst x) (snd x)],
        sb_phase := (if item_terminal (snd x) then Ended else next)\<rparr>"

definition sub_step :: "JobOutputState \<Rightarrow> Subscriber \<Rightarrow> Subscriber" where
  "sub_step st sb =
     (case sb_phase sb of
        Begin \<Rightarrow> sb\<lparr>sb_finished := os_finished st, sb_phase := Loaded\<rparr>
      | Loaded \<Rightarrow> sb\<lparr>sb_pos := length (os_sent st), sb_phase := Subscribed\<rparr>
      | Subscribed \<Rightarrow>
          sb\<lparr>sb_phase := Replaying (os_history st),
             sb_out := (if needs_resync (os_history st) (sb_from sb) then sb_out sb @ [SseResync ''history_trimmed''] else sb_out sb)\<rparr>
      | Replaying [] \<Rightarrow> sb\<lparr>sb_phase := (if sb_finished sb then Ended else Live)\<rparr>
      | Replaying (x # xs) \<Rightarrow>
          if fst x \<le> sb_last sb then sb\<lparr>sb_phase := Replaying xs\<rparr> else yield_item sb x (Replaying xs)
      | Live \<Rightarrow>
          if sb_pos sb + BROADCAST_CAPACITY < length (os_sent st)
          then sb\<lparr>sb_pos := length (os_sent st) - BROADCAST_CAPACITY, sb_out := sb_out sb @ [SseResync ''lagged'']\<rparr>
          else if sb_pos sb < length (os_sent st)
          then (let x = os_sent st ! sb_pos sb; sb = sb\<lparr>sb_pos := sb_pos sb + 1\<rparr>
                in if fst x \<le> sb_last sb then sb else yield_item sb x Live)
          else sb
      | Ended \<Rightarrow> sb)"

subsection \<open>The terminal stream\<close>

record TermSubscriber =
  ts_pos :: nat
  ts_finished :: bool
  ts_out :: "OutputEvent list"
  ts_ended :: bool

definition term_open :: "JobOutputState \<Rightarrow> TermSubscriber" where
  "term_open st = \<lparr> ts_pos = length (os_sent st), ts_finished = os_finished st, ts_out = [], ts_ended = False \<rparr>"

fun term_yield :: "sequenced list \<Rightarrow> OutputEvent list \<times> bool" where
  "term_yield [] = ([], False)"
| "term_yield (x # xs) =
     (case to_output_event (snd x) of
        None \<Rightarrow> term_yield xs
      | Some ev \<Rightarrow> if item_terminal (snd x) then ([ev], True) else (case term_yield xs of (evs, e) \<Rightarrow> (ev # evs, e)))"

definition term_replay :: "JobOutputState \<Rightarrow> TermSubscriber \<Rightarrow> TermSubscriber" where
  "term_replay st ts =
     (case term_yield (os_history st) of
        (evs, e) \<Rightarrow> ts\<lparr>ts_out := ts_out ts @ evs, ts_ended := e \<or> ts_finished ts\<rparr>)"

text \<open>One message of the live loop; lagged messages are skipped.\<close>

definition term_live :: "JobOutputState \<Rightarrow> TermSubscriber \<Rightarrow> TermSubscriber" where
  "term_live st ts =
     (if ts_ended ts \<or> length (os_sent st) \<le> ts_pos ts then ts
      else if ts_pos ts + BROADCAST_CAPACITY < length (os_sent st)
      then ts\<lparr>ts_pos := length (os_sent st) - BROADCAST_CAPACITY\<rparr>
      else
        (let x = os_sent st ! ts_pos ts
         in ts\<lparr>ts_pos := ts_pos ts + 1,
              ts_out := ts_out ts @ (case to_output_event (snd x) of None \<Rightarrow> [] | Some ev \<Rightarrow> [ev]),
              ts_ended := item_terminal (snd x)\<rparr>))"

subsection \<open>A producer and a subscriber together\<close>

text \<open>The records of one job come one after another; each is a sequence of steps.\<close>

datatype producer = PReady | PNumbered sequenced | PPushed sequenced | PFlagged sequenced

record StreamSystem =
  sx_state :: JobOutputState
  sx_producer :: producer
  sx_sub :: Subscriber

datatype stream_action = Produce OutputItem | Proceed | Consume

fun stream_step :: "nat \<Rightarrow> StreamSystem \<Rightarrow> stream_action \<Rightarrow> StreamSystem" where
  "stream_step m sx (Produce item) =
     (case sx_producer sx of
        PReady \<Rightarrow> (case rec_number (sx_state sx) item of (st, x) \<Rightarrow> sx\<lparr>sx_state := st, sx_producer := PNumbered x\<rparr>)
      | _ \<Rightarrow> sx)"
| "stream_step m sx Proceed =
     (case sx_producer sx of
        PReady \<Rightarrow> sx
      | PNumbered x \<Rightarrow> sx\<lparr>sx_state := rec_push m (sx_state sx) x, sx_producer := PPushed x\<rparr>
      | PPushed x \<Rightarrow> sx\<lparr>sx_state := rec_flag (sx_state sx) x, sx_producer := PFlagged x\<rparr>
      | PFlagged x \<Rightarrow> sx\<lparr>sx_state := rec_send (sx_state sx) x, sx_producer := PReady\<rparr>)"
| "stream_step m sx Consume = sx\<lparr>sx_sub := sub_step (sx_state sx) (sx_sub sx)\<rparr>"

definition run_stream :: "nat \<Rightarrow> StreamSystem \<Rightarrow> stream_action list \<Rightarrow> StreamSystem" where
  "run_stream m sx as = fold (\<lambda>a sx. stream_step m sx a) as sx"

definition stream_init :: "nat option \<Rightarrow> StreamSystem" where
  "stream_init from = \<lparr> sx_state = output_state_new, sx_producer = PReady, sx_sub = subscribe_from from \<rparr>"

text \<open>The items recorded by a schedule, in order.\<close>

fun produced :: "nat \<Rightarrow> StreamSystem \<Rightarrow> stream_action list \<Rightarrow> OutputItem list" where
  "produced m sx [] = []"
| "produced m sx (a # as) =
     (case (a, sx_producer sx) of (Produce item, PReady) \<Rightarrow> [item] | _ \<Rightarrow> []) @ produced m (stream_step m sx a) as"

subsection \<open>Specification\<close>

fun event_seq :: "Event \<Rightarrow> nat option" where
  "event_seq (SseEvent seq _ _) = Some seq"
| "event_seq (SseResync _) = None"

text \<open>Two items with no resynchronisation between them have consecutive numbers.\<close>

fun gapless :: "Event list \<Rightarrow> bool" where
  "gapless (x # y # xs) =
     ((case (event_seq x, event_seq y) of (Some a, Some b) \<Rightarrow> b = a + 1 | _ \<Rightarrow> True) \<and> gapless (y # xs))"
| "gapless _ = True"

definition item_seqs :: "Event list \<Rightarrow> nat list" where
  "item_seqs evs = List.map_filter event_seq evs"

definition start_seq :: "nat option \<Rightarrow> nat" where
  "start_seq from = (case from of None \<Rightarrow> 0 | Some i \<Rightarrow> i)"

text \<open>What a subscriber has been sent so far, given the items recorded so far.\<close>

definition out_ok :: "sequenced list \<Rightarrow> Subscriber \<Rightarrow> bool" where
  "out_ok L sb \<longleftrightarrow>
     sorted_wrt (<) (item_seqs (sb_out sb)) \<and> gapless (sb_out sb) \<and>
     (\<forall>e \<in> set (sb_out sb). event_seq e = None \<or> (\<exists>x \<in> set L. e = to_event (fst x) (snd x))) \<and>
     (\<forall>i. sb_from sb = Some i \<longrightarrow> (\<forall>n \<in> set (item_seqs (sb_out sb)). i < n) \<and>
        (sb_out sb \<noteq> [] \<longrightarrow> event_seq (hd (sb_out sb)) \<in> {None, Some (i + 1)})) \<and>
     sb_last sb = (if item_seqs (sb_out sb) = [] then start_seq (sb_from sb) else last (item_seqs (sb_out sb)))"

definition resynced :: "Subscriber \<Rightarrow> bool" where
  "resynced sb \<longleftrightarrow> sb_out sb \<noteq> [] \<and> event_seq (last (sb_out sb)) = None"

definition replaying_at :: "sequenced list \<Rightarrow> Subscriber \<Rightarrow> sequenced list \<Rightarrow> nat \<Rightarrow> nat \<Rightarrow> bool" where
  "replaying_at L sb xs j n \<longleftrightarrow>
     sb_pos sb \<le> n \<and> n \<le> length L \<and> j \<le> n \<and> xs = drop j (take n L) \<and>
     (j \<le> sb_last sb \<or> j < n \<and> sb_last sb < j + 1 \<and> (sb_out sb = [] \<and> sb_from sb = None \<or> resynced sb))"

definition phase_ok :: "sequenced list \<Rightarrow> nat \<Rightarrow> Subscriber \<Rightarrow> bool" where
  "phase_ok L sent sb =
     (case sb_phase sb of
        Begin \<Rightarrow> sb_out sb = []
      | Loaded \<Rightarrow> sb_out sb = []
      | Subscribed \<Rightarrow> sb_out sb = [] \<and> sb_pos sb \<le> sent
      | Replaying xs \<Rightarrow> sb_pos sb \<le> sent \<and> (\<exists>j n. replaying_at L sb xs j n)
      | Live \<Rightarrow> sb_pos sb \<le> sent \<and> (sb_pos sb \<le> sb_last sb \<or> resynced sb \<and> sb_pos sb < sent)
      | Ended \<Rightarrow> True)"

definition stream_inv :: "nat \<Rightarrow> StreamSystem \<Rightarrow> sequenced list \<Rightarrow> bool" where
  "stream_inv m sx L \<longleftrightarrow>
     map fst L = [1..<Suc (length L)] \<and> os_history (sx_state sx) = last_n m L \<and>
     (case sx_producer sx of
        PReady \<Rightarrow> os_next_seq (sx_state sx) = length L \<and> os_sent (sx_state sx) = L
      | PNumbered x \<Rightarrow> os_next_seq (sx_state sx) = Suc (length L) \<and> fst x = Suc (length L) \<and> os_sent (sx_state sx) = L
      | PPushed x \<Rightarrow> os_next_seq (sx_state sx) = length L \<and> os_sent (sx_state sx) @ [x] = L
      | PFlagged x \<Rightarrow> os_next_seq (sx_state sx) = length L \<and> os_sent (sx_state sx) @ [x] = L) \<and>
     out_ok L (sx_sub sx) \<and> phase_ok L (length (os_sent (sx_state sx))) (sx_sub sx)"

section \<open>Lemmas\<close>

lemma item_seqs_append [simp]: "item_seqs (xs @ ys) = item_seqs xs @ item_seqs ys"
  by (simp add: item_seqs_def map_filter_def)

lemma item_seqs_simps [simp]:
  "item_seqs [] = []" "item_seqs [to_event n i] = [n]" "item_seqs [SseResync r] = []"
  by (simp_all add: item_seqs_def map_filter_def to_event_def split: OutputItem.split)

lemma event_seq_to_event [simp]: "event_seq (to_event n i) = Some n"
  by (simp add: to_event_def split: OutputItem.split)

lemma gapless_append:
  "gapless (xs @ [y]) \<longleftrightarrow> gapless xs \<and>
     (xs = [] \<or> (case (event_seq (last xs), event_seq y) of (Some a, Some b) \<Rightarrow> b = a + 1 | _ \<Rightarrow> True))"
  by (induction xs rule: gapless.induct) auto

lemma last_item_seqs: "xs \<noteq> [] \<Longrightarrow> event_seq (last xs) = Some a \<Longrightarrow> item_seqs xs \<noteq> [] \<and> last (item_seqs xs) = a"
  by (induction xs rule: rev_induct) (auto simp: item_seqs_def map_filter_def)

lemma sorted_le_last: "sorted_wrt (<) (xs :: nat list) \<Longrightarrow> n \<in> set xs \<Longrightarrow> n \<le> last xs"
  by (induction xs) (auto simp: less_imp_le)

lemma out_ok_yield:
  assumes "out_ok L sb" and "x \<in> set L" and "sb_last sb < fst x"
    and "fst x = sb_last sb + 1 \<or> resynced sb \<or> sb_out sb = [] \<and> sb_from sb = None"
  shows "out_ok L (yield_item sb x p)"
proof -
  let ?D = "item_seqs (sb_out sb)"
  have last: "sb_last sb = (if ?D = [] then start_seq (sb_from sb) else last ?D)"
    and sorted: "sorted_wrt (<) ?D" using assms(1) by (auto simp: out_ok_def)
  have below: "n < fst x" if "n \<in> set ?D" for n
    using sorted_le_last [OF sorted that] last that assms(3) by (cases "?D = []") auto
  have "a = sb_last sb" if "sb_out sb \<noteq> []" "event_seq (last (sb_out sb)) = Some a" for a
    using last_item_seqs [OF that] last by simp
  then have "gapless (sb_out sb @ [to_event (fst x) (snd x)])"
    using assms(1,4) by (auto simp: gapless_append out_ok_def resynced_def split: option.splits)
  moreover have "i < fst x" if "sb_from sb = Some i" for i
  proof (cases "?D = []")
    case True
    with last that assms(3) show ?thesis by (simp add: start_seq_def)
  next
    case False
    then have "last ?D \<in> set ?D" by simp
    with assms(1) that have "i < last ?D" unfolding out_ok_def by blast
    with \<open>last ?D \<in> set ?D\<close> below show ?thesis by (meson less_trans)
  qed
  moreover have "fst x = i + 1" if "sb_from sb = Some i" "sb_out sb = []" for i
    using assms(4) that last by (auto simp: resynced_def start_seq_def)
  moreover have "sorted_wrt (<) (?D @ [fst x])" using sorted below by (simp add: sorted_wrt_append)
  ultimately show ?thesis
    using assms(1,2) unfolding out_ok_def yield_item_def
    by (intro conjI allI impI ballI) (auto simp: hd_append split: if_splits)
qed

lemma out_ok_resync:
  "out_ok L sb \<Longrightarrow> out_ok L (sb\<lparr>sb_pos := p, sb_phase := ph, sb_out := sb_out sb @ [SseResync r]\<rparr>)"
  by (auto simp: out_ok_def gapless_append hd_append split: option.splits)

lemma out_ok_frame: "out_ok L sb \<Longrightarrow> out_ok L (sb\<lparr>sb_phase := ph, sb_pos := p, sb_finished := f\<rparr>)"
  by (simp add: out_ok_def)

lemma seq_nth: "map fst L = [1..<Suc (length L)] \<Longrightarrow> i < length L \<Longrightarrow> fst (L ! i) = i + 1"
  using nth_map [of i L fst] by (simp del: upt_Suc)

lemma out_ok_mono: "out_ok L sb \<Longrightarrow> set L \<subseteq> set L' \<Longrightarrow> out_ok L' sb"
  unfolding out_ok_def by blast

lemma phase_ok_mono:
  assumes "phase_ok L k sb" and "k \<le> k'" and "L' = L @ xs"
  shows "phase_ok L' k' sb"
proof (cases "sb_phase sb")
  case (Replaying ys)
  with assms(1) obtain j n where "replaying_at L sb ys j n" "sb_pos sb \<le> k" by (auto simp: phase_ok_def)
  then have "replaying_at L' sb ys j n" "sb_pos sb \<le> k" by (auto simp: replaying_at_def assms(3))
  with assms(2) Replaying show ?thesis by (auto simp: phase_ok_def)
qed (use assms in \<open>auto simp: phase_ok_def\<close>)

lemma replaying_phase_ok:
  "sb_phase sb = Replaying xs \<Longrightarrow> replaying_at L sb xs j n \<Longrightarrow> sb_pos sb \<le> k \<Longrightarrow> phase_ok L k sb"
  by (auto simp: phase_ok_def)

lemma sub_step_ok:
  assumes L: "map fst L = [1..<Suc (length L)]" and st: "os_history st = last_n m L" "1 \<le> m" "os_sent st = take k L" "k \<le> length L"
    and inv: "out_ok L sb" "phase_ok L k sb"
  shows "out_ok L (sub_step st sb) \<and> phase_ok L k (sub_step st sb)"
proof (cases "sb_phase sb")
  case Begin
  with inv show ?thesis by (simp add: sub_step_def phase_ok_def out_ok_def)
next
  case Loaded
  with inv st show ?thesis by (simp add: sub_step_def phase_ok_def out_ok_def)
next
  case Ended
  with inv show ?thesis by (simp add: sub_step_def)
next
  case Subscribed
  let ?H = "last_n m L"
  have empty: "sb_out sb = []" "sb_pos sb \<le> k" using inv(2) Subscribed by (auto simp: phase_ok_def)
  have last: "sb_last sb = start_seq (sb_from sb)" using inv(1) empty by (simp add: out_ok_def)
  show ?thesis
  proof (cases "needs_resync ?H (sb_from sb)")
    case True
    then obtain x xs i where x: "?H = x # xs" "sb_from sb = Some i" "i + 1 < fst x"
      by (auto simp: needs_resync_def split: list.splits option.splits)
    have lt: "length L - m < length L" using x(1) by (cases "length L - m < length L") auto
    have "fst x = length L - m + 1" using seq_nth [OF L lt] hd_drop_conv_nth [OF lt] x(1) by simp
    with x last lt have "length L - m < length L \<and> sb_last sb < length L - m + 1" by (simp add: start_seq_def)
    then have "replaying_at L (sub_step st sb) ?H (length L - m) (length L)"
      using True empty st(1,4) Subscribed by (simp add: replaying_at_def sub_step_def resynced_def)
    moreover have "out_ok L (sub_step st sb)"
      using True st(1) Subscribed out_ok_resync [OF inv(1), where p = "sb_pos sb" and ph = "Replaying ?H" and r = "''history_trimmed''"]
      by (simp add: sub_step_def out_ok_def)
    ultimately show ?thesis
      using empty Subscribed st(1) by (auto intro!: replaying_phase_ok simp: sub_step_def)
  next
    case False
    have "length L - m \<le> sb_last sb \<or> length L - m < length L \<and> sb_last sb < length L - m + 1 \<and> sb_from sb = None"
    proof (cases "length L = 0")
      case False': False
      with st(2) have lt: "length L - m < length L" by simp
      have hd: "fst (hd ?H) = length L - m + 1" using seq_nth [OF L lt] hd_drop_conv_nth [OF lt] by simp
      have ne: "?H \<noteq> []" using lt by simp
      show ?thesis
      proof (cases "sb_from sb")
        case None
        with last lt show ?thesis by (simp add: start_seq_def)
      next
        case (Some i)
        with False ne hd last show ?thesis
          by (cases ?H) (auto simp: needs_resync_def start_seq_def)
      qed
    qed simp
    then have "replaying_at L (sub_step st sb) ?H (length L - m) (length L)"
      using False empty st(1,4) Subscribed by (auto simp: replaying_at_def sub_step_def)
    moreover have "out_ok L (sub_step st sb)"
      using False st(1) Subscribed inv(1) by (simp add: sub_step_def out_ok_def)
    ultimately show ?thesis
      using empty Subscribed st(1) False by (auto intro!: replaying_phase_ok simp: sub_step_def)
  qed
next
  case (Replaying ys)
  with inv(2) obtain j n where at: "replaying_at L sb ys j n" and "sb_pos sb \<le> k" by (auto simp: phase_ok_def)
  then have jn: "sb_pos sb \<le> n" "n \<le> length L" "j \<le> n" "ys = drop j (take n L)" "sb_pos sb \<le> k"
    and next': "j \<le> sb_last sb \<or> j < n \<and> sb_last sb < j + 1 \<and> (sb_out sb = [] \<and> sb_from sb = None \<or> resynced sb)"
    unfolding replaying_at_def by blast+
  show ?thesis
  proof (cases ys)
    case Nil
    with jn have "j = n" by simp
    with next' jn have "sb_pos sb \<le> sb_last sb" by linarith
    with inv(1) jn Nil Replaying show ?thesis by (auto simp: sub_step_def phase_ok_def out_ok_def)
  next
    case (Cons x xs)
    with jn have "j < n" by (cases "j < n") auto
    then have "drop j (take n L) = L ! j # drop (Suc j) (take n L)"
      using jn(2) Cons_nth_drop_Suc [of j "take n L"] by simp
    with jn(4) Cons have x: "x = L ! j" "xs = drop (Suc j) (take n L)" by simp_all
    with L \<open>j < n\<close> jn(2) have fx: "fst x = j + 1" "x \<in> set L" using seq_nth [of L j] by auto
    show ?thesis
    proof (cases "fst x \<le> sb_last sb")
      case True
      then have step: "sub_step st sb = sb\<lparr>sb_phase := Replaying xs\<rparr>" using Replaying Cons by (simp add: sub_step_def)
      have "replaying_at L (sub_step st sb) xs (Suc j) n"
        using jn x(2) fx True \<open>j < n\<close> by (simp add: step replaying_at_def)
      then have "phase_ok L k (sub_step st sb)" using jn(5) by (intro replaying_phase_ok) (simp_all add: step)
      with inv(1) show ?thesis by (simp add: step out_ok_def)
    next
      case False
      with next' fx have "fst x = sb_last sb + 1 \<or> resynced sb \<or> sb_out sb = [] \<and> sb_from sb = None" by auto
      from out_ok_yield [OF inv(1) fx(2) _ this] False have "out_ok L (yield_item sb x (Replaying xs))" by simp
      moreover have step: "sub_step st sb = yield_item sb x (Replaying xs)" using Replaying Cons False by (simp add: sub_step_def)
      moreover have "replaying_at L (sub_step st sb) xs (Suc j) n"
        using jn x(2) fx \<open>j < n\<close> by (simp add: step replaying_at_def yield_item_def)
      then have "phase_ok L k (sub_step st sb)"
        using jn(5) replaying_phase_ok [of "sub_step st sb" xs L "Suc j" n k] by (auto simp: step yield_item_def phase_ok_def)
      ultimately show ?thesis by simp
    qed
  qed
next
  case Live
  then have pos: "sb_pos sb \<le> k" "sb_pos sb \<le> sb_last sb \<or> resynced sb" using inv(2) by (auto simp: phase_ok_def)
  have len: "length (os_sent st) = k" using st(3,4) by simp
  consider "sb_pos sb + BROADCAST_CAPACITY < k" | "\<not> sb_pos sb + BROADCAST_CAPACITY < k" "sb_pos sb < k" | "\<not> sb_pos sb < k" by blast
  then show ?thesis
  proof cases
    case 1
    with Live len out_ok_resync [OF inv(1), where p = "k - BROADCAST_CAPACITY" and ph = Live and r = "''lagged''"] show ?thesis
      by (auto simp: sub_step_def phase_ok_def resynced_def out_ok_def BROADCAST_CAPACITY_def)
  next
    case 2
    define x where "x = os_sent st ! sb_pos sb"
    have x: "x = L ! sb_pos sb" "fst x = sb_pos sb + 1" "x \<in> set L"
      using 2(2) st(3,4) seq_nth [OF L, of "sb_pos sb"] by (auto simp: x_def)
    let ?sb = "sb\<lparr>sb_pos := sb_pos sb + 1\<rparr>"
    show ?thesis
    proof (cases "fst x \<le> sb_last sb")
      case True
      with Live len 2 inv(1) x show ?thesis
        by (auto simp: sub_step_def phase_ok_def out_ok_def x_def [symmetric] Let_def)
    next
      case False
      have "fst x = sb_last ?sb + 1 \<or> resynced ?sb \<or> sb_out ?sb = [] \<and> sb_from ?sb = None"
        using pos(2) False x(2) by (auto simp: resynced_def)
      moreover have "out_ok L ?sb" using inv(1) by (simp add: out_ok_def)
      ultimately have "out_ok L (yield_item ?sb x Live)" using out_ok_yield [of L ?sb x Live] x(3) False by simp
      with Live len 2 False x show ?thesis
        by (auto simp: sub_step_def phase_ok_def yield_item_def x_def [symmetric] Let_def)
    qed
  next
    case 3
    with Live len pos inv show ?thesis by (simp add: sub_step_def)
  qed
qed

lemma sent_prefix:
  assumes "stream_inv m sx L"
  shows "\<exists>k \<le> length L. os_sent (sx_state sx) = take k L \<and> length (os_sent (sx_state sx)) = k"
proof (cases "sx_producer sx")
  case (PPushed x)
  with assms have "os_sent (sx_state sx) @ [x] = L" by (simp add: stream_inv_def)
  then show ?thesis by (intro exI [of _ "length (os_sent (sx_state sx))"]) auto
next
  case (PFlagged x)
  with assms have "os_sent (sx_state sx) @ [x] = L" by (simp add: stream_inv_def)
  then show ?thesis by (intro exI [of _ "length (os_sent (sx_state sx))"]) auto
qed (use assms in \<open>auto simp: stream_inv_def\<close>)

lemma push_history: "os_history st = last_n m L \<Longrightarrow> os_history (rec_push m st x) = last_n m (L @ [x])"
  using last_n_append_single [where n = m and xs = L and x = x] by (auto simp: rec_push_def Let_def)

text \<open>The items recorded, with the one being recorded.\<close>

definition recorded_items :: "StreamSystem \<Rightarrow> sequenced list \<Rightarrow> OutputItem list" where
  "recorded_items sx L = map snd L @ (case sx_producer sx of PNumbered x \<Rightarrow> [snd x] | _ \<Rightarrow> [])"

lemma stream_inv_step:
  assumes "stream_inv m sx L" and "1 \<le> m"
  shows "\<exists>L'. stream_inv m (stream_step m sx a) L' \<and>
    recorded_items (stream_step m sx a) L' = recorded_items sx L @ produced m sx [a]"
proof (cases a)
  case (Produce item)
  with assms show ?thesis
    by (cases "sx_producer sx") (auto simp: stream_inv_def recorded_items_def rec_number_def intro!: exI [of _ L])
next
  case Consume
  obtain k where k: "k \<le> length L" "os_sent (sx_state sx) = take k L" "length (os_sent (sx_state sx)) = k"
    using sent_prefix [OF assms(1)] by blast
  have "out_ok L (sub_step (sx_state sx) (sx_sub sx)) \<and> phase_ok L k (sub_step (sx_state sx) (sx_sub sx))"
    using assms k by (intro sub_step_ok [where m = m]) (auto simp: stream_inv_def)
  with assms k(3) Consume show ?thesis
    by (intro exI [of _ L]) (cases "sx_producer sx"; simp add: stream_inv_def recorded_items_def del: upt_Suc)
next
  case Proceed
  show ?thesis
  proof (cases "sx_producer sx")
    case PReady
    with assms Proceed show ?thesis by (auto intro!: exI [of _ L])
  next
    case (PNumbered x)
    let ?L = "L @ [x]"
    have "out_ok L (sx_sub sx)" "phase_ok L (length L) (sx_sub sx)" using assms(1) PNumbered by (auto simp: stream_inv_def)
    then have "out_ok ?L (sx_sub sx)" "phase_ok ?L (length L) (sx_sub sx)"
      by (auto intro: out_ok_mono phase_ok_mono)
    then have "stream_inv m (stream_step m sx a) ?L"
      using assms PNumbered Proceed push_history [of "sx_state sx" L m x]
      by (simp add: stream_inv_def rec_push_def Let_def)
    with PNumbered Proceed show ?thesis by (intro exI [of _ ?L]) (simp add: recorded_items_def)
  next
    case (PPushed x)
    with assms Proceed show ?thesis
      by (auto simp: stream_inv_def recorded_items_def rec_flag_def intro!: exI [of _ L])
  next
    case (PFlagged x)
    with assms Proceed phase_ok_mono [of L "length (os_sent (sx_state sx))" "sx_sub sx" "length L" L "[]"] show ?thesis
      by (auto simp: stream_inv_def recorded_items_def rec_send_def intro!: exI [of _ L])
  qed
qed

lemma stream_inv_run:
  assumes "stream_inv m sx L" and "1 \<le> m"
  shows "\<exists>L'. stream_inv m (run_stream m sx as) L' \<and>
    recorded_items (run_stream m sx as) L' = recorded_items sx L @ produced m sx as"
  using assms(1)
proof (induction as arbitrary: sx L)
  case Nil
  then show ?case by (auto simp: run_stream_def)
next
  case (Cons a as)
  from stream_inv_step [OF Cons.prems assms(2)] obtain L1 where 1: "stream_inv m (stream_step m sx a) L1"
    "recorded_items (stream_step m sx a) L1 = recorded_items sx L @ produced m sx [a]" by blast
  from Cons.IH [OF 1(1)] obtain L2 where "stream_inv m (run_stream m (stream_step m sx a) as) L2"
    "recorded_items (run_stream m (stream_step m sx a) as) L2 = recorded_items (stream_step m sx a) L1 @ produced m (stream_step m sx a) as"
    by blast
  with 1(2) show ?case by (auto simp: run_stream_def)
qed

lemma stream_inv_init: "stream_inv m (stream_init from) []"
  by (auto simp: stream_inv_def stream_init_def output_state_new_def subscribe_from_def out_ok_def phase_ok_def start_seq_def
      split: option.split)

lemma seq_item: "map fst L = [1..<Suc (length L)] \<Longrightarrow> x \<in> set L \<Longrightarrow> 1 \<le> fst x \<and> fst x \<le> length L \<and> snd x = map snd L ! (fst x - 1)"
  using seq_nth [of L] by (auto simp: in_set_conv_nth)

lemma sb_from_run: "sb_from (sx_sub (run_stream m sx as)) = sb_from (sx_sub sx)"
proof (induction as arbitrary: sx)
  case (Cons a as)
  have "sb_from (sub_step st sb) = sb_from sb" for st sb
    by (simp add: sub_step_def yield_item_def Let_def split: phase.split list.split)
  then have "sb_from (sx_sub (stream_step m sx a)) = sb_from (sx_sub sx)"
    by (cases a; cases "sx_producer sx") (auto simp: rec_number_def)
  with Cons.IH [of "stream_step m sx a"] show ?case by (simp add: run_stream_def)
qed (simp add: run_stream_def)

subsection \<open>The end of a stream\<close>

fun event_terminal :: "Event \<Rightarrow> bool" where
  "event_terminal (SseEvent _ _ (DataFinished _ _)) = True"
| "event_terminal _ = False"

lemma event_terminal_to_event [simp]: "event_terminal (to_event n i) = item_terminal i"
  by (simp add: to_event_def item_terminal_def split: OutputItem.split)

definition open_ok :: "Subscriber \<Rightarrow> bool" where
  "open_ok sb \<longleftrightarrow> (sb_phase sb \<noteq> Ended \<longrightarrow> (\<forall>e \<in> set (sb_out sb). \<not> event_terminal e))"

lemma open_ok_step: "open_ok sb \<Longrightarrow> open_ok (sub_step st sb)"
  by (auto simp: open_ok_def sub_step_def yield_item_def Let_def split: phase.splits list.splits)

lemma open_ok_run:
  "open_ok (sx_sub sx) \<Longrightarrow> open_ok (sx_sub (run_stream m sx as))"
proof (induction as arbitrary: sx)
  case (Cons a as)
  have "open_ok (sx_sub (stream_step m sx a))"
    using Cons.prems by (cases a; cases "sx_producer sx") (auto simp: open_ok_step rec_number_def)
  from Cons.IH [OF this] show ?case by (simp add: run_stream_def)
qed (simp add: run_stream_def)

text \<open>The steps a subscriber needs at most when nothing more is recorded.\<close>

definition steps_left :: "JobOutputState \<Rightarrow> Subscriber \<Rightarrow> nat" where
  "steps_left st sb =
     (let live = length (os_sent st) + 1
      in case sb_phase sb of
           Begin \<Rightarrow> length (os_history st) + live + 4
         | Loaded \<Rightarrow> length (os_history st) + live + 3
         | Subscribed \<Rightarrow> length (os_history st) + live + 2
         | Replaying xs \<Rightarrow> length xs + live + 1
         | Live \<Rightarrow> live - sb_pos sb
         | Ended \<Rightarrow> 0)"

definition ending :: "nat \<Rightarrow> JobOutputState \<Rightarrow> sequenced list \<Rightarrow> Subscriber \<Rightarrow> bool" where
  "ending m st L sb \<longleftrightarrow>
     map fst L = [1..<Suc (length L)] \<and> os_history st = last_n m L \<and> 1 \<le> m \<and> os_sent st = L \<and>
     L \<noteq> [] \<and> item_terminal (snd (last L)) \<and> out_ok L sb \<and> phase_ok L (length L) sb \<and> open_ok sb \<and>
     start_seq (sb_from sb) < length L"

lemma ending_last:
  assumes "ending m st L sb" and "sb_phase sb \<noteq> Ended"
  shows "sb_last sb < length L"
proof (cases "item_seqs (sb_out sb) = []")
  case True
  with assms show ?thesis by (simp add: ending_def out_ok_def)
next
  case False
  let ?n = "sb_last sb"
  from False assms have "?n \<in> set (item_seqs (sb_out sb))" by (simp add: ending_def out_ok_def)
  then obtain e where e: "e \<in> set (sb_out sb)" "event_seq e = Some ?n"
    by (auto simp: item_seqs_def map_filter_def)
  with assms obtain x where x: "x \<in> set L" "e = to_event (fst x) (snd x)" by (fastforce simp: ending_def out_ok_def)
  with e have fx: "fst x = ?n" by simp
  have L: "map fst L = [1..<Suc (length L)]" "L \<noteq> []" using assms by (simp_all add: ending_def)
  from seq_item [OF L(1) x(1)] fx have n: "1 \<le> ?n" "?n \<le> length L" "snd x = map snd L ! (?n - 1)" by simp_all
  show ?thesis
  proof (rule ccontr)
    assume "\<not> ?thesis"
    with n have "?n = length L" by simp
    with n(3) L(2) have "snd x = snd (last L)" by (simp add: last_conv_nth)
    with assms x e(1) show False by (auto simp: ending_def open_ok_def)
  qed
qed

lemma ending_step:
  assumes "ending m st L sb" and "sb_phase sb \<noteq> Ended"
  shows "ending m st L (sub_step st sb) \<and> steps_left st (sub_step st sb) < steps_left st sb"
proof -
  note last = ending_last [OF assms]
  have a: "map fst L = [1..<Suc (length L)]" "os_history st = last_n m L" "1 \<le> m" "os_sent st = L" "L \<noteq> []"
    "item_terminal (snd (last L))" "out_ok L sb" "phase_ok L (length L) sb" "open_ok sb" "start_seq (sb_from sb) < length L"
    using assms(1) by (simp_all add: ending_def)
  have live: "sb_pos sb < length L" if "sb_phase sb = Live" using that a(8) last by (auto simp: phase_ok_def)
  have "out_ok L (sub_step st sb) \<and> phase_ok L (length L) (sub_step st sb)"
    using a by (intro sub_step_ok [where m = m]) simp_all
  moreover have "sb_from (sub_step st sb) = sb_from sb"
    by (simp add: sub_step_def yield_item_def Let_def split: phase.split list.split)
  moreover have "steps_left st (sub_step st sb) < steps_left st sb"
    using assms(2) a(4) live
    by (auto simp: steps_left_def sub_step_def yield_item_def BROADCAST_CAPACITY_def Let_def split: phase.splits list.splits)
  ultimately show ?thesis using a open_ok_step by (simp add: ending_def)
qed

lemma ending_ends: "ending m st L sb \<Longrightarrow> \<exists>k. sb_phase ((sub_step st ^^ k) sb) = Ended"
proof (induction "steps_left st sb" arbitrary: sb rule: less_induct)
  case less
  show ?case
  proof (cases "sb_phase sb = Ended")
    case True
    then show ?thesis by (intro exI [of _ 0]) simp
  next
    case False
    from ending_step [OF less.prems this] less.hyps obtain k where "sb_phase ((sub_step st ^^ k) (sub_step st sb)) = Ended" by blast
    then show ?thesis by (intro exI [of _ "Suc k"]) (simp add: funpow_swap1)
  qed
qed

lemma run_consume: "run_stream m sx (replicate k Consume) = sx\<lparr>sx_sub := (sub_step (sx_state sx) ^^ k) (sx_sub sx)\<rparr>"
  by (induction k arbitrary: sx) (simp_all add: run_stream_def funpow_swap1)

section \<open>Properties\<close>





text \<open>
  A terminal viewer may see output twice. The terminal stream subscribes to the channel before it
  copies the history and, unlike the event stream, does not compare numbers; an item recorded
  between the two is in both, and is delivered twice.
\<close>

theorem terminal_stream_duplicates:
  assumes "1 \<le> m" and "ts = term_open output_state_new" and "st = rec_item m output_state_new (OStdout chunk)"
  shows "ts_out (term_live st (term_replay st ts)) = [TermStdout chunk, TermStdout chunk]"
  using assms by (simp add: term_open_def output_state_new_def rec_item_def rec_number_def rec_push_def rec_flag_def rec_send_def
      item_terminal_def term_replay_def term_live_def to_output_event_def BROADCAST_CAPACITY_def)

theorem terminal_stream_duplicates_witness:
  "ts_out (term_live (rec_item 256 output_state_new (OStdout ''x''))
     (term_replay (rec_item 256 output_state_new (OStdout ''x'')) (term_open output_state_new))) = [TermStdout ''x'', TermStdout ''x'']"
  by (rule terminal_stream_duplicates [of 256, OF _ refl refl]) simp

end
