(* ===== verification/Device_Auth.thy ===== *)
theory Device_Auth
  imports Hub_Core "HOL-Library.Monad_Syntax"
begin

text \<open>
  How a device proves who it is: the signed hello message
  (\<^verbatim>\<open>build_hello_auth_payload\<close> in \<^verbatim>\<open>ahand-protocol/src/lib.rs\<close>, \<^verbatim>\<open>ahandd/src/device_identity.rs\<close> and
  \<^verbatim>\<open>build_hello_envelope\<close> in \<^verbatim>\<open>ahandd/src/ahand_client.rs\<close>), its verification
  (\<^verbatim>\<open>ahand-hub/src/auth.rs\<close>), the one-time bootstrap tokens (\<^verbatim>\<open>ahand-hub/src/bootstrap.rs\<close>), the
  in-memory device store (\<^verbatim>\<open>MemoryDeviceStore\<close> in \<^verbatim>\<open>ahand-hub/src/state.rs\<close>) and the handshake at
  the start of \<^verbatim>\<open>run_device_socket\<close>, which puts them together.

  The signature scheme of the ed25519 crate is given by its key validation and its verification
  function. A panic of the source (a field that does not fit its length prefix) is \<open>None\<close>.
\<close>

section \<open>Definitions\<close>

subsection \<open>The signed message\<close>

datatype Auth =
    Ed25519 bytes bytes u64
  | Bootstrap string bytes bytes u64

record Hello =
  he_version :: string
  he_hostname :: string
  he_os :: string
  he_capabilities :: "string list"
  he_last_ack :: u64
  he_auth :: "Auth option"

definition as_bytes :: "string \<Rightarrow> bytes" where
  "as_bytes s = map of_char s"

fun to_le_bytes :: "nat \<Rightarrow> nat \<Rightarrow> bytes" where
  "to_le_bytes 0 n = []"
| "to_le_bytes (Suc k) n = word_of_nat (n mod 256) # to_le_bytes k (n div 256)"

definition push_u32 :: "nat \<Rightarrow> bytes option" where
  "push_u32 n = (if n < 2 ^ 32 then Some (to_le_bytes 4 n) else None)"

definition push_field :: "bytes \<Rightarrow> bytes \<Rightarrow> bytes option" where
  "push_field payload v = do { len \<leftarrow> push_u32 (length v); Some (payload @ len @ v) }"

fun push_fields :: "bytes \<Rightarrow> string list \<Rightarrow> bytes option" where
  "push_fields payload [] = Some payload"
| "push_fields payload (v # vs) = do { payload \<leftarrow> push_field payload (as_bytes v); push_fields payload vs }"

definition build_hello_auth_payload :: "string \<Rightarrow> Hello \<Rightarrow> u64 \<Rightarrow> bytes \<Rightarrow> bytes option" where
  "build_hello_auth_payload device_id hello signed_at_ms challenge_nonce =
     do { let payload = as_bytes ''ahand-hub'' @ [0] @ as_bytes ''hello-auth'' @ [0];
          payload \<leftarrow> push_field payload (as_bytes device_id);
          payload \<leftarrow> push_field payload (as_bytes (he_version hello));
          payload \<leftarrow> push_field payload (as_bytes (he_hostname hello));
          payload \<leftarrow> push_field payload (as_bytes (he_os hello));
          count \<leftarrow> push_u32 (length (he_capabilities hello));
          payload \<leftarrow> push_fields (payload @ count) (he_capabilities hello);
          let payload = payload @ to_le_bytes 8 (unat (he_last_ack hello));
          let payload = payload @ to_le_bytes 8 (unat signed_at_ms);
          push_field payload challenge_nonce }"

subsection \<open>The daemon's side\<close>

text \<open>
  An identity holds a key pair and the time of its last signature; \<open>sign\<close> is the signing function
  of the ed25519 crate for the private key. A concurrent update of the stored time makes the loop
  of the source repeat; without one it ends in its first round.
\<close>

record DeviceIdentity =
  di_public_key :: bytes
  di_last_hello_signed_at_ms :: u64

definition next_hello_signed_at_ms :: "DeviceIdentity \<Rightarrow> u64 \<Rightarrow> DeviceIdentity \<times> u64" where
  "next_hello_signed_at_ms identity now_ms =
     (let nxt = max now_ms (saturating_add (di_last_hello_signed_at_ms identity) 1)
      in (identity\<lparr>di_last_hello_signed_at_ms := nxt\<rparr>, nxt))"

definition sign_hello :: "(bytes \<Rightarrow> bytes) \<Rightarrow> string \<Rightarrow> Hello \<Rightarrow> u64 \<Rightarrow> bytes \<Rightarrow> bytes option" where
  "sign_hello sign device_id hello signed_at_ms challenge_nonce =
     map_option sign (build_hello_auth_payload device_id hello signed_at_ms challenge_nonce)"

definition build_hello_with_capabilities ::
  "(bytes \<Rightarrow> bytes) \<Rightarrow> DeviceIdentity \<Rightarrow> u64 \<Rightarrow> string \<times> string \<times> string \<Rightarrow> string \<Rightarrow> u64 \<Rightarrow> string list \<Rightarrow> bytes \<Rightarrow>
   string option \<Rightarrow> (DeviceIdentity \<times> Hello) option" where
  "build_hello_with_capabilities sign identity now_ms host device_id last_ack capabilities challenge_nonce bearer_token =
     (let (identity, signed_at_ms) = next_hello_signed_at_ms identity now_ms;
          (version, hostname, os) = host;
          hello = \<lparr> he_version = version, he_hostname = hostname, he_os = os, he_capabilities = capabilities,
                    he_last_ack = last_ack, he_auth = None \<rparr>
      in case sign_hello sign device_id hello signed_at_ms challenge_nonce of
           None \<Rightarrow> None
         | Some signature \<Rightarrow>
             Some (identity, hello\<lparr>he_auth := Some (case bearer_token of
               Some token \<Rightarrow> Bootstrap token (di_public_key identity) signature signed_at_ms
             | None \<Rightarrow> Ed25519 (di_public_key identity) signature signed_at_ms)\<rparr>))"

subsection \<open>Bootstrap tokens\<close>

record BootstrapReservation =
  br_token :: string
  br_device_id :: string
  br_reservation_id :: string

record MemoryBootstrapToken =
  bt_device_id :: string
  bt_reservation_id :: "string option"

record MemoryBootstrapState =
  bs_by_token :: "(string \<times> MemoryBootstrapToken) list"
  bs_by_device :: "(string \<times> string) list"

definition bootstrap_new :: MemoryBootstrapState where
  "bootstrap_new = \<lparr> bs_by_token = [], bs_by_device = [] \<rparr>"

definition bootstrap_delete_device :: "MemoryBootstrapState \<Rightarrow> string \<Rightarrow> MemoryBootstrapState" where
  "bootstrap_delete_device bs device_id =
     (case map_of (bs_by_device bs) device_id of
        None \<Rightarrow> bs
      | Some token \<Rightarrow> \<lparr> bs_by_token = AList.delete token (bs_by_token bs),
                         bs_by_device = AList.delete device_id (bs_by_device bs) \<rparr>)"

text \<open>The four random tokens the loop may draw are given as \<open>draws\<close>.\<close>

fun issue_draw :: "MemoryBootstrapState \<Rightarrow> string \<Rightarrow> string list \<Rightarrow> MemoryBootstrapState \<times> (HubError + string)" where
  "issue_draw bs device_id [] = (bs, Inl (Internal ''failed to allocate unique bootstrap token''))"
| "issue_draw bs device_id (token # draws) =
     (if map_of (bs_by_token bs) token \<noteq> None then issue_draw bs device_id draws
      else (\<lparr> bs_by_token = AList.update token \<lparr> bt_device_id = device_id, bt_reservation_id = None \<rparr> (bs_by_token bs),
              bs_by_device = AList.update device_id token (bs_by_device bs) \<rparr>, Inr token))"

definition issue :: "MemoryBootstrapState \<Rightarrow> string \<Rightarrow> string list \<Rightarrow> MemoryBootstrapState \<times> (HubError + string)" where
  "issue bs device_id draws = issue_draw (bootstrap_delete_device bs device_id) device_id (take 4 draws)"

definition reserve ::
  "MemoryBootstrapState \<Rightarrow> string \<Rightarrow> string \<Rightarrow> string \<Rightarrow> MemoryBootstrapState \<times> BootstrapReservation option" where
  "reserve bs device_id token reservation_id =
     (case map_of (bs_by_token bs) token of
        None \<Rightarrow> (bs, None)
      | Some entry \<Rightarrow>
          if bt_device_id entry \<noteq> device_id \<or> bt_reservation_id entry \<noteq> None then (bs, None)
          else (bs\<lparr>bs_by_token := AList.update token (entry\<lparr>bt_reservation_id := Some reservation_id\<rparr>) (bs_by_token bs)\<rparr>,
                Some \<lparr> br_token = token, br_device_id = device_id, br_reservation_id = reservation_id \<rparr>))"

definition release :: "MemoryBootstrapState \<Rightarrow> BootstrapReservation \<Rightarrow> MemoryBootstrapState" where
  "release bs reservation =
     (case map_of (bs_by_token bs) (br_token reservation) of
        None \<Rightarrow> bs
      | Some entry \<Rightarrow>
          if bt_reservation_id entry = Some (br_reservation_id reservation)
          then bs\<lparr>bs_by_token := AList.update (br_token reservation) (entry\<lparr>bt_reservation_id := None\<rparr>) (bs_by_token bs)\<rparr>
          else bs)"

definition consume :: "MemoryBootstrapState \<Rightarrow> BootstrapReservation \<Rightarrow> MemoryBootstrapState" where
  "consume bs reservation =
     (let should_remove =
        (case map_of (bs_by_token bs) (br_token reservation) of
           None \<Rightarrow> False
         | Some entry \<Rightarrow> bt_device_id entry = br_device_id reservation \<and>
             bt_reservation_id entry = Some (br_reservation_id reservation))
      in if should_remove
         then \<lparr> bs_by_token = AList.delete (br_token reservation) (bs_by_token bs),
                bs_by_device = AList.delete (br_device_id reservation) (bs_by_device bs) \<rparr>
         else bs)"

subsection \<open>Verification of a hello\<close>

record VerifiedDeviceHello =
  vh_public_key :: bytes
  vh_signed_at_ms :: u64
  vh_auth_method :: string
  vh_allow_registration :: bool
  vh_bootstrap_reservation :: "BootstrapReservation option"

text \<open>The signature scheme and the settings of the hub.\<close>

record AuthConfig =
  ac_valid_key :: "bytes \<Rightarrow> bool"
  ac_verify :: "bytes \<Rightarrow> bytes \<Rightarrow> bytes \<Rightarrow> bool"
  ac_bootstrap_token :: string
  ac_bootstrap_device_id :: string
  ac_max_age_ms :: u64

definition validate_signed_at_ms :: "u64 \<Rightarrow> u64 \<Rightarrow> u64 \<Rightarrow> bool" where
  "validate_signed_at_ms now_ms signed_at_ms max_age_ms \<longleftrightarrow>
     \<not> (max_age_ms < saturating_sub now_ms signed_at_ms \<or> saturating_add now_ms max_age_ms < signed_at_ms)"

definition verify_signed_auth ::
  "AuthConfig \<Rightarrow> u64 \<Rightarrow> string \<Rightarrow> Hello \<Rightarrow> bytes \<Rightarrow> bytes \<Rightarrow> u64 \<Rightarrow> bytes \<Rightarrow> (HubError + bytes) option" where
  "verify_signed_auth cfg now_ms device_id hello public_key signature signed_at_ms challenge_nonce =
     (if \<not> validate_signed_at_ms now_ms signed_at_ms (ac_max_age_ms cfg) then Some (Inl Unauthorized)
      else if length public_key \<noteq> 32 then Some (Inl InvalidSignature)
      else if length signature \<noteq> 64 then Some (Inl InvalidSignature)
      else if \<not> ac_valid_key cfg public_key then Some (Inl InvalidSignature)
      else (case build_hello_auth_payload device_id hello signed_at_ms challenge_nonce of
              None \<Rightarrow> None
            | Some payload \<Rightarrow>
                Some (if ac_verify cfg public_key payload signature then Inr public_key else Inl InvalidSignature)))"

definition verify_device_hello ::
  "AuthConfig \<Rightarrow> MemoryBootstrapState \<Rightarrow> u64 \<Rightarrow> string \<Rightarrow> string \<Rightarrow> Hello \<Rightarrow> bytes \<Rightarrow>
   (MemoryBootstrapState \<times> (HubError + VerifiedDeviceHello)) option" where
  "verify_device_hello cfg bs now_ms reservation_id device_id hello challenge_nonce =
     (case he_auth hello of
        None \<Rightarrow> Some (bs, Inl Unauthorized)
      | Some (Ed25519 public_key signature signed_at_ms) \<Rightarrow>
          (case verify_signed_auth cfg now_ms device_id hello public_key signature signed_at_ms challenge_nonce of
             None \<Rightarrow> None
           | Some (Inl e) \<Rightarrow> Some (bs, Inl e)
           | Some (Inr public_key) \<Rightarrow>
               Some (bs, Inr \<lparr> vh_public_key = public_key, vh_signed_at_ms = signed_at_ms, vh_auth_method = ''ed25519'',
                               vh_allow_registration = False, vh_bootstrap_reservation = None \<rparr>))
      | Some (Bootstrap bearer_token public_key signature signed_at_ms) \<Rightarrow>
          (case verify_signed_auth cfg now_ms device_id hello public_key signature signed_at_ms challenge_nonce of
             None \<Rightarrow> None
           | Some (Inl e) \<Rightarrow> Some (bs, Inl e)
           | Some (Inr public_key) \<Rightarrow>
               if bearer_token = ac_bootstrap_token cfg \<and> device_id = ac_bootstrap_device_id cfg
               then Some (bs, Inr \<lparr> vh_public_key = public_key, vh_signed_at_ms = signed_at_ms, vh_auth_method = ''bootstrap'',
                                    vh_allow_registration = True, vh_bootstrap_reservation = None \<rparr>)
               else (case reserve bs device_id bearer_token reservation_id of
                       (bs, Some reservation) \<Rightarrow>
                         Some (bs, Inr \<lparr> vh_public_key = public_key, vh_signed_at_ms = signed_at_ms,
                                         vh_auth_method = ''bootstrap'', vh_allow_registration = True,
                                         vh_bootstrap_reservation = Some reservation \<rparr>)
                     | (bs, None) \<Rightarrow> Some (bs, Inl Unauthorized))))"

subsection \<open>The in-memory device store\<close>

record Device =
  dv_id :: string
  dv_public_key :: "bytes option"
  dv_hostname :: string
  dv_os :: string
  dv_capabilities :: "string list"
  dv_version :: "string option"
  dv_auth_method :: string
  dv_online :: bool
  dv_external_user_id :: "string option"

record NewDevice =
  nd_id :: string
  nd_public_key :: "bytes option"
  nd_hostname :: string
  nd_os :: string
  nd_capabilities :: "string list"
  nd_version :: "string option"
  nd_auth_method :: string
  nd_external_user_id :: "string option"

record StoredDevice =
  sd_device :: Device
  sd_last_signed_at_ms :: u64

type_synonym MemoryDeviceStore = "(string \<times> StoredDevice) list"

definition device_insert :: "MemoryDeviceStore \<Rightarrow> NewDevice \<Rightarrow> MemoryDeviceStore \<times> (HubError + Device)" where
  "device_insert ds nd =
     (case map_of ds (nd_id nd) of
        Some _ \<Rightarrow> (ds, Inl (DeviceAlreadyExists (nd_id nd)))
      | None \<Rightarrow>
          (let device = \<lparr> dv_id = nd_id nd, dv_public_key = nd_public_key nd, dv_hostname = nd_hostname nd, dv_os = nd_os nd,
                          dv_capabilities = nd_capabilities nd, dv_version = nd_version nd, dv_auth_method = nd_auth_method nd,
                          dv_online = False, dv_external_user_id = nd_external_user_id nd \<rparr>
           in (AList.update (nd_id nd) \<lparr> sd_device = device, sd_last_signed_at_ms = 0 \<rparr> ds, Inr device)))"

definition device_get :: "MemoryDeviceStore \<Rightarrow> string \<Rightarrow> Device option" where
  "device_get ds device_id = map_option sd_device (map_of ds device_id)"

definition device_list :: "MemoryDeviceStore \<Rightarrow> Device list" where
  "device_list ds = sort_key dv_id (map (sd_device \<circ> snd) ds)"

definition device_delete :: "MemoryDeviceStore \<Rightarrow> string \<Rightarrow> MemoryDeviceStore" where
  "device_delete ds device_id = AList.delete device_id ds"

definition pre_register :: "MemoryDeviceStore \<Rightarrow> string \<Rightarrow> bytes \<Rightarrow> string \<Rightarrow> MemoryDeviceStore \<times> (HubError + Device)" where
  "pre_register ds device_id public_key external_user_id =
     (case map_of ds device_id of
        Some stored \<Rightarrow>
          (case dv_external_user_id (sd_device stored) of
             Some existing_user \<Rightarrow>
               if existing_user \<noteq> external_user_id
               then (ds, Inl (DeviceOwnedByDifferentUser device_id existing_user))
               else (let device = (sd_device stored)\<lparr>dv_public_key := Some public_key, dv_external_user_id := Some external_user_id\<rparr>
                     in (AList.update device_id (stored\<lparr>sd_device := device\<rparr>) ds, Inr device))
           | None \<Rightarrow>
               (let device = (sd_device stored)\<lparr>dv_public_key := Some public_key, dv_external_user_id := Some external_user_id\<rparr>
                in (AList.update device_id (stored\<lparr>sd_device := device\<rparr>) ds, Inr device)))
      | None \<Rightarrow>
          (let device = \<lparr> dv_id = device_id, dv_public_key = Some public_key, dv_hostname = ''pending-device'',
                          dv_os = ''unknown'', dv_capabilities = [], dv_version = None, dv_auth_method = ''preregistered'',
                          dv_online = False, dv_external_user_id = Some external_user_id \<rparr>
           in (AList.update device_id \<lparr> sd_device = device, sd_last_signed_at_ms = 0 \<rparr> ds, Inr device)))"

definition delete_device :: "MemoryDeviceStore \<Rightarrow> string \<Rightarrow> MemoryDeviceStore \<times> bool" where
  "delete_device ds device_id = (AList.delete device_id ds, map_of ds device_id \<noteq> None)"

definition list_by_external_user :: "MemoryDeviceStore \<Rightarrow> string \<Rightarrow> Device list" where
  "list_by_external_user ds external_user_id =
     sort_key dv_id (filter (\<lambda>device. dv_external_user_id device = Some external_user_id) (map (sd_device \<circ> snd) ds))"

definition set_online :: "MemoryDeviceStore \<Rightarrow> string \<Rightarrow> bool \<Rightarrow> MemoryDeviceStore" where
  "set_online ds device_id online =
     (case map_of ds device_id of
        None \<Rightarrow> ds
      | Some stored \<Rightarrow> AList.update device_id (stored\<lparr>sd_device := (sd_device stored)\<lparr>dv_online := online\<rparr>\<rparr>) ds)"

definition mark_online :: "MemoryDeviceStore \<Rightarrow> string \<Rightarrow> HubError + MemoryDeviceStore" where
  "mark_online ds device_id =
     (if map_of ds device_id = None then Inl (DeviceNotFound device_id) else Inr (set_online ds device_id True))"

definition mark_offline :: "MemoryDeviceStore \<Rightarrow> string \<Rightarrow> HubError + MemoryDeviceStore" where
  "mark_offline ds device_id =
     (let ds = set_online ds device_id False
      in if map_of ds device_id \<noteq> None then Inr ds else Inl (DeviceNotFound device_id))"

definition accept_verified_hello ::
  "MemoryDeviceStore \<Rightarrow> string \<Rightarrow> Hello \<Rightarrow> VerifiedDeviceHello \<Rightarrow> MemoryDeviceStore \<times> (HubError + Device)" where
  "accept_verified_hello ds device_id hello verified =
     (case map_of ds device_id of
        None \<Rightarrow> (ds, Inl Unauthorized)
      | Some stored \<Rightarrow>
          (let keyed =
             (case (vh_allow_registration verified, dv_public_key (sd_device stored)) of
                (True, None) \<Rightarrow> Some (stored\<lparr>sd_device := (sd_device stored)\<lparr>dv_public_key := Some (vh_public_key verified)\<rparr>\<rparr>)
              | (False, Some existing_key) \<Rightarrow> if existing_key = vh_public_key verified then Some stored else None
              | _ \<Rightarrow> None)
           in case keyed of
                None \<Rightarrow> (ds, Inl Unauthorized)
              | Some stored \<Rightarrow>
                  if vh_signed_at_ms verified \<le> sd_last_signed_at_ms stored
                  then (AList.update device_id stored ds, Inl Unauthorized)
                  else (let device = (sd_device stored)\<lparr>dv_hostname := he_hostname hello, dv_os := he_os hello,
                              dv_capabilities := he_capabilities hello, dv_version := Some (he_version hello),
                              dv_auth_method := vh_auth_method verified\<rparr>
                        in (AList.update device_id \<lparr> sd_device = device, sd_last_signed_at_ms = vh_signed_at_ms verified \<rparr> ds,
                            Inr device))))"

subsection \<open>The handshake\<close>

text \<open>
  The hub sends a challenge, waits for the hello, verifies it, asks the device store to accept
  it, and consumes or releases the token it reserved; other sockets and the administrative
  interface run in between. \<open>hub_auth_op\<close> lists these steps. \<open>ha_accepted\<close> records what was accepted.
\<close>

datatype handshake_state =
    HsChallenged
  | HsVerified string Hello VerifiedDeviceHello
  | HsAccepted "BootstrapReservation option"
  | HsFailed "BootstrapReservation option"
  | HsClosed

record Accepted =
  ap_device_id :: string
  ap_hello :: Hello
  ap_verified :: VerifiedDeviceHello
  ap_nonce :: bytes

record HubAuth =
  ha_devices :: MemoryDeviceStore
  ha_tokens :: MemoryBootstrapState
  ha_handshakes :: "(bytes \<times> handshake_state) list"
  ha_accepted :: "Accepted list"

definition hub_auth_new :: HubAuth where
  "hub_auth_new = \<lparr> ha_devices = [], ha_tokens = bootstrap_new, ha_handshakes = [], ha_accepted = [] \<rparr>"

datatype hub_auth_op =
    IssueChallenge bytes
  | HelloArrives nat u64 string string Hello
  | AcceptHello nat
  | EndHandshake nat
  | CreateDevice NewDevice
  | IssueToken string "string list"
  | PreRegister string bytes string
  | DeleteDevice string
  | DeleteTokens string
  | SetOnline string bool

definition set_handshake :: "HubAuth \<Rightarrow> nat \<Rightarrow> handshake_state \<Rightarrow> HubAuth" where
  "set_handshake ha n hs = ha\<lparr>ha_handshakes := (ha_handshakes ha)[n := (fst (ha_handshakes ha ! n), hs)]\<rparr>"

definition hello_arrives :: "AuthConfig \<Rightarrow> HubAuth \<Rightarrow> nat \<Rightarrow> u64 \<Rightarrow> string \<Rightarrow> string \<Rightarrow> Hello \<Rightarrow> HubAuth" where
  "hello_arrives cfg ha n now_ms reservation_id device_id hello =
     (if n < length (ha_handshakes ha) \<and> snd (ha_handshakes ha ! n) = HsChallenged
      then (case verify_device_hello cfg (ha_tokens ha) now_ms reservation_id device_id hello (fst (ha_handshakes ha ! n)) of
              None \<Rightarrow> set_handshake ha n HsClosed
            | Some (bs, Inl _) \<Rightarrow> set_handshake (ha\<lparr>ha_tokens := bs\<rparr>) n HsClosed
            | Some (bs, Inr verified) \<Rightarrow> set_handshake (ha\<lparr>ha_tokens := bs\<rparr>) n (HsVerified device_id hello verified))
      else ha)"

definition accept_hello :: "HubAuth \<Rightarrow> nat \<Rightarrow> HubAuth" where
  "accept_hello ha n =
     (if n < length (ha_handshakes ha)
      then (case ha_handshakes ha ! n of
              (nonce, HsVerified device_id hello verified) \<Rightarrow>
                (case accept_verified_hello (ha_devices ha) device_id hello verified of
                   (ds, Inl _) \<Rightarrow> set_handshake (ha\<lparr>ha_devices := ds\<rparr>) n (HsFailed (vh_bootstrap_reservation verified))
                 | (ds, Inr _) \<Rightarrow>
                     set_handshake (ha\<lparr>ha_devices := ds,
                         ha_accepted := ha_accepted ha @
                           [\<lparr> ap_device_id = device_id, ap_hello = hello, ap_verified = verified, ap_nonce = nonce \<rparr>]\<rparr>)
                       n (HsAccepted (vh_bootstrap_reservation verified)))
            | _ \<Rightarrow> ha)
      else ha)"

text \<open>An accepted handshake consumes its reservation; a failed one releases it.\<close>

definition end_handshake :: "HubAuth \<Rightarrow> nat \<Rightarrow> HubAuth" where
  "end_handshake ha n =
     (if n < length (ha_handshakes ha)
      then (case snd (ha_handshakes ha ! n) of
              HsAccepted (Some reservation) \<Rightarrow> set_handshake (ha\<lparr>ha_tokens := consume (ha_tokens ha) reservation\<rparr>) n HsClosed
            | HsFailed (Some reservation) \<Rightarrow> set_handshake (ha\<lparr>ha_tokens := release (ha_tokens ha) reservation\<rparr>) n HsClosed
            | HsAccepted None \<Rightarrow> set_handshake ha n HsClosed
            | HsFailed None \<Rightarrow> set_handshake ha n HsClosed
            | _ \<Rightarrow> ha)
      else ha)"

fun hub_auth_step :: "AuthConfig \<Rightarrow> HubAuth \<Rightarrow> hub_auth_op \<Rightarrow> HubAuth" where
  "hub_auth_step cfg ha (IssueChallenge nonce) = ha\<lparr>ha_handshakes := ha_handshakes ha @ [(nonce, HsChallenged)]\<rparr>"
| "hub_auth_step cfg ha (HelloArrives n now_ms reservation_id device_id hello) =
     hello_arrives cfg ha n now_ms reservation_id device_id hello"
| "hub_auth_step cfg ha (AcceptHello n) = accept_hello ha n"
| "hub_auth_step cfg ha (EndHandshake n) = end_handshake ha n"
| "hub_auth_step cfg ha (CreateDevice nd) = ha\<lparr>ha_devices := fst (device_insert (ha_devices ha) nd)\<rparr>"
| "hub_auth_step cfg ha (IssueToken device_id draws) = ha\<lparr>ha_tokens := fst (issue (ha_tokens ha) device_id draws)\<rparr>"
| "hub_auth_step cfg ha (PreRegister device_id public_key user) =
     ha\<lparr>ha_devices := fst (pre_register (ha_devices ha) device_id public_key user)\<rparr>"
| "hub_auth_step cfg ha (DeleteDevice device_id) = ha\<lparr>ha_devices := fst (delete_device (ha_devices ha) device_id)\<rparr>"
| "hub_auth_step cfg ha (DeleteTokens device_id) = ha\<lparr>ha_tokens := bootstrap_delete_device (ha_tokens ha) device_id\<rparr>"
| "hub_auth_step cfg ha (SetOnline device_id online) = ha\<lparr>ha_devices := set_online (ha_devices ha) device_id online\<rparr>"

definition run_hub_auth :: "AuthConfig \<Rightarrow> HubAuth \<Rightarrow> hub_auth_op list \<Rightarrow> HubAuth" where
  "run_hub_auth cfg = foldl (hub_auth_step cfg)"

subsection \<open>Specification\<close>

definition same_content :: "Hello \<Rightarrow> Hello \<Rightarrow> bool" where
  "same_content h h' \<longleftrightarrow> h\<lparr>he_auth := None\<rparr> = h'\<lparr>he_auth := None\<rparr>"

text \<open>The operations that give a device a new record or a new key.\<close>

fun administers :: "string \<Rightarrow> hub_auth_op \<Rightarrow> bool" where
  "administers d (CreateDevice nd) = (nd_id nd = d)"
| "administers d (PreRegister device_id _ _) = (device_id = d)"
| "administers d (DeleteDevice device_id) = (device_id = d)"
| "administers d _ = False"

definition key_of :: "HubAuth \<Rightarrow> string \<Rightarrow> bytes option" where
  "key_of ha d = (case map_of (ha_devices ha) d of None \<Rightarrow> None | Some stored \<Rightarrow> dv_public_key (sd_device stored))"

definition accepted_of :: "HubAuth \<Rightarrow> string \<Rightarrow> VerifiedDeviceHello list" where
  "accepted_of ha d = map ap_verified (filter (\<lambda>a. ap_device_id a = d) (ha_accepted ha))"

text \<open>The tokens issued by a sequence of operations, with the device they were issued for.\<close>

definition issued_by :: "HubAuth \<Rightarrow> hub_auth_op \<Rightarrow> (string \<times> string) list" where
  "issued_by ha x =
     (case x of
        IssueToken d draws \<Rightarrow> (case issue (ha_tokens ha) d draws of (_, Inr t) \<Rightarrow> [(t, d)] | _ \<Rightarrow> [])
      | _ \<Rightarrow> [])"

fun issued_tokens :: "AuthConfig \<Rightarrow> HubAuth \<Rightarrow> hub_auth_op list \<Rightarrow> (string \<times> string) list" where
  "issued_tokens cfg ha [] = []"
| "issued_tokens cfg ha (x # xs) = issued_by ha x @ issued_tokens cfg (hub_auth_step cfg ha x) xs"

section \<open>Lemmas\<close>

subsection \<open>The signed message\<close>

lemma unat_of_char: "unat (of_char c :: u8) = (of_char c :: nat)"
proof -
  have "(of_char c :: u8) = word_of_nat (of_char c)" by (simp add: of_char_def horner_sum_simps)
  then show ?thesis using nat_of_char_less_256 [of c] by (simp add: unat_of_nat)
qed

lemma as_bytes_inject: "as_bytes s = as_bytes t \<longleftrightarrow> s = t"
proof -
  have "inj (of_char :: char \<Rightarrow> u8)" by (rule injI) (metis unat_of_char of_char_eq_iff)
  then show ?thesis by (simp add: as_bytes_def inj_map_eq_map)
qed

lemma length_to_le_bytes [simp]: "length (to_le_bytes k n) = k"
  by (induction k arbitrary: n) auto

lemma to_le_bytes_inject: "m < 256 ^ k \<Longrightarrow> n < 256 ^ k \<Longrightarrow> to_le_bytes k m = to_le_bytes k n \<Longrightarrow> m = n"
proof (induction k arbitrary: m n)
  case (Suc k)
  have "unat (word_of_nat (m mod 256) :: u8) = unat (word_of_nat (n mod 256) :: u8)" using Suc.prems(3) by simp
  then have 1: "m mod 256 = n mod 256" by (simp add: unat_of_nat)
  have "m div 256 < 256 ^ k" "n div 256 < 256 ^ k"
    using Suc.prems(1,2) by (simp_all add: less_mult_imp_div_less mult.commute)
  with Suc have "m div 256 = n div 256" by simp
  with 1 show ?case by (metis div_mult_mod_eq)
qed simp

definition enc_field :: "bytes \<Rightarrow> bytes" where
  "enc_field v = to_le_bytes 4 (length v) @ v"

lemma push_field_Some: "push_field p v = Some q \<longleftrightarrow> length v < 2 ^ 32 \<and> q = p @ enc_field v"
  by (auto simp: push_field_def push_u32_def enc_field_def)

lemma push_fields_Some:
  "push_fields p vs = Some q \<longleftrightarrow>
   (\<forall>v \<in> set vs. length v < 2 ^ 32) \<and> q = p @ concat (map (\<lambda>v. enc_field (as_bytes v)) vs)"
  by (induction vs arbitrary: p) (auto simp: push_field_Some bind_eq_Some_conv as_bytes_def)

lemma build_payload_Some:
  "build_hello_auth_payload d h t n = Some m \<longleftrightarrow>
   length d < 2 ^ 32 \<and> length (he_version h) < 2 ^ 32 \<and> length (he_hostname h) < 2 ^ 32 \<and> length (he_os h) < 2 ^ 32 \<and>
   length (he_capabilities h) < 2 ^ 32 \<and> (\<forall>v \<in> set (he_capabilities h). length v < 2 ^ 32) \<and> length n < 2 ^ 32 \<and>
   m = as_bytes ''ahand-hub'' @ [0] @ as_bytes ''hello-auth'' @ [0] @ enc_field (as_bytes d) @ enc_field (as_bytes (he_version h)) @
     enc_field (as_bytes (he_hostname h)) @ enc_field (as_bytes (he_os h)) @ to_le_bytes 4 (length (he_capabilities h)) @
     concat (map (\<lambda>v. enc_field (as_bytes v)) (he_capabilities h)) @ to_le_bytes 8 (unat (he_last_ack h)) @
     to_le_bytes 8 (unat t) @ enc_field n"
  unfolding build_hello_auth_payload_def Let_def
  by (auto simp: bind_eq_Some_conv push_field_Some push_fields_Some push_u32_def as_bytes_def)

text \<open>
  An encoding that can be cut off the front of any byte sequence in one way only. Such encodings
  can be put one after the other.
\<close>

definition prefix_code :: "('a \<Rightarrow> bytes) \<Rightarrow> ('a \<Rightarrow> bool) \<Rightarrow> bool" where
  "prefix_code f ok \<longleftrightarrow> (\<forall>x y r s. ok x \<longrightarrow> ok y \<longrightarrow> f x @ r = f y @ s \<longrightarrow> x = y \<and> r = s)"

definition both :: "('a \<Rightarrow> bytes) \<Rightarrow> ('b \<Rightarrow> bytes) \<Rightarrow> 'a \<times> 'b \<Rightarrow> bytes" where
  "both f g p = f (fst p) @ g (snd p)"

lemma prefix_codeD: "prefix_code f ok \<Longrightarrow> f x @ r = f y @ s \<Longrightarrow> ok x \<Longrightarrow> ok y \<Longrightarrow> x = y \<and> r = s"
  unfolding prefix_code_def by blast

lemma prefix_code_both:
  assumes "prefix_code f P" and "prefix_code g Q"
  shows "prefix_code (both f g) (\<lambda>p. P (fst p) \<and> Q (snd p))"
  unfolding prefix_code_def
proof (intro allI impI)
  fix x y r s assume ok: "P (fst x) \<and> Q (snd x)" "P (fst y) \<and> Q (snd y)" and eq: "both f g x @ r = both f g y @ s"
  from eq have "f (fst x) @ (g (snd x) @ r) = f (fst y) @ (g (snd y) @ s)" by (simp add: both_def)
  from prefix_codeD [OF assms(1) this] ok have "fst x = fst y" "g (snd x) @ r = g (snd y) @ s" by auto
  with prefix_codeD [OF assms(2), of "snd x" r "snd y" s] ok show "x = y \<and> r = s" by (simp add: prod_eq_iff)
qed

lemma prefix_code_le: "prefix_code (to_le_bytes k) (\<lambda>n. n < 256 ^ k)"
  by (auto simp: prefix_code_def dest: to_le_bytes_inject)

lemma prefix_code_field: "prefix_code enc_field (\<lambda>v. length v < 2 ^ 32)"
  unfolding prefix_code_def
proof (intro allI impI)
  fix v w r s :: bytes
  assume ok: "length v < 2 ^ 32" "length w < 2 ^ 32" and eq: "enc_field v @ r = enc_field w @ s"
  from eq have "to_le_bytes 4 (length v) @ (v @ r) = to_le_bytes 4 (length w) @ (w @ s)" by (simp add: enc_field_def)
  from prefix_codeD [OF prefix_code_le this] ok show "v = w \<and> r = s" by auto
qed

lemma prefix_code_text: "prefix_code (\<lambda>v. enc_field (as_bytes v)) (\<lambda>v. length v < 2 ^ 32)"
  using prefix_code_field unfolding prefix_code_def by (metis as_bytes_inject as_bytes_def length_map)

lemma prefix_code_concat:
  assumes "prefix_code f P"
  shows "length vs = length ws \<Longrightarrow> concat (map f vs) @ r = concat (map f ws) @ s \<Longrightarrow> \<forall>v \<in> set vs. P v \<Longrightarrow>
    \<forall>w \<in> set ws. P w \<Longrightarrow> vs = ws \<and> r = s"
proof (induction vs ws rule: list_induct2)
  case (Cons v vs w ws)
  with prefix_codeD [OF assms, of v "concat (map f vs) @ r" w "concat (map f ws) @ s"] show ?case by simp
qed simp

definition enc_list :: "string list \<Rightarrow> bytes" where
  "enc_list vs = to_le_bytes 4 (length vs) @ concat (map (\<lambda>v. enc_field (as_bytes v)) vs)"

lemma prefix_code_list: "prefix_code enc_list (\<lambda>vs. length vs < 2 ^ 32 \<and> (\<forall>v \<in> set vs. length v < 2 ^ 32))"
  unfolding prefix_code_def
proof (intro allI impI)
  let ?c = "\<lambda>vs. concat (map (\<lambda>v. enc_field (as_bytes v)) vs)"
  fix vs ws :: "string list" and r s
  assume ok: "length vs < 2 ^ 32 \<and> (\<forall>v \<in> set vs. length v < 2 ^ 32)" "length ws < 2 ^ 32 \<and> (\<forall>v \<in> set ws. length v < 2 ^ 32)"
    and eq: "enc_list vs @ r = enc_list ws @ s"
  from eq have "to_le_bytes 4 (length vs) @ (?c vs @ r) = to_le_bytes 4 (length ws) @ (?c ws @ s)" by (simp add: enc_list_def)
  from prefix_codeD [OF prefix_code_le this] ok have "length vs = length ws" "?c vs @ r = ?c ws @ s" by auto
  from prefix_code_concat [OF prefix_code_text this] ok show "vs = ws \<and> r = s" by blast
qed

lemma prefix_code_u64: "prefix_code (\<lambda>w :: u64. to_le_bytes 8 (unat w)) (\<lambda>_. True)"
proof -
  have "unat (w :: u64) < 256 ^ 8" for w using unat_lt2p_u64 [of w] by simp
  then show ?thesis using prefix_code_le [of 8] unfolding prefix_code_def by (metis unsigned_word_eqI)
qed

lemmas prefix_code_payload =
  prefix_code_both [OF prefix_code_text prefix_code_both [OF prefix_code_text prefix_code_both [OF prefix_code_text
    prefix_code_both [OF prefix_code_text prefix_code_both [OF prefix_code_list prefix_code_both [OF prefix_code_u64
      prefix_code_both [OF prefix_code_u64 prefix_code_field]]]]]]]

definition payload_content :: "string \<Rightarrow> Hello \<Rightarrow> u64 \<Rightarrow> bytes \<Rightarrow> string \<times> string \<times> string \<times> string \<times> string list \<times> u64 \<times> u64 \<times> bytes" where
  "payload_content d h t n = (d, he_version h, he_hostname h, he_os h, he_capabilities h, he_last_ack h, t, n)"

lemma payload_inject:
  assumes "build_hello_auth_payload d h t n = Some m" and "build_hello_auth_payload d' h' t' n' = Some m"
  shows "payload_content d h t n = payload_content d' h' t' n'"
  using assms prefix_codeD [OF prefix_code_payload, of "payload_content d h t n" "[]" "payload_content d' h' t' n'" "[]"]
  by (simp add: build_payload_Some payload_content_def both_def enc_list_def)

lemma payload_content_eq:
  "payload_content d h t n = payload_content d' h' t' n' \<longleftrightarrow> d = d' \<and> t = t' \<and> n = n' \<and> same_content h h'"
  by (cases h; cases h') (auto simp: payload_content_def same_content_def)

subsection \<open>What a handshake has verified\<close>

definition signed_ok :: "AuthConfig \<Rightarrow> string \<Rightarrow> Hello \<Rightarrow> VerifiedDeviceHello \<Rightarrow> bytes \<Rightarrow> bool" where
  "signed_ok cfg d hello v nonce \<longleftrightarrow>
     (\<exists>m sig. build_hello_auth_payload d hello (vh_signed_at_ms v) nonce = Some m \<and> ac_verify cfg (vh_public_key v) m sig)"

fun ended :: "handshake_state \<Rightarrow> bool" where
  "ended HsChallenged = False"
| "ended (HsVerified _ _ _) = False"
| "ended _ = True"

definition auth_inv :: "AuthConfig \<Rightarrow> HubAuth \<Rightarrow> bool" where
  "auth_inv cfg ha \<longleftrightarrow>
     (\<forall>nonce d h v. (nonce, HsVerified d h v) \<in> set (ha_handshakes ha) \<longrightarrow> signed_ok cfg d h v nonce) \<and>
     (\<forall>a \<in> set (ha_accepted ha). signed_ok cfg (ap_device_id a) (ap_hello a) (ap_verified a) (ap_nonce a)) \<and>
     (distinct (map fst (ha_handshakes ha)) \<longrightarrow>
        distinct (map ap_nonce (ha_accepted ha)) \<and>
        (\<forall>a \<in> set (ha_accepted ha). \<exists>st. (ap_nonce a, st) \<in> set (ha_handshakes ha) \<and> ended st))"

lemma verify_signed_authD:
  assumes "verify_signed_auth cfg now d h pk sig t n = Some (Inr pk')"
  shows "pk' = pk \<and> (\<exists>m. build_hello_auth_payload d h t n = Some m \<and> ac_verify cfg pk m sig)"
  using assms by (auto simp: verify_signed_auth_def split: if_splits option.splits)

lemma verify_device_helloD:
  assumes "verify_device_hello cfg bs now rid d h n = Some (bs', Inr v)"
  shows "signed_ok cfg d h v n"
  using assms
  by (auto simp: verify_device_hello_def signed_ok_def dest!: verify_signed_authD
      split: option.splits Auth.splits sum.splits if_splits prod.splits)

lemma set_handshake_simps [simp]:
  "map fst (ha_handshakes (set_handshake ha n st)) = map fst (ha_handshakes ha)"
  "ha_accepted (set_handshake ha n st) = ha_accepted ha"
  "ha_devices (set_handshake ha n st) = ha_devices ha"
  "ha_tokens (set_handshake ha n st) = ha_tokens ha"
  "length (ha_handshakes (set_handshake ha n st)) = length (ha_handshakes ha)"
  by (simp_all add: set_handshake_def map_update list_update_id [of "map fst xs" n for xs, simplified nth_map])
    (metis list_update_beyond list_update_id map_update not_le nth_map length_map)

lemma set_handshake_nth [simp]:
  "n < length (ha_handshakes ha) \<Longrightarrow> i < length (ha_handshakes ha) \<Longrightarrow>
   ha_handshakes (set_handshake ha n st) ! i = (if i = n then (fst (ha_handshakes ha ! n), st) else ha_handshakes ha ! i)"
  by (simp add: set_handshake_def)

lemma set_handshake_mem:
  assumes "x \<in> set (ha_handshakes (set_handshake ha n st))" and "n < length (ha_handshakes ha)"
  shows "x = (fst (ha_handshakes ha ! n), st) \<or> x \<in> set (ha_handshakes ha)"
  using assms set_update_subset_insert [of "ha_handshakes ha" n] by (auto simp: set_handshake_def)

lemma ended_set_handshake:
  assumes "(nonce, st) \<in> set (ha_handshakes ha)" and "ended st" and "ended st' \<or> \<not> ended (snd (ha_handshakes ha ! n))"
    and "n < length (ha_handshakes ha)"
  shows "\<exists>st. (nonce, st) \<in> set (ha_handshakes (set_handshake ha n st')) \<and> ended st"
proof -
  from assms(1) obtain i where i: "i < length (ha_handshakes ha)" "ha_handshakes ha ! i = (nonce, st)" by (auto simp: in_set_conv_nth)
  show ?thesis
  proof (cases "i = n")
    case True
    with i assms have "(nonce, st') \<in> set (ha_handshakes (set_handshake ha n st'))" "ended st'"
      by (auto simp: in_set_conv_nth intro!: exI [of _ n])
    then show ?thesis by blast
  next
    case False
    with i assms(2,4) have "(nonce, st) \<in> set (ha_handshakes (set_handshake ha n st'))"
      by (auto simp: in_set_conv_nth intro!: exI [of _ i])
    with assms(2) show ?thesis by blast
  qed
qed

text \<open>The invariant depends on the handshakes and the accepted hellos only.\<close>

lemma auth_inv_cong:
  "ha_handshakes ha' = ha_handshakes ha \<Longrightarrow> ha_accepted ha' = ha_accepted ha \<Longrightarrow> auth_inv cfg ha \<Longrightarrow> auth_inv cfg ha'"
  by (simp add: auth_inv_def)

lemma auth_inv_set:
  assumes "auth_inv cfg ha" and "n < length (ha_handshakes ha)" and "ended st \<or> \<not> ended (snd (ha_handshakes ha ! n))"
    and "\<And>d h v. st = HsVerified d h v \<Longrightarrow> signed_ok cfg d h v (fst (ha_handshakes ha ! n))"
  shows "auth_inv cfg (set_handshake ha n st)"
  unfolding auth_inv_def
proof (intro conjI allI impI ballI)
  fix nonce d h v assume "(nonce, HsVerified d h v) \<in> set (ha_handshakes (set_handshake ha n st))"
  from set_handshake_mem [OF this assms(2)] show "signed_ok cfg d h v nonce" using assms(1,4) by (auto simp: auth_inv_def)
next
  fix a assume "a \<in> set (ha_accepted (set_handshake ha n st))"
  then show "signed_ok cfg (ap_device_id a) (ap_hello a) (ap_verified a) (ap_nonce a)" using assms(1) by (simp add: auth_inv_def)
next
  assume "distinct (map fst (ha_handshakes (set_handshake ha n st)))"
  then show "distinct (map ap_nonce (ha_accepted (set_handshake ha n st)))" using assms(1) by (simp add: auth_inv_def)
next
  fix a assume "distinct (map fst (ha_handshakes (set_handshake ha n st)))" and "a \<in> set (ha_accepted (set_handshake ha n st))"
  then obtain st0 where "(ap_nonce a, st0) \<in> set (ha_handshakes ha)" "ended st0" using assms(1) unfolding auth_inv_def by auto
  from ended_set_handshake [OF this assms(3,2)]
  show "\<exists>st'. (ap_nonce a, st') \<in> set (ha_handshakes (set_handshake ha n st)) \<and> ended st'" .
qed

lemma auth_inv_accept:
  assumes inv: "auth_inv cfg ha" and n: "n < length (ha_handshakes ha)" "ha_handshakes ha ! n = (nonce, HsVerified d h v)"
    and ha': "ha_handshakes ha' = ha_handshakes ha"
      "ha_accepted ha' = ha_accepted ha @ [\<lparr> ap_device_id = d, ap_hello = h, ap_verified = v, ap_nonce = nonce \<rparr>]"
  shows "auth_inv cfg (set_handshake ha' n (HsAccepted r))"
proof -
  let ?ha = "set_handshake ha' n (HsAccepted r)"
  have mem: "(nonce, HsVerified d h v) \<in> set (ha_handshakes ha)" using n by (metis nth_mem)
  have new: "(nonce, HsAccepted r) \<in> set (ha_handshakes ?ha)"
    using n ha' by (auto simp: in_set_conv_nth intro!: exI [of _ n])
  have old: "\<exists>st. (x, st) \<in> set (ha_handshakes ?ha) \<and> ended st" if "(x, st) \<in> set (ha_handshakes ha)" "ended st" for x st
    using ended_set_handshake [of x st ha' "HsAccepted r" n] that n ha' by simp
  have fresh: "nonce \<notin> ap_nonce ` set (ha_accepted ha)" if "distinct (map fst (ha_handshakes ha))"
  proof
    assume "nonce \<in> ap_nonce ` set (ha_accepted ha)"
    with inv that obtain st where "(nonce, st) \<in> set (ha_handshakes ha)" "ended st" unfolding auth_inv_def by auto
    with mem that have "st = HsVerified d h v" by (metis eq_key_imp_eq_value)
    with \<open>ended st\<close> show False by simp
  qed
  show ?thesis unfolding auth_inv_def
  proof (intro conjI allI impI ballI)
    fix nonce' d' h' v' assume "(nonce', HsVerified d' h' v') \<in> set (ha_handshakes ?ha)"
    from set_handshake_mem [OF this] n ha' have "(nonce', HsVerified d' h' v') \<in> set (ha_handshakes ha)" by auto
    then show "signed_ok cfg d' h' v' nonce'" using inv by (simp add: auth_inv_def)
  next
    fix a assume "a \<in> set (ha_accepted ?ha)"
    then show "signed_ok cfg (ap_device_id a) (ap_hello a) (ap_verified a) (ap_nonce a)" using inv mem ha' by (auto simp: auth_inv_def)
  next
    assume "distinct (map fst (ha_handshakes ?ha))"
    then show "distinct (map ap_nonce (ha_accepted ?ha))" using inv fresh ha' by (simp add: auth_inv_def)
  next
    fix a assume d: "distinct (map fst (ha_handshakes ?ha))" and a: "a \<in> set (ha_accepted ?ha)"
    show "\<exists>st. (ap_nonce a, st) \<in> set (ha_handshakes ?ha) \<and> ended st"
    proof (cases "a \<in> set (ha_accepted ha)")
      case True
      with inv d ha' obtain st where "(ap_nonce a, st) \<in> set (ha_handshakes ha)" "ended st" unfolding auth_inv_def by auto
      then show ?thesis by (rule old)
    next
      case False
      with a ha' new show ?thesis by (auto intro!: exI [of _ "HsAccepted r"])
    qed
  qed
qed

lemma accept_hello_idle:
  "\<not> (\<exists>nonce d h v. n < length (ha_handshakes ha) \<and> ha_handshakes ha ! n = (nonce, HsVerified d h v)) \<Longrightarrow> accept_hello ha n = ha"
  by (auto simp: accept_hello_def split: prod.split handshake_state.split)

lemma auth_inv_step:
  assumes "auth_inv cfg ha"
  shows "auth_inv cfg (hub_auth_step cfg ha x)"
proof (cases x)
  case (IssueChallenge nonce)
  then show ?thesis using assms by (auto simp: auth_inv_def)
next
  case (HelloArrives n now rid d h)
  show ?thesis
  proof (cases "n < length (ha_handshakes ha) \<and> snd (ha_handshakes ha ! n) = HsChallenged")
    case True
    have "auth_inv cfg (set_handshake (ha\<lparr>ha_tokens := bs\<rparr>) n HsClosed)" for bs
      by (rule auth_inv_set) (use assms True in \<open>simp_all add: auth_inv_def\<close>)
    moreover have "auth_inv cfg (set_handshake ha n HsClosed)"
      by (rule auth_inv_set) (use assms True in simp_all)
    moreover have "auth_inv cfg (set_handshake (ha\<lparr>ha_tokens := bs\<rparr>) n (HsVerified d h v))"
      if "verify_device_hello cfg (ha_tokens ha) now rid d h (fst (ha_handshakes ha ! n)) = Some (bs, Inr v)" for bs v
      by (rule auth_inv_set) (use assms True verify_device_helloD [OF that] in \<open>simp_all add: auth_inv_def\<close>)
    ultimately show ?thesis using True HelloArrives by (auto simp: hello_arrives_def split: option.split sum.split)
  qed (use assms HelloArrives in \<open>auto simp: hello_arrives_def\<close>)
next
  case (AcceptHello n)
  show ?thesis
  proof (cases "\<exists>nonce d h v. n < length (ha_handshakes ha) \<and> ha_handshakes ha ! n = (nonce, HsVerified d h v)")
    case True
    then obtain nonce d h v where n: "n < length (ha_handshakes ha)" "ha_handshakes ha ! n = (nonce, HsVerified d h v)" by blast
    obtain ds res where acc: "accept_verified_hello (ha_devices ha) d h v = (ds, res)" by fastforce
    show ?thesis
    proof (cases res)
      case (Inl e)
      have "auth_inv cfg (set_handshake (ha\<lparr>ha_devices := ds\<rparr>) n (HsFailed (vh_bootstrap_reservation v)))"
        by (rule auth_inv_set) (use assms n in \<open>simp_all add: auth_inv_def\<close>)
      then show ?thesis using AcceptHello n acc Inl by (simp add: accept_hello_def)
    next
      case (Inr dev)
      then show ?thesis using AcceptHello n acc auth_inv_accept [OF assms n] by (simp add: accept_hello_def)
    qed
  next
    case False
    then show ?thesis using assms AcceptHello by (simp add: accept_hello_idle)
  qed
next
  case (EndHandshake n)
  have "auth_inv cfg (set_handshake (ha\<lparr>ha_tokens := bs\<rparr>) n HsClosed)" if "n < length (ha_handshakes ha)" for bs
    by (rule auth_inv_set) (use assms that in \<open>simp_all add: auth_inv_def\<close>)
  moreover have "auth_inv cfg (set_handshake ha n HsClosed)" if "n < length (ha_handshakes ha)"
    by (rule auth_inv_set) (use assms that in simp_all)
  ultimately show ?thesis
    using EndHandshake assms by (auto simp: end_handshake_def split: handshake_state.split option.split)
qed (use assms in \<open>simp_all add: auth_inv_def\<close>)

lemma auth_inv_run: "auth_inv cfg ha \<Longrightarrow> auth_inv cfg (run_hub_auth cfg ha xs)"
  by (induction xs arbitrary: ha) (simp_all add: run_hub_auth_def auth_inv_step)

lemma auth_inv_new: "auth_inv cfg hub_auth_new"
  by (simp add: auth_inv_def hub_auth_new_def)

subsection \<open>Keys and times\<close>

definition last_of :: "HubAuth \<Rightarrow> string \<Rightarrow> u64" where
  "last_of ha d = (case map_of (ha_devices ha) d of None \<Rightarrow> 0 | Some stored \<Rightarrow> sd_last_signed_at_ms stored)"

text \<open>What a step does to one device: perhaps it accepts one hello, and it keeps a key that is set.\<close>

definition device_step :: "string \<Rightarrow> HubAuth \<Rightarrow> HubAuth \<Rightarrow> VerifiedDeviceHello list \<Rightarrow> bool" where
  "device_step d ha ha' new \<longleftrightarrow>
     accepted_of ha' d = accepted_of ha d @ new \<and> last_of ha d \<le> last_of ha' d \<and>
     (key_of ha d \<noteq> None \<longrightarrow> key_of ha' d = key_of ha d) \<and>
     (\<forall>v \<in> set new. key_of ha' d = Some (vh_public_key v) \<and> last_of ha d < vh_signed_at_ms v \<and> vh_signed_at_ms v \<le> last_of ha' d \<and>
        (key_of ha d \<noteq> None \<longrightarrow> \<not> vh_allow_registration v)) \<and>
     sorted_wrt (<) (map vh_signed_at_ms new) \<and> (\<forall>v \<in> set (tl new). \<not> vh_allow_registration v)"

lemma device_step_frame:
  "ha_accepted ha' = ha_accepted ha \<Longrightarrow> map_of (ha_devices ha') d = map_of (ha_devices ha) d \<Longrightarrow> device_step d ha ha' []"
  by (simp add: device_step_def accepted_of_def last_of_def key_of_def)

lemma device_step_trans:
  assumes "device_step d a b new" and "device_step d b c new'"
  shows "device_step d a c (new @ new')"
proof -
  have keyed: "key_of b d \<noteq> None" if "new \<noteq> []" using that assms(1) by (cases new) (auto simp: device_step_def)
  have "\<forall>v \<in> set (tl (new @ new')). \<not> vh_allow_registration v"
    using assms keyed by (cases new) (auto simp: device_step_def)
  moreover have "\<forall>v \<in> set new. \<forall>w \<in> set new'. vh_signed_at_ms v < vh_signed_at_ms w"
    using assms by (fastforce simp: device_step_def)
  moreover have "key_of c d = Some (vh_public_key v)" if "v \<in> set new" for v
    using that assms unfolding device_step_def by (metis option.distinct(1))
  moreover have "key_of a d \<noteq> None \<longrightarrow> \<not> vh_allow_registration w" if "w \<in> set new'" for w
    using that assms unfolding device_step_def by metis
  ultimately show ?thesis
    using assms unfolding device_step_def
    by (auto simp: sorted_wrt_append intro: order_trans le_less_trans)
qed

lemma accept_verified_hello_other:
  "d' \<noteq> d \<Longrightarrow> map_of (fst (accept_verified_hello ds d h v)) d' = map_of ds d'"
  by (auto simp: accept_verified_hello_def Let_def AList.update_conv' split: option.split bool.split)

lemma set_online_lookup:
  "map_of (set_online ds d' b) d = (if d = d' then map_option (\<lambda>st. st\<lparr>sd_device := (sd_device st)\<lparr>dv_online := b\<rparr>\<rparr>) (map_of ds d) else map_of ds d)"
  by (auto simp: set_online_def AList.update_conv' split: option.split)

lemma accept_verified_hello_Inr:
  assumes "accept_verified_hello ds d h v = (ds', Inr dev)"
  shows "\<exists>stored stored'. map_of ds d = Some stored \<and> map_of ds' d = Some stored' \<and>
    dv_public_key (sd_device stored') = Some (vh_public_key v) \<and> sd_last_signed_at_ms stored' = vh_signed_at_ms v \<and>
    sd_last_signed_at_ms stored < vh_signed_at_ms v \<and>
    (dv_public_key (sd_device stored) = Some (vh_public_key v) \<and> \<not> vh_allow_registration v \<or>
     dv_public_key (sd_device stored) = None \<and> vh_allow_registration v)"
  using assms
  by (auto simp: accept_verified_hello_def Let_def AList.update_conv' split: option.splits bool.splits if_splits)

lemma accept_verified_hello_Inl:
  assumes "accept_verified_hello ds d h v = (ds', Inl e)"
  shows "map_of ds' d = map_of ds d \<or> (\<exists>stored stored'. map_of ds d = Some stored \<and> map_of ds' d = Some stored' \<and>
    sd_last_signed_at_ms stored' = sd_last_signed_at_ms stored \<and>
    (dv_public_key (sd_device stored) \<noteq> None \<longrightarrow> dv_public_key (sd_device stored') = dv_public_key (sd_device stored)))"
  using assms
  by (auto simp: accept_verified_hello_def Let_def AList.update_conv' split: option.splits bool.splits if_splits)

lemma accept_hello_device_step: "\<exists>new. device_step d ha (accept_hello ha n) new"
proof (cases "\<exists>nonce d h v. n < length (ha_handshakes ha) \<and> ha_handshakes ha ! n = (nonce, HsVerified d h v)")
  case True
  then obtain nonce d' h v where n: "n < length (ha_handshakes ha)" "ha_handshakes ha ! n = (nonce, HsVerified d' h v)" by blast
  obtain ds res where acc: "accept_verified_hello (ha_devices ha) d' h v = (ds, res)" by fastforce
  have other: "map_of ds d = map_of (ha_devices ha) d" if "d \<noteq> d'" using that accept_verified_hello_other [of d d'] acc by (metis fst_conv)
  show ?thesis
  proof (cases res)
    case (Inl e)
    with n acc have eq: "accept_hello ha n = set_handshake (ha\<lparr>ha_devices := ds\<rparr>) n (HsFailed (vh_bootstrap_reservation v))"
      by (simp add: accept_hello_def)
    have "device_step d ha (accept_hello ha n) []"
    proof (cases "d = d'")
      case True
      with accept_verified_hello_Inl [of "ha_devices ha" d' h v ds e] acc Inl show ?thesis
        by (auto simp: eq device_step_def accepted_of_def last_of_def key_of_def)
    next
      case False
      then show ?thesis by (intro device_step_frame) (simp_all add: eq other)
    qed
    then show ?thesis by blast
  next
    case (Inr dev)
    with n acc have eq: "accept_hello ha n = set_handshake (ha\<lparr>ha_devices := ds, ha_accepted := ha_accepted ha @
        [\<lparr> ap_device_id = d', ap_hello = h, ap_verified = v, ap_nonce = nonce \<rparr>]\<rparr>) n (HsAccepted (vh_bootstrap_reservation v))"
      by (simp add: accept_hello_def)
    have "device_step d ha (accept_hello ha n) (if d = d' then [v] else [])"
    proof (cases "d = d'")
      case True
      with accept_verified_hello_Inr [of "ha_devices ha" d' h v ds dev] acc Inr show ?thesis
        by (auto simp: eq device_step_def accepted_of_def last_of_def key_of_def)
    next
      case False
      then show ?thesis by (simp add: eq device_step_def accepted_of_def last_of_def key_of_def other)
    qed
    then show ?thesis by blast
  qed
next
  case False
  then show ?thesis by (intro exI [of _ "[]"]) (simp add: accept_hello_idle device_step_frame)
qed

lemma hub_auth_device_step:
  assumes "\<not> administers d x"
  shows "\<exists>new. device_step d ha (hub_auth_step cfg ha x) new"
proof (cases x)
  case (AcceptHello n)
  then show ?thesis by (simp add: accept_hello_device_step)
next
  case (SetOnline d' b)
  have "device_step d ha (hub_auth_step cfg ha x) []"
    by (auto simp: SetOnline device_step_def accepted_of_def last_of_def key_of_def set_online_lookup split: option.split)
  then show ?thesis by blast
next
  case (HelloArrives n now rid d' h)
  then show ?thesis
    by (intro exI [of _ "[]"] device_step_frame)
      (auto simp: hello_arrives_def split: option.split sum.split)
next
  case (EndHandshake n)
  then show ?thesis
    by (intro exI [of _ "[]"] device_step_frame)
      (auto simp: end_handshake_def split: option.split handshake_state.split)
next
  case (CreateDevice nd)
  then show ?thesis using assms
    by (intro exI [of _ "[]"] device_step_frame) (auto simp: device_insert_def Let_def AList.update_conv' split: option.split)
next
  case (PreRegister d' pk u)
  then show ?thesis using assms
    by (intro exI [of _ "[]"] device_step_frame) (auto simp: pre_register_def Let_def AList.update_conv' split: option.split)
next
  case (DeleteDevice d')
  then show ?thesis using assms
    by (intro exI [of _ "[]"] device_step_frame) (auto simp: delete_device_def AList.delete_conv')
qed (intro exI [of _ "[]"] device_step_frame; simp)+

lemma hub_auth_device_run:
  "\<forall>x \<in> set xs. \<not> administers d x \<Longrightarrow> \<exists>new. device_step d ha (run_hub_auth cfg ha xs) new"
proof (induction xs arbitrary: ha)
  case Nil
  then show ?case by (intro exI [of _ "[]"]) (simp add: run_hub_auth_def device_step_frame)
next
  case (Cons x xs)
  from Cons.prems hub_auth_device_step [of d x ha cfg] obtain new where "device_step d ha (hub_auth_step cfg ha x) new" by auto
  moreover from Cons obtain new' where "device_step d (hub_auth_step cfg ha x) (run_hub_auth cfg (hub_auth_step cfg ha x) xs) new'"
    by auto
  ultimately show ?case using device_step_trans by (fastforce simp: run_hub_auth_def)
qed

subsection \<open>Bootstrap tokens\<close>

text \<open>The reservation a handshake holds, and the one with which it may still be accepted or has failed.\<close>

fun held :: "handshake_state \<Rightarrow> BootstrapReservation option" where
  "held (HsVerified _ _ v) = vh_bootstrap_reservation v"
| "held (HsAccepted r) = r"
| "held (HsFailed r) = r"
| "held _ = None"

fun unused :: "handshake_state \<Rightarrow> BootstrapReservation option" where
  "unused (HsVerified _ _ v) = vh_bootstrap_reservation v"
| "unused (HsFailed r) = r"
| "unused _ = None"

definition hs_at :: "HubAuth \<Rightarrow> nat \<Rightarrow> handshake_state" where
  "hs_at ha i = (if i < length (ha_handshakes ha) then snd (ha_handshakes ha ! i) else HsClosed)"

definition token_of :: "VerifiedDeviceHello \<Rightarrow> string list" where
  "token_of v = (case vh_bootstrap_reservation v of None \<Rightarrow> [] | Some r \<Rightarrow> [br_token r])"

definition used_tokens :: "HubAuth \<Rightarrow> string list" where
  "used_tokens ha = concat (map (\<lambda>a. token_of (ap_verified a)) (ha_accepted ha))"

definition may_register :: "AuthConfig \<Rightarrow> (string \<times> string) set \<Rightarrow> string \<Rightarrow> VerifiedDeviceHello \<Rightarrow> bool" where
  "may_register cfg I d v \<longleftrightarrow>
     (case vh_bootstrap_reservation v of
        None \<Rightarrow> vh_allow_registration v \<longrightarrow> d = ac_bootstrap_device_id cfg
      | Some r \<Rightarrow> br_device_id r = d \<and> (br_token r, d) \<in> I)"

definition token_inv :: "AuthConfig \<Rightarrow> (string \<times> string) set \<Rightarrow> HubAuth \<Rightarrow> bool" where
  "token_inv cfg I ha \<longleftrightarrow>
     (\<forall>i j r r'. held (hs_at ha i) = Some r \<longrightarrow> held (hs_at ha j) = Some r' \<longrightarrow> br_token r = br_token r' \<longrightarrow> i = j) \<and>
     distinct (used_tokens ha) \<and>
     (\<forall>i r. unused (hs_at ha i) = Some r \<longrightarrow> br_token r \<notin> set (used_tokens ha)) \<and>
     (\<forall>t e. map_of (bs_by_token (ha_tokens ha)) t = Some e \<longrightarrow> (t, bt_device_id e) \<in> I \<and>
        (bt_reservation_id e = None \<longrightarrow> t \<notin> set (used_tokens ha) \<and> (\<forall>i r. held (hs_at ha i) = Some r \<longrightarrow> br_token r \<noteq> t))) \<and>
     (\<forall>i r. held (hs_at ha i) = Some r \<longrightarrow> br_token r \<in> fst ` I) \<and>
     (\<forall>i d h v. hs_at ha i = HsVerified d h v \<longrightarrow> may_register cfg I d v) \<and>
     (\<forall>a \<in> set (ha_accepted ha). may_register cfg I (ap_device_id a) (ap_verified a))"

lemma unused_held: "unused st = Some r \<Longrightarrow> held st = Some r"
  by (cases st) auto

lemma hs_at_set [simp]:
  "n < length (ha_handshakes ha) \<Longrightarrow> hs_at (set_handshake ha n st) i = (if i = n then st else hs_at ha i)"
  by (simp add: hs_at_def)

lemma hs_at_cong: "ha_handshakes ha' = ha_handshakes ha \<Longrightarrow> hs_at ha' = hs_at ha"
  by (simp add: hs_at_def fun_eq_iff)

lemma used_tokens_cong [simp]: "used_tokens (set_handshake ha n st) = used_tokens ha"
  by (simp add: used_tokens_def)

lemma token_invD:
  assumes "token_inv cfg I ha"
  shows "held (hs_at ha i) = Some r \<Longrightarrow> held (hs_at ha j) = Some r' \<Longrightarrow> br_token r = br_token r' \<Longrightarrow> i = j"
    and "distinct (used_tokens ha)"
    and "unused (hs_at ha i) = Some r \<Longrightarrow> br_token r \<notin> set (used_tokens ha)"
    and "map_of (bs_by_token (ha_tokens ha)) t = Some e \<Longrightarrow> (t, bt_device_id e) \<in> I"
    and "map_of (bs_by_token (ha_tokens ha)) t = Some e \<Longrightarrow> bt_reservation_id e = None \<Longrightarrow> t \<notin> set (used_tokens ha)"
    and "map_of (bs_by_token (ha_tokens ha)) t = Some e \<Longrightarrow> bt_reservation_id e = None \<Longrightarrow>
      held (hs_at ha i) = Some r \<Longrightarrow> br_token r \<noteq> t"
    and "held (hs_at ha i) = Some r \<Longrightarrow> br_token r \<in> fst ` I"
    and "hs_at ha i = HsVerified d h v \<Longrightarrow> may_register cfg I d v"
    and "a \<in> set (ha_accepted ha) \<Longrightarrow> may_register cfg I (ap_device_id a) (ap_verified a)"
  using assms unfolding token_inv_def by blast+

lemma token_invI:
  assumes "\<And>i j r r'. held (hs_at ha i) = Some r \<Longrightarrow> held (hs_at ha j) = Some r' \<Longrightarrow> br_token r = br_token r' \<Longrightarrow> i = j"
    and "distinct (used_tokens ha)"
    and "\<And>i r. unused (hs_at ha i) = Some r \<Longrightarrow> br_token r \<notin> set (used_tokens ha)"
    and "\<And>t e. map_of (bs_by_token (ha_tokens ha)) t = Some e \<Longrightarrow> (t, bt_device_id e) \<in> I"
    and "\<And>t e. map_of (bs_by_token (ha_tokens ha)) t = Some e \<Longrightarrow> bt_reservation_id e = None \<Longrightarrow> t \<notin> set (used_tokens ha)"
    and "\<And>t e i r. map_of (bs_by_token (ha_tokens ha)) t = Some e \<Longrightarrow> bt_reservation_id e = None \<Longrightarrow>
      held (hs_at ha i) = Some r \<Longrightarrow> br_token r \<noteq> t"
    and "\<And>i r. held (hs_at ha i) = Some r \<Longrightarrow> br_token r \<in> fst ` I"
    and "\<And>i d h v. hs_at ha i = HsVerified d h v \<Longrightarrow> may_register cfg I d v"
    and "\<And>a. a \<in> set (ha_accepted ha) \<Longrightarrow> may_register cfg I (ap_device_id a) (ap_verified a)"
  shows "token_inv cfg I ha"
  unfolding token_inv_def by (intro conjI allI impI ballI) (rule assms; assumption)+

lemma used_tokens_issued:
  assumes "token_inv cfg I ha" and "t \<in> set (used_tokens ha)"
  shows "t \<in> fst ` I"
proof -
  from assms(2) obtain a where a: "a \<in> set (ha_accepted ha)" "t \<in> set (token_of (ap_verified a))" by (auto simp: used_tokens_def)
  from a(2) obtain r where r: "vh_bootstrap_reservation (ap_verified a) = Some r" "t = br_token r"
    by (cases "vh_bootstrap_reservation (ap_verified a)") (auto simp: token_of_def)
  from token_invD(9) [OF assms(1) a(1)] r have "(t, ap_device_id a) \<in> I" by (simp add: may_register_def)
  then show ?thesis by force
qed

text \<open>Tokens may vanish at any time; a handshake that holds nothing more may take any state.\<close>

lemma token_inv_mono:
  assumes inv: "token_inv cfg I ha" and acc: "ha_accepted ha' = ha_accepted ha"
    and h: "\<And>i r. held (hs_at ha' i) = Some r \<Longrightarrow> held (hs_at ha i) = Some r"
    and u: "\<And>i r. unused (hs_at ha' i) = Some r \<Longrightarrow> unused (hs_at ha i) = Some r"
    and v: "\<And>i d h v. hs_at ha' i = HsVerified d h v \<Longrightarrow> may_register cfg I d v"
    and bt: "\<And>t e. map_of (bs_by_token (ha_tokens ha')) t = Some e \<Longrightarrow> map_of (bs_by_token (ha_tokens ha)) t = Some e"
  shows "token_inv cfg I ha'"
proof -
  have used: "used_tokens ha' = used_tokens ha" by (simp add: used_tokens_def acc)
  show ?thesis
  proof (rule token_invI, unfold used acc)
    show "i = j" if "held (hs_at ha' i) = Some r" "held (hs_at ha' j) = Some r'" "br_token r = br_token r'" for i j r r'
      using token_invD(1) [OF inv h [OF that(1)] h [OF that(2)] that(3)] .
    show "distinct (used_tokens ha)" using token_invD(2) [OF inv] .
    show "br_token r \<notin> set (used_tokens ha)" if "unused (hs_at ha' i) = Some r" for i r
      using token_invD(3) [OF inv u [OF that]] .
    show "(t, bt_device_id e) \<in> I" if "map_of (bs_by_token (ha_tokens ha')) t = Some e" for t e
      using token_invD(4) [OF inv bt [OF that]] .
    show "t \<notin> set (used_tokens ha)" if "map_of (bs_by_token (ha_tokens ha')) t = Some e" "bt_reservation_id e = None" for t e
      using token_invD(5) [OF inv bt [OF that(1)] that(2)] .
    show "br_token r \<noteq> t" if "map_of (bs_by_token (ha_tokens ha')) t = Some e" "bt_reservation_id e = None"
      "held (hs_at ha' i) = Some r" for t e i r
      using token_invD(6) [OF inv bt [OF that(1)] that(2) h [OF that(3)]] .
    show "br_token r \<in> fst ` I" if "held (hs_at ha' i) = Some r" for i r using token_invD(7) [OF inv h [OF that]] .
  qed (use v token_invD(9) [OF inv] in simp_all)
qed

lemma token_inv_set:
  assumes inv: "token_inv cfg I ha" and n: "n < length (ha_handshakes ha)"
    and bt: "map_of (bs_by_token bs) \<subseteq>\<^sub>m map_of (bs_by_token (ha_tokens ha))"
    and st: "held st = None \<or> held st = held (hs_at ha n)" "unused st = None \<or> unused st = unused (hs_at ha n)"
    and v: "\<And>d h v. st = HsVerified d h v \<Longrightarrow> may_register cfg I d v"
  shows "token_inv cfg I (set_handshake (ha\<lparr>ha_tokens := bs, ha_devices := ds\<rparr>) n st)"
proof (rule token_inv_mono [OF inv])
  have hs: "hs_at (set_handshake (ha\<lparr>ha_tokens := bs, ha_devices := ds\<rparr>) n st) i = (if i = n then st else hs_at ha i)" for i
    using n by (simp add: hs_at_def)
  show "held (hs_at (set_handshake (ha\<lparr>ha_tokens := bs, ha_devices := ds\<rparr>) n st) i) = Some r \<Longrightarrow> held (hs_at ha i) = Some r" for i r
    using st(1) by (auto simp: hs split: if_splits)
  show "unused (hs_at (set_handshake (ha\<lparr>ha_tokens := bs, ha_devices := ds\<rparr>) n st) i) = Some r \<Longrightarrow> unused (hs_at ha i) = Some r" for i r
    using st(2) by (auto simp: hs split: if_splits)
  show "hs_at (set_handshake (ha\<lparr>ha_tokens := bs, ha_devices := ds\<rparr>) n st) i = HsVerified d h v \<Longrightarrow> may_register cfg I d v" for i d h v
    using v token_invD(8) [OF inv] by (auto simp: hs split: if_splits)
  show "map_of (bs_by_token (ha_tokens (set_handshake (ha\<lparr>ha_tokens := bs, ha_devices := ds\<rparr>) n st))) t = Some e \<Longrightarrow>
      map_of (bs_by_token (ha_tokens ha)) t = Some e" for t e
    using bt by (simp add: map_le_def) (metis domI)
qed simp

lemma token_inv_tokens:
  assumes "token_inv cfg I ha" and "map_of (bs_by_token bs) \<subseteq>\<^sub>m map_of (bs_by_token (ha_tokens ha))"
  shows "token_inv cfg I (ha\<lparr>ha_tokens := bs\<rparr>)"
  by (rule token_inv_mono [OF assms(1)])
    (use assms token_invD(8) [OF assms(1)] hs_at_cong [of "ha\<lparr>ha_tokens := bs\<rparr>" ha] in \<open>auto simp: map_le_def dom_def\<close>)

lemma token_inv_reserve:
  assumes inv: "token_inv cfg I ha" and n: "n < length (ha_handshakes ha)" "hs_at ha n = HsChallenged"
    and rsv: "reserve (ha_tokens ha) d token rid = (bs, Some r)" and v: "vh_bootstrap_reservation v = Some r"
  shows "token_inv cfg I (set_handshake (ha\<lparr>ha_tokens := bs\<rparr>) n (HsVerified d h v))"
proof -
  let ?ha = "set_handshake (ha\<lparr>ha_tokens := bs\<rparr>) n (HsVerified d h v)"
  from rsv obtain e where e: "map_of (bs_by_token (ha_tokens ha)) token = Some e" "bt_device_id e = d" "bt_reservation_id e = None"
    and bs: "bs_by_token bs = AList.update token (e\<lparr>bt_reservation_id := Some rid\<rparr>) (bs_by_token (ha_tokens ha))"
    and r: "r = \<lparr> br_token = token, br_device_id = d, br_reservation_id = rid \<rparr>"
    by (auto simp: reserve_def split: option.splits if_splits)
  have hs: "hs_at ?ha i = (if i = n then HsVerified d h v else hs_at ha i)" for i using n by (simp add: hs_at_def)
  have used: "used_tokens ?ha = used_tokens ha" by (simp add: used_tokens_def)
  have bt: "map_of (bs_by_token (ha_tokens ?ha)) t = (if t = token then Some (e\<lparr>bt_reservation_id := Some rid\<rparr>) else map_of (bs_by_token (ha_tokens ha)) t)" for t
    by (simp add: bs AList.update_conv')
  note free = token_invD(6) [OF inv e(1,3)] and fresh = token_invD(5) [OF inv e(1,3)] and issued = token_invD(4) [OF inv e(1)]
  have mem: "token \<in> fst ` I" using issued by force
  show ?thesis
  proof (rule token_invI, unfold used hs bt)
    show "i = j" if "held (if i = n then HsVerified d h v else hs_at ha i) = Some r1"
      "held (if j = n then HsVerified d h v else hs_at ha j) = Some r2" "br_token r1 = br_token r2" for i j r1 r2
      using that free [of i r1] free [of j r2] v r token_invD(1) [OF inv, of i r1 j r2] by (auto split: if_splits)
    show "br_token r1 \<notin> set (used_tokens ha)" if "unused (if i = n then HsVerified d h v else hs_at ha i) = Some r1" for i r1
      using that fresh v r token_invD(3) [OF inv, of i r1] by (auto split: if_splits)
    show "(t, bt_device_id e') \<in> I"
      if "(if t = token then Some (e\<lparr>bt_reservation_id := Some rid\<rparr>) else map_of (bs_by_token (ha_tokens ha)) t) = Some e'" for t e'
      using that issued token_invD(4) [OF inv, of t e'] by (auto split: if_splits)
    show "t \<notin> set (used_tokens ha)"
      if "(if t = token then Some (e\<lparr>bt_reservation_id := Some rid\<rparr>) else map_of (bs_by_token (ha_tokens ha)) t) = Some e'"
        "bt_reservation_id e' = None" for t e'
      using that token_invD(5) [OF inv, of t e'] by (auto split: if_splits)
    show "br_token r1 \<noteq> t"
      if "(if t = token then Some (e\<lparr>bt_reservation_id := Some rid\<rparr>) else map_of (bs_by_token (ha_tokens ha)) t) = Some e'"
        "bt_reservation_id e' = None" "held (if i = n then HsVerified d h v else hs_at ha i) = Some r1" for t e' i r1
      using that token_invD(6) [OF inv, of t e' i r1] v r by (auto split: if_splits)
    show "br_token r1 \<in> fst ` I" if "held (if i = n then HsVerified d h v else hs_at ha i) = Some r1" for i r1
      using that mem v r token_invD(7) [OF inv, of i r1] by (cases "i = n") force+
    show "may_register cfg I d' v'" if "(if i = n then HsVerified d h v else hs_at ha i) = HsVerified d' h' v'" for i d' h' v'
      using that v r issued e token_invD(8) [OF inv, of i d' h' v'] by (auto simp: may_register_def split: if_splits)
  qed (use token_invD(2,9) [OF inv] in simp_all)
qed

lemma token_inv_accept:
  assumes inv: "token_inv cfg I ha" and n: "n < length (ha_handshakes ha)" "hs_at ha n = HsVerified d h v"
    and ha': "ha_handshakes ha' = ha_handshakes ha" "ha_tokens ha' = ha_tokens ha"
      "ha_accepted ha' = ha_accepted ha @ [\<lparr> ap_device_id = d, ap_hello = h, ap_verified = v, ap_nonce = nonce \<rparr>]"
  shows "token_inv cfg I (set_handshake ha' n (HsAccepted (vh_bootstrap_reservation v)))"
proof -
  let ?st = "HsAccepted (vh_bootstrap_reservation v)"
  let ?ha = "set_handshake ha' n ?st"
  have hs: "hs_at ?ha i = (if i = n then ?st else hs_at ha i)" for i using n ha'(1) by (simp add: hs_at_def)
  have used: "used_tokens ?ha = used_tokens ha @ token_of v" by (simp add: used_tokens_def ha')
  have tok: "ha_tokens ?ha = ha_tokens ha" by (simp add: ha')
  have mine: "held (hs_at ha n) = vh_bootstrap_reservation v" "unused (hs_at ha n) = vh_bootstrap_reservation v" using n(2) by simp_all
  have held_eq: "held (if i = n then ?st else hs_at ha i) = held (hs_at ha i)" for i using mine by simp
  have tv: "t \<in> set (token_of v) \<longleftrightarrow> (\<exists>r. held (hs_at ha n) = Some r \<and> br_token r = t)" for t
    using mine by (cases "vh_bootstrap_reservation v") (auto simp: token_of_def)
  show ?thesis
  proof (rule token_invI, unfold used hs tok held_eq)
    have "t \<notin> set (used_tokens ha)" if "t \<in> set (token_of v)" for t
      using that token_invD(3) [OF inv, of n] mine by (auto simp: tv)
    moreover have "distinct (token_of v)" by (simp add: token_of_def split: option.split)
    ultimately show "distinct (used_tokens ha @ token_of v)" using token_invD(2) [OF inv] by auto
    show "br_token r \<notin> set (used_tokens ha @ token_of v)" if "unused (if i = n then ?st else hs_at ha i) = Some r" for i r
    proof -
      from that have i: "i \<noteq> n" "unused (hs_at ha i) = Some r" by (auto split: if_splits)
      then show ?thesis
        using token_invD(3) [OF inv i(2)] token_invD(1) [OF inv unused_held [OF i(2)], of n] by (auto simp: tv)
    qed
    show "t \<notin> set (used_tokens ha @ token_of v)"
      if "map_of (bs_by_token (ha_tokens ha)) t = Some e" "bt_reservation_id e = None" for t e
      using token_invD(5) [OF inv that] token_invD(6) [OF inv that, of n] by (auto simp: tv)
    show "may_register cfg I d' v'" if "(if i = n then ?st else hs_at ha i) = HsVerified d' h' v'" for i d' h' v'
      using that token_invD(8) [OF inv, of i d' h' v'] by (auto split: if_splits)
    show "may_register cfg I (ap_device_id a) (ap_verified a)" if "a \<in> set (ha_accepted ?ha)" for a
      using that token_invD(9) [OF inv, of a] token_invD(8) [OF inv n(2)] by (auto simp: ha')
  qed (use token_invD(1,4,6,7) [OF inv] in blast)+
qed

lemma token_inv_release:
  assumes inv: "token_inv cfg I ha" and n: "n < length (ha_handshakes ha)" "hs_at ha n = HsFailed (Some r)"
  shows "token_inv cfg I (set_handshake (ha\<lparr>ha_tokens := release (ha_tokens ha) r\<rparr>) n HsClosed)"
proof -
  let ?ha = "set_handshake (ha\<lparr>ha_tokens := release (ha_tokens ha) r\<rparr>) n HsClosed"
  have hs: "hs_at ?ha i = (if i = n then HsClosed else hs_at ha i)" for i using n by (simp add: hs_at_def)
  have used: "used_tokens ?ha = used_tokens ha" by (simp add: used_tokens_def)
  have acc: "ha_accepted ?ha = ha_accepted ha" by simp
  have bt: "\<exists>e0. map_of (bs_by_token (ha_tokens ha)) t = Some e0 \<and> bt_device_id e = bt_device_id e0 \<and> (t = br_token r \<or> e = e0)"
    if "map_of (bs_by_token (ha_tokens ?ha)) t = Some e" for t e
    using that by (auto simp: release_def AList.update_conv' split: option.splits if_splits)
  have mine: "held (hs_at ha n) = Some r" "unused (hs_at ha n) = Some r" using n(2) by simp_all
  have h: "i \<noteq> n \<and> held (hs_at ha i) = Some r1" if "held (if i = n then HsClosed else hs_at ha i) = Some r1" for i r1
    using that by (simp split: if_splits)
  show ?thesis
  proof (rule token_invI, unfold used hs acc)
    show "i = j" if "held (if i = n then HsClosed else hs_at ha i) = Some r1"
      "held (if j = n then HsClosed else hs_at ha j) = Some r2" "br_token r1 = br_token r2" for i j r1 r2
      using h [OF that(1)] h [OF that(2)] token_invD(1) [OF inv, of i r1 j r2] that(3) by simp
    show "br_token r1 \<notin> set (used_tokens ha)" if "unused (if i = n then HsClosed else hs_at ha i) = Some r1" for i r1
      using that token_invD(3) [OF inv, of i r1] by (simp split: if_splits)
    show "(t, bt_device_id e) \<in> I" if "map_of (bs_by_token (ha_tokens ?ha)) t = Some e" for t e
      using bt [OF that] token_invD(4) [OF inv, of t] by auto
    show "t \<notin> set (used_tokens ha)" if "map_of (bs_by_token (ha_tokens ?ha)) t = Some e" "bt_reservation_id e = None" for t e
      using bt [OF that(1)] that(2) token_invD(5) [OF inv, of t e] token_invD(3) [OF inv mine(2)] by auto
    show "br_token r1 \<noteq> t" if "map_of (bs_by_token (ha_tokens ?ha)) t = Some e" "bt_reservation_id e = None"
      "held (if i = n then HsClosed else hs_at ha i) = Some r1" for t e i r1
      using bt [OF that(1)] that(2) h [OF that(3)] token_invD(6) [OF inv, of t e i r1] token_invD(1) [OF inv, of i r1 n r] mine(1)
      by auto
    show "br_token r1 \<in> fst ` I" if "held (if i = n then HsClosed else hs_at ha i) = Some r1" for i r1
      using h [OF that] token_invD(7) [OF inv, of i r1] by simp
    show "may_register cfg I d' v'" if "(if i = n then HsClosed else hs_at ha i) = HsVerified d' h' v'" for i d' h' v'
      using that token_invD(8) [OF inv, of i d' h' v'] by (simp split: if_splits)
  qed (use token_invD(2,9) [OF inv] in simp_all)
qed

lemma bootstrap_delete_device_le: "map_of (bs_by_token (bootstrap_delete_device bs d)) \<subseteq>\<^sub>m map_of (bs_by_token bs)"
  by (auto simp: bootstrap_delete_device_def AList.delete_conv' map_le_def split: option.split)

lemma consume_le: "map_of (bs_by_token (consume bs r)) \<subseteq>\<^sub>m map_of (bs_by_token bs)"
  by (auto simp: consume_def Let_def AList.delete_conv' map_le_def split: option.split)

lemma issue_draw_cases:
  assumes "issue_draw bs d draws = (bs', res)"
  shows "(\<exists>e. res = Inl e) \<and> bs' = bs \<or>
    (\<exists>t. res = Inr t \<and> bs_by_token bs' = AList.update t \<lparr> bt_device_id = d, bt_reservation_id = None \<rparr> (bs_by_token bs))"
  using assms by (induction bs d draws rule: issue_draw.induct) (auto split: if_splits)

lemma may_register_mono: "may_register cfg I d v \<Longrightarrow> I \<subseteq> J \<Longrightarrow> may_register cfg J d v"
  by (auto simp: may_register_def split: option.splits)

lemma token_inv_issued:
  assumes inv: "token_inv cfg I ha" and t: "t \<notin> fst ` I"
    and bs: "bs_by_token bs = AList.update t \<lparr> bt_device_id = d, bt_reservation_id = None \<rparr> (bs_by_token (ha_tokens ha))"
  shows "token_inv cfg (insert (t, d) I) (ha\<lparr>ha_tokens := bs\<rparr>)"
proof -
  let ?ha = "ha\<lparr>ha_tokens := bs\<rparr>" and ?J = "insert (t, d) I"
  have hs: "hs_at ?ha = hs_at ha" by (rule hs_at_cong) simp
  have used: "used_tokens ?ha = used_tokens ha" by (simp add: used_tokens_def)
  have bt: "map_of (bs_by_token (ha_tokens ?ha)) t' = (if t' = t then Some \<lparr> bt_device_id = d, bt_reservation_id = None \<rparr>
      else map_of (bs_by_token (ha_tokens ha)) t')" for t' by (simp add: bs AList.update_conv')
  have sub: "I \<subseteq> ?J" by blast
  show ?thesis
  proof (rule token_invI, unfold used hs bt)
    show "i = j" if "held (hs_at ha i) = Some r1" "held (hs_at ha j) = Some r2" "br_token r1 = br_token r2" for i j r1 r2
      using token_invD(1) [OF inv that] .
    show "br_token r1 \<notin> set (used_tokens ha)" if "unused (hs_at ha i) = Some r1" for i r1
      using token_invD(3) [OF inv that] .
    show "(t', bt_device_id e) \<in> ?J" if "(if t' = t then Some \<lparr> bt_device_id = d, bt_reservation_id = None \<rparr>
        else map_of (bs_by_token (ha_tokens ha)) t') = Some e" for t' e
      using that token_invD(4) [OF inv, of t' e] by (auto split: if_splits)
    show "t' \<notin> set (used_tokens ha)" if "(if t' = t then Some \<lparr> bt_device_id = d, bt_reservation_id = None \<rparr>
        else map_of (bs_by_token (ha_tokens ha)) t') = Some e" "bt_reservation_id e = None" for t' e
      using that token_invD(5) [OF inv, of t' e] used_tokens_issued [OF inv, of t'] t by (auto split: if_splits)
    show "br_token r1 \<noteq> t'" if "(if t' = t then Some \<lparr> bt_device_id = d, bt_reservation_id = None \<rparr>
        else map_of (bs_by_token (ha_tokens ha)) t') = Some e" "bt_reservation_id e = None" "held (hs_at ha i) = Some r1" for t' e i r1
      using that token_invD(6) [OF inv, of t' e i r1] token_invD(7) [OF inv, of i r1] t by (auto split: if_splits)
    show "br_token r1 \<in> fst ` ?J" if "held (hs_at ha i) = Some r1" for i r1
      using token_invD(7) [OF inv that] by simp
    show "may_register cfg ?J d' v'" if "hs_at ha i = HsVerified d' h' v'" for i d' h' v'
      using token_invD(8) [OF inv that] sub by (rule may_register_mono)
    show "may_register cfg ?J (ap_device_id a) (ap_verified a)" if "a \<in> set (ha_accepted ?ha)" for a
      using token_invD(9) [OF inv, of a] that sub by (simp add: may_register_mono)
  qed (use token_invD(2) [OF inv] in simp)
qed

lemma verify_device_hello_tokens:
  assumes "verify_device_hello cfg bs now rid d h n = Some (bs', Inr v)"
  shows "bs' = bs \<and> vh_bootstrap_reservation v = None \<and> (vh_allow_registration v \<longrightarrow> d = ac_bootstrap_device_id cfg) \<or>
    (\<exists>token r. reserve bs d token rid = (bs', Some r) \<and> vh_bootstrap_reservation v = Some r)"
  using assms
  by (auto simp: verify_device_hello_def split: option.splits Auth.splits sum.splits if_splits prod.splits)

lemma verify_device_hello_Inl:
  assumes "verify_device_hello cfg bs now rid d h n = Some (bs', Inl e)"
  shows "bs' = bs"
  using assms
  by (auto simp: verify_device_hello_def reserve_def split: option.splits Auth.splits sum.splits if_splits prod.splits)

lemma token_inv_hello:
  assumes inv: "token_inv cfg I ha"
  shows "token_inv cfg I (hello_arrives cfg ha n now rid d h)"
proof (cases "n < length (ha_handshakes ha) \<and> snd (ha_handshakes ha ! n) = HsChallenged")
  case True
  then have n: "n < length (ha_handshakes ha)" "hs_at ha n = HsChallenged" by (simp_all add: hs_at_def)
  let ?ver = "verify_device_hello cfg (ha_tokens ha) now rid d h (fst (ha_handshakes ha ! n))"
  have upd: "set_handshake (ha\<lparr>ha_tokens := ha_tokens ha, ha_devices := ha_devices ha\<rparr>) n st = set_handshake ha n st" for st by simp
  have closed: "token_inv cfg I (set_handshake ha n HsClosed)"
    using token_inv_set [OF inv n(1), of "ha_tokens ha" HsClosed "ha_devices ha"] by (simp add: map_le_def upd)
  show ?thesis
  proof (cases ?ver)
    case None
    with True closed show ?thesis by (simp add: hello_arrives_def)
  next
    case (Some p)
    obtain bs res where p: "p = (bs, res)" by fastforce
    show ?thesis
    proof (cases res)
      case (Inl e)
      with Some p verify_device_hello_Inl [of cfg "ha_tokens ha" now rid d h "fst (ha_handshakes ha ! n)" bs e] True closed
      show ?thesis by (simp add: hello_arrives_def)
    next
      case (Inr v)
      with Some p True have eq: "hello_arrives cfg ha n now rid d h = set_handshake (ha\<lparr>ha_tokens := bs\<rparr>) n (HsVerified d h v)"
        by (simp add: hello_arrives_def)
      from Some p Inr have "?ver = Some (bs, Inr v)" by simp
      from verify_device_hello_tokens [OF this] show ?thesis
      proof (elim disjE exE conjE)
        assume "bs = ha_tokens ha" "vh_bootstrap_reservation v = None" "vh_allow_registration v \<longrightarrow> d = ac_bootstrap_device_id cfg"
        then show ?thesis using token_inv_set [OF inv n(1), of "ha_tokens ha" "HsVerified d h v" "ha_devices ha"]
          by (simp add: eq map_le_def upd may_register_def)
      next
        fix token r assume "reserve (ha_tokens ha) d token rid = (bs, Some r)" "vh_bootstrap_reservation v = Some r"
        from token_inv_reserve [OF inv n this] show ?thesis by (simp add: eq)
      qed
    qed
  qed
qed (use inv in \<open>auto simp: hello_arrives_def\<close>)

lemma token_inv_accept_hello:
  assumes inv: "token_inv cfg I ha"
  shows "token_inv cfg I (accept_hello ha n)"
proof (cases "\<exists>nonce d h v. n < length (ha_handshakes ha) \<and> ha_handshakes ha ! n = (nonce, HsVerified d h v)")
  case True
  then obtain nonce d h v where n: "n < length (ha_handshakes ha)" "ha_handshakes ha ! n = (nonce, HsVerified d h v)" by blast
  then have at: "hs_at ha n = HsVerified d h v" by (simp add: hs_at_def)
  obtain ds res where acc: "accept_verified_hello (ha_devices ha) d h v = (ds, res)" by fastforce
  show ?thesis
  proof (cases res)
    case (Inl e)
    have "token_inv cfg I (set_handshake (ha\<lparr>ha_tokens := ha_tokens ha, ha_devices := ds\<rparr>) n (HsFailed (vh_bootstrap_reservation v)))"
      by (rule token_inv_set [OF inv n(1)]) (simp_all add: at map_le_def)
    then show ?thesis using n acc Inl by (simp add: accept_hello_def)
  next
    case (Inr dev)
    then show ?thesis using n acc token_inv_accept [OF inv n(1) at] by (simp add: accept_hello_def)
  qed
qed (use inv in \<open>simp add: accept_hello_idle\<close>)

lemma token_inv_end:
  assumes inv: "token_inv cfg I ha"
  shows "token_inv cfg I (end_handshake ha n)"
proof (cases "n < length (ha_handshakes ha)")
  case True
  then have at: "hs_at ha n = snd (ha_handshakes ha ! n)" by (simp add: hs_at_def)
  have closed: "token_inv cfg I (set_handshake (ha\<lparr>ha_tokens := bs\<rparr>) n HsClosed)"
    if "map_of (bs_by_token bs) \<subseteq>\<^sub>m map_of (bs_by_token (ha_tokens ha))" for bs
    using token_inv_set [OF inv True that, of HsClosed "ha_devices ha"] by simp
  have "token_inv cfg I (set_handshake ha n HsClosed)"
    using closed [of "ha_tokens ha"] by (simp add: map_le_def)
  with True at closed [OF consume_le] token_inv_release [OF inv True] inv show ?thesis
    by (auto simp: end_handshake_def split: handshake_state.split option.split)
qed (use inv in \<open>simp add: end_handshake_def\<close>)

lemma token_inv_frame:
  assumes "token_inv cfg I ha" and "ha_handshakes ha' = ha_handshakes ha" and "ha_accepted ha' = ha_accepted ha"
    and "ha_tokens ha' = ha_tokens ha"
  shows "token_inv cfg I ha'"
  using assms(1) hs_at_cong [OF assms(2)] by (simp add: token_inv_def used_tokens_def assms)

lemma token_inv_step:
  assumes inv: "token_inv cfg I ha" and fresh: "fst ` set (issued_by ha x) \<inter> fst ` I = {}"
  shows "token_inv cfg (I \<union> set (issued_by ha x)) (hub_auth_step cfg ha x)"
proof (cases x)
  case (IssueChallenge nonce)
  have "hs_at (hub_auth_step cfg ha x) i = (if i = length (ha_handshakes ha) then HsChallenged else hs_at ha i)" for i
    by (simp add: IssueChallenge hs_at_def nth_append)
  then have "token_inv cfg I (hub_auth_step cfg ha x)"
    by (intro token_inv_mono [OF inv]) (auto simp: IssueChallenge dest: token_invD(8) [OF inv] split: if_splits)
  then show ?thesis by (simp add: IssueChallenge issued_by_def)
next
  case (IssueToken d draws)
  obtain bs res where issue: "issue (ha_tokens ha) d draws = (bs, res)" by fastforce
  have inv0: "token_inv cfg I (ha\<lparr>ha_tokens := bootstrap_delete_device (ha_tokens ha) d\<rparr>)"
    by (rule token_inv_tokens [OF inv bootstrap_delete_device_le])
  from issue_draw_cases [OF issue [unfolded issue_def]] show ?thesis
  proof (elim disjE conjE exE)
    fix e assume "bs = bootstrap_delete_device (ha_tokens ha) d" "res = Inl e"
    then show ?thesis using inv0 issue by (simp add: IssueToken issued_by_def)
  next
    fix t assume t: "res = Inr t" "bs_by_token bs = AList.update t \<lparr> bt_device_id = d, bt_reservation_id = None \<rparr>
      (bs_by_token (bootstrap_delete_device (ha_tokens ha) d))"
    with fresh issue have "t \<notin> fst ` I" by (simp add: IssueToken issued_by_def)
    from token_inv_issued [OF inv0 this, of bs d] t show ?thesis by (simp add: IssueToken issued_by_def issue)
  qed
qed (use inv token_inv_hello [OF inv] token_inv_accept_hello [OF inv] token_inv_end [OF inv]
      token_inv_tokens [OF inv bootstrap_delete_device_le]
    in \<open>simp_all add: issued_by_def token_inv_frame [OF inv]\<close>)

lemma token_inv_run:
  "token_inv cfg I ha \<Longrightarrow> distinct (map fst (issued_tokens cfg ha xs)) \<Longrightarrow> fst ` set (issued_tokens cfg ha xs) \<inter> fst ` I = {} \<Longrightarrow>
   token_inv cfg (I \<union> set (issued_tokens cfg ha xs)) (run_hub_auth cfg ha xs)"
proof (induction xs arbitrary: I ha)
  case (Cons x xs)
  from Cons.prems have "token_inv cfg (I \<union> set (issued_by ha x)) (hub_auth_step cfg ha x)"
    by (intro token_inv_step) (auto simp: image_Un)
  from Cons.IH [OF this] Cons.prems(2,3) show ?case
    by (simp add: run_hub_auth_def image_Un Un_assoc Int_Un_distrib Int_Un_distrib2 Int_commute)
qed (simp add: run_hub_auth_def)

lemma token_inv_new: "token_inv cfg {} hub_auth_new"
  by (simp add: token_inv_def hub_auth_new_def used_tokens_def bootstrap_new_def hs_at_def)

subsection \<open>Times\<close>

lemma validate_signed_at_iff:
  "validate_signed_at_ms now t age \<longleftrightarrow> unat now \<le> unat t + unat age \<and> unat t \<le> unat now + unat age"
  using unat_lt2p_u64 [of t]
  by (auto simp: validate_signed_at_ms_def word_less_nat_alt unat_saturating_add unat_saturating_sub)

lemma next_hello_increases:
  assumes "next_hello_signed_at_ms identity now = (identity', t)" and "di_last_hello_signed_at_ms identity \<noteq> - 1"
  shows "di_last_hello_signed_at_ms identity < t \<and> now \<le> t \<and> di_last_hello_signed_at_ms identity' = t \<and>
    di_public_key identity' = di_public_key identity"
proof -
  let ?l = "di_last_hello_signed_at_ms identity"
  have "saturating_add ?l 1 = ?l + 1"
    using assms(2) unat_Suc_word [of ?l] unat_lt2p_u64 [of "?l + 1"] by (auto simp: saturating_add_def)
  then have "?l < saturating_add ?l 1" using word_Suc_less [OF assms(2)] by simp
  with assms(1) show ?thesis by (auto simp: next_hello_signed_at_ms_def Let_def less_max_iff_disj)
qed

lemma honest_verified:
  assumes "validate_signed_at_ms now t (ac_max_age_ms cfg)" and "length pk = 32" and "ac_valid_key cfg pk"
    and "build_hello_auth_payload d h t n = Some m" and "length sig = 64" and "ac_verify cfg pk m sig"
    and "he_auth h = Some (Ed25519 pk sig t)"
  shows "verify_device_hello cfg bs now rid d h n =
    Some (bs, Inr \<lparr> vh_public_key = pk, vh_signed_at_ms = t, vh_auth_method = ''ed25519'', vh_allow_registration = False,
      vh_bootstrap_reservation = None \<rparr>)"
  using assms by (simp add: verify_device_hello_def verify_signed_auth_def)

lemma payload_auth [simp]: "build_hello_auth_payload d (h\<lparr>he_auth := a\<rparr>) t n = build_hello_auth_payload d h t n"
  by (simp add: build_hello_auth_payload_def)

subsection \<open>A sample device\<close>

text \<open>A scheme in which only one message, the hello of device \<open>d\<close> for the challenge \<open>[7]\<close>, has a valid signature.\<close>

definition sample_hello :: Hello where
  "sample_hello = \<lparr> he_version = ''1'', he_hostname = ''h'', he_os = ''linux'', he_capabilities = [''exec''], he_last_ack = 0,
     he_auth = Some (Ed25519 (replicate 32 1) (replicate 64 2) 5) \<rparr>"

definition sample_bootstrap_hello :: Hello where
  "sample_bootstrap_hello = sample_hello\<lparr>he_auth := Some (Bootstrap ''tok'' (replicate 32 1) (replicate 64 2) 5)\<rparr>"

definition sample_cfg :: AuthConfig where
  "sample_cfg = \<lparr> ac_valid_key = (\<lambda>pk. True),
     ac_verify = (\<lambda>pk m sig. pk = replicate 32 1 \<and> sig = replicate 64 2 \<and> build_hello_auth_payload ''d'' sample_hello 5 [7] = Some m),
     ac_bootstrap_token = ''static'', ac_bootstrap_device_id = ''root'', ac_max_age_ms = 30000 \<rparr>"

definition sample_new_device :: NewDevice where
  "sample_new_device = \<lparr> nd_id = ''d'', nd_public_key = None, nd_hostname = ''h'', nd_os = ''linux'', nd_capabilities = [],
     nd_version = None, nd_auth_method = ''bootstrap'', nd_external_user_id = None \<rparr>"

definition sample_ops :: "hub_auth_op list" where
  "sample_ops = [CreateDevice sample_new_device, IssueToken ''d'' [''tok''], IssueChallenge [7],
     HelloArrives 0 5 ''rid'' ''d'' sample_bootstrap_hello, AcceptHello 0, EndHandshake 0]"

lemma sample_payload: "\<exists>m. build_hello_auth_payload ''d'' sample_hello 5 [7] = Some m"
  by (simp add: build_payload_Some sample_hello_def)

lemma sample_verified:
  "verify_device_hello sample_cfg bs 5 ''rid'' ''d'' sample_bootstrap_hello [7] =
   (case reserve bs ''d'' ''tok'' ''rid'' of
      (bs, Some r) \<Rightarrow> Some (bs, Inr \<lparr> vh_public_key = replicate 32 1, vh_signed_at_ms = 5, vh_auth_method = ''bootstrap'',
        vh_allow_registration = True, vh_bootstrap_reservation = Some r \<rparr>)
    | (bs, None) \<Rightarrow> Some (bs, Inl Unauthorized))"
proof -
  obtain m where "build_hello_auth_payload ''d'' sample_hello 5 [7] = Some m" using sample_payload by blast
  moreover have "validate_signed_at_ms 5 5 30000" by (simp add: validate_signed_at_iff)
  ultimately show ?thesis
    by (simp add: verify_device_hello_def verify_signed_auth_def sample_bootstrap_hello_def)
      (simp add: sample_cfg_def)
qed

lemma sample_run:
  "ha_accepted (run_hub_auth sample_cfg hub_auth_new sample_ops) =
   [\<lparr> ap_device_id = ''d'', ap_hello = sample_bootstrap_hello,
      ap_verified = \<lparr> vh_public_key = replicate 32 1, vh_signed_at_ms = 5, vh_auth_method = ''bootstrap'',
        vh_allow_registration = True, vh_bootstrap_reservation =
          Some \<lparr> br_token = ''tok'', br_device_id = ''d'', br_reservation_id = ''rid'' \<rparr> \<rparr>,
      ap_nonce = [7] \<rparr>] \<and> issued_tokens sample_cfg hub_auth_new sample_ops = [(''tok'', ''d'')]"
  by (simp add: sample_ops_def run_hub_auth_def hub_auth_new_def bootstrap_new_def device_insert_def sample_new_device_def
      issue_def bootstrap_delete_device_def hello_arrives_def sample_verified reserve_def accept_hello_def set_handshake_def
      accept_verified_hello_def end_handshake_def consume_def issued_by_def Let_def)

section \<open>Properties\<close>

text \<open>
  C21. A signature covers every field. Two hellos with the same signed message are for the same device
  and the same challenge, signed at the same time and equal in all their fields but the
  authentication itself: no bytes can be moved from one field to the next.
\<close>

theorem hello_signature_binds:
  assumes "build_hello_auth_payload d h t n = Some m" and "build_hello_auth_payload d' h' t' n' = Some m"
  shows "d = d' \<and> t = t' \<and> n = n' \<and> same_content h h'"
  using payload_inject [OF assms] by (simp add: payload_content_eq)

theorem hello_signature_binds_witness:
  "\<exists>m. build_hello_auth_payload ''d'' sample_hello 5 [7] = Some m \<and>
       build_hello_auth_payload ''d'' sample_bootstrap_hello 5 [7] = Some m \<and> same_content sample_hello sample_bootstrap_hello"
proof -
  from sample_payload obtain m where m: "build_hello_auth_payload ''d'' sample_hello 5 [7] = Some m" by blast
  then have "build_hello_auth_payload ''d'' sample_bootstrap_hello 5 [7] = Some m" by (simp add: sample_bootstrap_hello_def)
  with m hello_signature_binds [OF m this] show ?thesis by blast
qed





text \<open>
  C3. A bootstrap token registers one device, once. However handshakes, deletions and reissues
  interleave, if the drawn tokens are all different then no two accepted hellos were admitted by the
  same token, each by a token issued for that device; without a token only the configured bootstrap
  device can be registered.
\<close>

theorem bootstrap_token_once:
  assumes ha: "ha = run_hub_auth cfg hub_auth_new xs" and iss: "iss = issued_tokens cfg hub_auth_new xs" and "distinct (map fst iss)"
  shows "distinct (used_tokens ha) \<and>
    (\<forall>a \<in> set (ha_accepted ha). vh_allow_registration (ap_verified a) \<longrightarrow>
      (case vh_bootstrap_reservation (ap_verified a) of
         None \<Rightarrow> ap_device_id a = ac_bootstrap_device_id cfg
       | Some r \<Rightarrow> br_token r \<in> set (used_tokens ha) \<and> (br_token r, ap_device_id a) \<in> set iss))"
proof -
  have inv: "token_inv cfg (set iss) ha"
    using token_inv_run [OF token_inv_new, of cfg xs] assms by simp
  have "br_token r \<in> set (used_tokens ha)"
    if "a \<in> set (ha_accepted ha)" "vh_bootstrap_reservation (ap_verified a) = Some r" for a r
    using that by (auto simp: used_tokens_def token_of_def intro!: bexI [of _ a])
  moreover have "may_register cfg (set iss) (ap_device_id a) (ap_verified a)" if "a \<in> set (ha_accepted ha)" for a
    using token_invD(9) [OF inv that] .
  ultimately show ?thesis using token_invD(2) [OF inv] by (fastforce simp: may_register_def split: option.split)
qed

theorem bootstrap_token_once_witness:
  "used_tokens (run_hub_auth sample_cfg hub_auth_new sample_ops) = [''tok''] \<and>
   (\<exists>a \<in> set (ha_accepted (run_hub_auth sample_cfg hub_auth_new sample_ops)). ap_device_id a = ''d'' \<and>
     (''tok'', ap_device_id a) \<in> set (issued_tokens sample_cfg hub_auth_new sample_ops))"
  using bootstrap_token_once [OF refl refl, of sample_cfg sample_ops] sample_run
  by (simp add: used_tokens_def token_of_def)

text \<open>
  An honest daemon gets in. A daemon whose key the hub has stored, whose last signature is not
  older than the last one the hub has seen and whose clock is within the allowed age of the hub's
  builds a hello that the hub verifies and accepts; the hub then holds exactly the time of the
  daemon's last signature, so that the same is true of the next hello.
\<close>

theorem honest_hello_accepted:
  assumes hello: "build_hello_with_capabilities sign identity now_ms host d last_ack caps nonce None = Some (identity', hello)"
    and sign: "\<And>m. length (sign m) = 64 \<and> ac_verify cfg (di_public_key identity) m (sign m)"
    and key: "length (di_public_key identity) = 32" "ac_valid_key cfg (di_public_key identity)"
    and stored: "map_of (ha_devices ha) d = Some stored" "dv_public_key (sd_device stored) = Some (di_public_key identity)"
    and last: "sd_last_signed_at_ms stored \<le> di_last_hello_signed_at_ms identity" "di_last_hello_signed_at_ms identity \<noteq> - 1"
    and clock: "unat hub_now \<le> unat (di_last_hello_signed_at_ms identity') + unat (ac_max_age_ms cfg)"
      "unat (di_last_hello_signed_at_ms identity') \<le> unat hub_now + unat (ac_max_age_ms cfg)"
    and hs: "n < length (ha_handshakes ha)" "ha_handshakes ha ! n = (nonce, HsChallenged)"
    and ha': "ha' = accept_hello (hello_arrives cfg ha n hub_now rid d hello) n"
  shows "snd (ha_handshakes ha' ! n) = HsAccepted None \<and> di_last_hello_signed_at_ms identity < di_last_hello_signed_at_ms identity' \<and>
    (\<exists>stored'. map_of (ha_devices ha') d = Some stored' \<and> dv_public_key (sd_device stored') = Some (di_public_key identity') \<and>
       sd_last_signed_at_ms stored' = di_last_hello_signed_at_ms identity' \<and> dv_capabilities (sd_device stored') = caps)"
proof -
  obtain version hostname os where host: "host = (version, hostname, os)" by (cases host)
  obtain i t where it: "next_hello_signed_at_ms identity now_ms = (i, t)" by fastforce
  note nxt = next_hello_increases [OF it last(2)]
  let ?h = "\<lparr> he_version = version, he_hostname = hostname, he_os = os, he_capabilities = caps, he_last_ack = last_ack, he_auth = None \<rparr>"
  from hello it host obtain m where m: "build_hello_auth_payload d ?h t nonce = Some m" and i: "identity' = i"
    and h: "hello = ?h\<lparr>he_auth := Some (Ed25519 (di_public_key i) (sign m) t)\<rparr>"
    by (auto simp: build_hello_with_capabilities_def sign_hello_def Let_def split: option.splits)
  have t: "sd_last_signed_at_ms stored < t" using nxt last(1) by (auto intro: le_less_trans)
  have ver: "verify_device_hello cfg (ha_tokens ha) hub_now rid d hello nonce = Some (ha_tokens ha, Inr
      \<lparr> vh_public_key = di_public_key identity, vh_signed_at_ms = t, vh_auth_method = ''ed25519'', vh_allow_registration = False,
        vh_bootstrap_reservation = None \<rparr>)"
    using clock nxt i sign key m payload_auth [where h = ?h and d = d and t = t and n = nonce]
    by (intro honest_verified [where m = m and sig = "sign m"]) (simp_all add: validate_signed_at_iff h)
  from t have "\<not> t \<le> sd_last_signed_at_ms stored" by simp
  with ver hs stored nxt i show ?thesis
    unfolding ha' by (simp add: hello_arrives_def accept_hello_def set_handshake_def accept_verified_hello_def Let_def AList.update_conv' h)
qed

text \<open>A daemon and a hub in which every signature is valid, the daemon's key being stored.\<close>

definition sample_identity :: DeviceIdentity where
  "sample_identity = \<lparr> di_public_key = replicate 32 1, di_last_hello_signed_at_ms = 3 \<rparr>"

definition sample_open_cfg :: AuthConfig where
  "sample_open_cfg = sample_cfg\<lparr>ac_verify := \<lambda>pk m sig. sig = replicate 64 2\<rparr>"

definition sample_hub :: HubAuth where
  "sample_hub = run_hub_auth sample_open_cfg hub_auth_new [PreRegister ''d'' (replicate 32 1) ''u'', IssueChallenge [7]]"

theorem honest_hello_accepted_witness:
  "\<exists>identity' hello. build_hello_with_capabilities (\<lambda>m. replicate 64 2) sample_identity 10 (''1'', ''h'', ''linux'') ''d'' 0
      [''exec''] [7] None = Some (identity', hello) \<and>
    snd (ha_handshakes (accept_hello (hello_arrives sample_open_cfg sample_hub 0 12 ''r'' ''d'' hello) 0) ! 0) = HsAccepted None"
proof -
  let ?h = "\<lparr> he_version = ''1'', he_hostname = ''h'', he_os = ''linux'', he_capabilities = [''exec''], he_last_ack = 0, he_auth = None \<rparr>"
  have nxt: "next_hello_signed_at_ms sample_identity 10 = (sample_identity\<lparr>di_last_hello_signed_at_ms := 10\<rparr>, 10)"
    by (simp add: next_hello_signed_at_ms_def sample_identity_def saturating_add_def max_def)
  have "\<exists>m. build_hello_auth_payload ''d'' ?h 10 [7] = Some m" by (simp add: build_payload_Some)
  then obtain identity' hello where hello: "build_hello_with_capabilities (\<lambda>m. replicate 64 2) sample_identity 10
      (''1'', ''h'', ''linux'') ''d'' 0 [''exec''] [7] None = Some (identity', hello)"
    and i: "identity' = sample_identity\<lparr>di_last_hello_signed_at_ms := 10\<rparr>"
    by (auto simp: build_hello_with_capabilities_def sign_hello_def nxt)
  have hub: "ha_handshakes sample_hub = [([7], HsChallenged)]" "\<exists>stored. map_of (ha_devices sample_hub) ''d'' = Some stored \<and>
      dv_public_key (sd_device stored) = Some (replicate 32 1) \<and> sd_last_signed_at_ms stored = 0"
    by (simp_all add: sample_hub_def run_hub_auth_def hub_auth_new_def pre_register_def Let_def)
  then obtain stored where stored: "map_of (ha_devices sample_hub) ''d'' = Some stored"
    "dv_public_key (sd_device stored) = Some (replicate 32 1)" "sd_last_signed_at_ms stored = 0" by blast
  from honest_hello_accepted [OF hello, of sample_open_cfg sample_hub stored 12 0 _ "''r''", OF _ _ _ stored(1) _ _ _ _ _ _ _ refl]
    hello stored hub(1) show ?thesis
    by (auto simp: i sample_identity_def sample_open_cfg_def sample_cfg_def)
qed

end
