(* ===== verification/Job_Runtime.thy ===== *)
theory Job_Runtime
  imports Connections Output_Stream Pending_Requests Device_Auth
begin

text \<open>
  The life of a job in the hub, \<^verbatim>\<open>JobRuntime\<close> in \<^verbatim>\<open>ahand-hub/src/http/jobs.rs\<close> over \<^verbatim>\<open>JobDispatcher\<close>
  (\<^verbatim>\<open>ahand-hub-core/src/services/job_dispatcher.rs\<close>), the in-memory job store, the connection
  registry, the output stream and the job events of \<^verbatim>\<open>ahand-hub/src/events.rs\<close>: a job is created and
  sent to its device, the device's frames move it on and fill its output, and it ends by a frame, a
  cancellation, its timer or the loss of its device.

  A spawned timer is an entry of a task table; its next step is a definition of its own. The clock,
  the drawn job id and the decoded frame are arguments. \<open>create_job\<close> awaits between its parts, so each
  part is a definition; so are the check and the effect of \<open>finish_job\<close>.
\<close>

section \<open>Definitions\<close>

subsection \<open>State\<close>

datatype HubPayload =
    SendJobRequest string string "string list" string "(string \<times> string) list" u64 bool
  | SendCancelJob string

datatype JobEventKind = StdoutChunk bytes | StderrChunk bytes | ProgressEvent nat

datatype DevicePayload =
    RecvJobEvent string "JobEventKind option"
  | RecvJobFinished string int string
  | RecvJobRejected string string
  | RecvFileResponse string string
  | RecvOther

record DashboardEvent =
  de_event :: string
  de_resource_id :: string
  de_actor :: string

text \<open>A timer of a job: its device, and whether it has asked the device to cancel and waits for the grace period.\<close>

record TimeoutTask =
  tt_device_id :: string
  tt_cancel_sent :: bool

record 'g JobRuntime =
  jt_devices :: MemoryDeviceStore
  jt_jobs :: MemoryJobStore
  jt_connections :: "'g ConnectionRegistry"
  jt_events :: "DashboardEvent list"
  jt_output :: MemoryOutputStream
  jt_timeout_tasks :: "(string \<times> TimeoutTask) list"
  jt_disconnect_tasks :: "(string \<times> string) list"
  jt_pending_files :: "string PendingFileRequests"

text \<open>The outbox store, the protobuf encoder, and \<^verbatim>\<open>String::from_utf8_lossy\<close>.\<close>

record 'g RuntimeEnv =
  re_ops :: "'g OutboxOps"
  re_encode :: "HubPayload Envelope \<Rightarrow> bytes"
  re_lossy :: "bytes \<Rightarrow> string"

datatype RuntimeError = HubErr HubError | Bail string

type_synonym ('g, 'a) rt_result = "'g JobRuntime \<times> (RuntimeError + 'a)"

subsection \<open>Names and summaries\<close>

definition job_status_name :: "JobStatus \<Rightarrow> string" where
  "job_status_name status =
     (case status of
        Pending \<Rightarrow> ''pending''
      | Sent \<Rightarrow> ''sent''
      | Running \<Rightarrow> ''running''
      | Finished \<Rightarrow> ''finished''
      | Failed \<Rightarrow> ''failed''
      | Cancelled \<Rightarrow> ''cancelled'')"

definition parse_job_status :: "string option \<Rightarrow> string + JobStatus option" where
  "parse_job_status status =
     (case status of
        None \<Rightarrow> Inr None
      | Some s \<Rightarrow>
          if s = ''pending'' then Inr (Some Pending)
          else if s = ''sent'' then Inr (Some Sent)
          else if s = ''running'' then Inr (Some Running)
          else if s = ''finished'' then Inr (Some Finished)
          else if s = ''failed'' then Inr (Some Failed)
          else if s = ''cancelled'' then Inr (Some Cancelled)
          else Inl (''Invalid job status: '' @ s))"

definition show_int :: "int \<Rightarrow> string" where
  "show_int i = (if i < 0 then CHR ''-'' # show_nat (nat (- i)) else show_nat (nat i))"

definition build_output_summary :: "int \<Rightarrow> string \<Rightarrow> string" where
  "build_output_summary exit_code err =
     take_chars 1024
       (if err \<noteq> [] then err
        else if exit_code = 0 then ''completed successfully''
        else ''exit code '' @ show_int exit_code)"

definition apply_pagination :: "'a list \<Rightarrow> nat \<Rightarrow> nat option \<Rightarrow> 'a list" where
  "apply_pagination items offset limit =
     (if offset = 0 \<and> limit = None then items
      else (case limit of None \<Rightarrow> take (2 ^ 64 - 1) (drop offset items) | Some n \<Rightarrow> take n (drop offset items)))"

definition job_status_action :: "JobStatus \<Rightarrow> string option" where
  "job_status_action status =
     (case status of
        Sent \<Rightarrow> Some ''job.sent''
      | Running \<Rightarrow> Some ''job.running''
      | Finished \<Rightarrow> Some ''job.finished''
      | Failed \<Rightarrow> Some ''job.failed''
      | Cancelled \<Rightarrow> Some ''job.cancelled''
      | Pending \<Rightarrow> None)"

definition emit_job_status :: "'g JobRuntime \<Rightarrow> Job \<Rightarrow> string \<Rightarrow> 'g JobRuntime" where
  "emit_job_status rt job actor =
     (case job_status_action (job_status job) of
        None \<Rightarrow> rt
      | Some action \<Rightarrow> rt\<lparr>jt_events := jt_events rt @ [\<lparr> de_event = action, de_resource_id = job_id job, de_actor = actor \<rparr>]\<rparr>)"

definition publish_job_created :: "'g JobRuntime \<Rightarrow> Job \<Rightarrow> 'g JobRuntime" where
  "publish_job_created rt job =
     rt\<lparr>jt_events := jt_events rt @
       [\<lparr> de_event = ''job.created'', de_resource_id = job_id job, de_actor = job_requested_by job \<rparr>]\<rparr>"

subsection \<open>Task tables\<close>

definition clear_timeout_task :: "'g JobRuntime \<Rightarrow> string \<Rightarrow> 'g JobRuntime" where
  "clear_timeout_task rt i = rt\<lparr>jt_timeout_tasks := AList.delete i (jt_timeout_tasks rt)\<rparr>"

definition clear_disconnect_task :: "'g JobRuntime \<Rightarrow> string \<Rightarrow> 'g JobRuntime" where
  "clear_disconnect_task rt i = rt\<lparr>jt_disconnect_tasks := AList.delete i (jt_disconnect_tasks rt)\<rparr>"

definition clear_lifecycle_tasks :: "'g JobRuntime \<Rightarrow> string \<Rightarrow> 'g JobRuntime" where
  "clear_lifecycle_tasks rt i = clear_disconnect_task (clear_timeout_task rt i) i"

definition remove_timeout_task :: "'g JobRuntime \<Rightarrow> string \<Rightarrow> 'g JobRuntime" where
  "remove_timeout_task rt i = rt\<lparr>jt_timeout_tasks := AList.delete i (jt_timeout_tasks rt)\<rparr>"

definition remove_disconnect_task :: "'g JobRuntime \<Rightarrow> string \<Rightarrow> 'g JobRuntime" where
  "remove_disconnect_task rt i = rt\<lparr>jt_disconnect_tasks := AList.delete i (jt_disconnect_tasks rt)\<rparr>"

definition schedule_timeout :: "'g JobRuntime \<Rightarrow> Job \<Rightarrow> 'g JobRuntime" where
  "schedule_timeout rt job =
     rt\<lparr>jt_timeout_tasks := AList.update (job_id job) \<lparr> tt_device_id = job_device_id job, tt_cancel_sent = False \<rparr> (jt_timeout_tasks rt)\<rparr>"

definition schedule_disconnect_failure :: "'g JobRuntime \<Rightarrow> Job \<Rightarrow> 'g JobRuntime" where
  "schedule_disconnect_failure rt job =
     rt\<lparr>jt_disconnect_tasks := AList.update (job_id job) (job_device_id job) (jt_disconnect_tasks rt)\<rparr>"

subsection \<open>Transitions and the end of a job\<close>

definition transition_job :: "'g JobRuntime \<Rightarrow> timestamp \<Rightarrow> string \<Rightarrow> JobStatus \<Rightarrow> string \<Rightarrow> ('g, JobStatus) rt_result" where
  "transition_job rt now i status actor =
     (case transition_status (jt_jobs rt) i status now of
        Inl e \<Rightarrow> (rt, Inl (HubErr e))
      | Inr (jobs, transitioned) \<Rightarrow>
          (let rt = rt\<lparr>jt_jobs := jobs\<rparr>
           in case get_job jobs i of
                None \<Rightarrow> (rt, Inl (HubErr (JobNotFound i)))
              | Some job \<Rightarrow> (if transitioned \<noteq> None then emit_job_status rt job actor else rt, Inr (job_status job))))"

definition record_terminal_state :: "'g JobRuntime \<Rightarrow> string \<Rightarrow> int \<Rightarrow> string \<Rightarrow> ('g, unit) rt_result" where
  "record_terminal_state rt i exit_code err =
     (case update_terminal (jt_jobs rt) i exit_code err (build_output_summary exit_code err) of
        Inl e \<Rightarrow> (rt, Inl (HubErr e))
      | Inr jobs \<Rightarrow> (rt\<lparr>jt_jobs := jobs\<rparr>, Inr ()))"

text \<open>The sequence of \<^verbatim>\<open>transition_job\<close>, \<^verbatim>\<open>record_terminal_state\<close> and \<^verbatim>\<open>push_finished\<close> that ends a job.\<close>

definition end_job ::
  "'g JobRuntime \<Rightarrow> timestamp \<Rightarrow> string \<Rightarrow> JobStatus \<Rightarrow> int \<Rightarrow> string \<Rightarrow> string \<Rightarrow> ('g, unit) rt_result" where
  "end_job rt now i status exit_code err actor =
     (case transition_job rt now i status actor of
        (rt, Inl e) \<Rightarrow> (rt, Inl e)
      | (rt, Inr _) \<Rightarrow>
          (case record_terminal_state rt i exit_code err of
             (rt, Inl e) \<Rightarrow> (rt, Inl e)
           | (rt, Inr _) \<Rightarrow> (rt\<lparr>jt_output := push_finished (jt_output rt) i exit_code err\<rparr>, Inr ())))"

definition finish_job_done :: "'g JobRuntime \<Rightarrow> string \<Rightarrow> bool" where
  "finish_job_done rt i = (case get_job (jt_jobs rt) i of None \<Rightarrow> False | Some job \<Rightarrow> is_terminal_status (job_status job))"

definition finish_job_apply ::
  "'g JobRuntime \<Rightarrow> timestamp \<Rightarrow> string \<Rightarrow> JobStatus \<Rightarrow> int \<Rightarrow> string \<Rightarrow> string \<Rightarrow> ('g, unit) rt_result" where
  "finish_job_apply rt now i status exit_code err actor =
     end_job (clear_lifecycle_tasks rt i) now i status exit_code err actor"

definition finish_job ::
  "'g JobRuntime \<Rightarrow> timestamp \<Rightarrow> string \<Rightarrow> JobStatus \<Rightarrow> int \<Rightarrow> string \<Rightarrow> string \<Rightarrow> ('g, unit) rt_result" where
  "finish_job rt now i status exit_code err actor =
     (if finish_job_done rt i then (clear_lifecycle_tasks rt i, Inr ())
      else finish_job_apply rt now i status exit_code err actor)"

subsection \<open>Creating a job\<close>

definition dispatcher_create_job :: "'g JobRuntime \<Rightarrow> timestamp \<Rightarrow> uuid \<Rightarrow> NewJob \<Rightarrow> ('g, Job) rt_result" where
  "dispatcher_create_job rt now i nj =
     (case device_get (jt_devices rt) (nj_device_id nj) of
        None \<Rightarrow> (rt, Inl (HubErr (DeviceNotFound (nj_device_id nj))))
      | Some device \<Rightarrow>
          if \<not> dv_online device then (rt, Inl (HubErr (DeviceOffline (dv_id device))))
          else (case insert_job (jt_jobs rt) i now nj of (jobs, job) \<Rightarrow> (rt\<lparr>jt_jobs := jobs\<rparr>, Inr job)))"

definition create_insert :: "'g JobRuntime \<Rightarrow> timestamp \<Rightarrow> uuid \<Rightarrow> NewJob \<Rightarrow> ('g, Job) rt_result" where
  "create_insert rt now i nj =
     (case dispatcher_create_job rt now i nj of
        (rt, Inl e) \<Rightarrow> (rt, Inl e)
      | (rt, Inr job) \<Rightarrow> (publish_job_created (rt\<lparr>jt_output := prime (jt_output rt) (job_id job)\<rparr>) job, Inr job))"

definition job_request_envelope :: "Job \<Rightarrow> u64 \<Rightarrow> HubPayload Envelope" where
  "job_request_envelope job now_ms =
     \<lparr> env_device_id = job_device_id job, env_trace_id = [], env_msg_id = ''job-'' @ job_id job, env_seq = 0, env_ack = 0,
       env_ts_ms = now_ms,
       env_payload = Some (SendJobRequest (job_id job) (job_tool job) (job_args job)
         (case job_cwd job of None \<Rightarrow> [] | Some cwd \<Rightarrow> cwd) (job_env job) (job_timeout_ms job) (job_interactive job)) \<rparr>"

definition cancel_envelope :: "string \<Rightarrow> string \<Rightarrow> string \<Rightarrow> u64 \<Rightarrow> HubPayload Envelope" where
  "cancel_envelope prefix device_id i now_ms =
     \<lparr> env_device_id = device_id, env_trace_id = [], env_msg_id = prefix @ i, env_seq = 0, env_ack = 0, env_ts_ms = now_ms,
       env_payload = Some (SendCancelJob i) \<rparr>"

definition rt_send :: "'g RuntimeEnv \<Rightarrow> 'g JobRuntime \<Rightarrow> string \<Rightarrow> HubPayload Envelope \<Rightarrow> 'g JobRuntime \<times> (HubError + unit)" where
  "rt_send re rt device_id envelope =
     (case conn_send (re_ops re) (re_encode re) (jt_connections rt) device_id envelope of
        (reg, res) \<Rightarrow> (rt\<lparr>jt_connections := reg\<rparr>, res))"

text \<open>\<open>show_error\<close> is the \<^verbatim>\<open>Display\<close> text of the error of a failed send.\<close>

definition create_send ::
  "'g RuntimeEnv \<Rightarrow> (HubError \<Rightarrow> string) \<Rightarrow> 'g JobRuntime \<Rightarrow> timestamp \<Rightarrow> u64 \<Rightarrow> Job \<Rightarrow> ('g, unit) rt_result" where
  "create_send re show_error rt now now_ms job =
     (case transition_job rt now (job_id job) Sent ''service:api'' of
        (rt, Inl e) \<Rightarrow> (rt, Inl e)
      | (rt, Inr _) \<Rightarrow>
          (case rt_send re rt (job_device_id job) (job_request_envelope job now_ms) of
             (rt, Inr _) \<Rightarrow> (rt, Inr ())
           | (rt, Inl err) \<Rightarrow>
               (case end_job rt now (job_id job) Failed (- 1) (show_error err) ''hub:dispatch'' of
                  (rt, Inl e) \<Rightarrow> (rt, Inl e)
                | (rt, Inr _) \<Rightarrow> (rt, Inl (HubErr (DeviceOffline (job_device_id job)))))))"

definition create_job ::
  "'g RuntimeEnv \<Rightarrow> (HubError \<Rightarrow> string) \<Rightarrow> 'g JobRuntime \<Rightarrow> timestamp \<Rightarrow> u64 \<Rightarrow> uuid \<Rightarrow> NewJob \<Rightarrow> ('g, Job) rt_result" where
  "create_job re show_error rt now now_ms i nj =
     (case create_insert rt now i nj of
        (rt, Inl e) \<Rightarrow> (rt, Inl e)
      | (rt, Inr job) \<Rightarrow>
          (case create_send re show_error rt now now_ms job of
             (rt, Inl e) \<Rightarrow> (rt, Inl e)
           | (rt, Inr _) \<Rightarrow>
               (let rt = schedule_timeout rt job
                in (rt, Inr (case get_job (jt_jobs rt) (job_id job) of None \<Rightarrow> job | Some job \<Rightarrow> job)))))"

subsection \<open>Cancelling a job\<close>

definition cancel_job :: "'g RuntimeEnv \<Rightarrow> 'g JobRuntime \<Rightarrow> timestamp \<Rightarrow> u64 \<Rightarrow> string \<Rightarrow> ('g, Job) rt_result" where
  "cancel_job re rt now now_ms i =
     (case get_job (jt_jobs rt) i of
        None \<Rightarrow> (rt, Inl (HubErr (JobNotFound i)))
      | Some job \<Rightarrow>
          if is_terminal_status (job_status job) then (rt, Inl (HubErr (JobNotCancellable i)))
          else (case rt_send re rt (job_device_id job) (cancel_envelope ''cancel-'' (job_device_id job) i now_ms) of
                  (rt, Inl _) \<Rightarrow> (rt, Inl (HubErr (DeviceOffline (job_device_id job))))
                | (rt, Inr _) \<Rightarrow>
                    (case finish_job rt now i Cancelled (- 1) ''cancelled'' ''service:api'' of
                       (rt, Inl e) \<Rightarrow> (rt, Inl e)
                     | (rt, Inr _) \<Rightarrow>
                         (rt, case get_job (jt_jobs rt) i of None \<Rightarrow> Inl (HubErr (JobNotFound i)) | Some job \<Rightarrow> Inr job))))"

subsection \<open>Frames of a device\<close>

definition job_for_device :: "'g JobRuntime \<Rightarrow> string \<Rightarrow> string \<Rightarrow> RuntimeError + Job option" where
  "job_for_device rt device_id i =
     (case get_job (jt_jobs rt) i of
        None \<Rightarrow> Inr None
      | Some job \<Rightarrow>
          if job_device_id job \<noteq> device_id
          then Inl (Bail (''job '' @ i @ '' does not belong to connected device '' @ device_id))
          else Inr (Some job))"

definition rt_observe_inbound :: "'g RuntimeEnv \<Rightarrow> 'g JobRuntime \<Rightarrow> string \<Rightarrow> u64 \<Rightarrow> u64 \<Rightarrow> 'g JobRuntime" where
  "rt_observe_inbound re rt device_id seq ack =
     rt\<lparr>jt_connections := observe_inbound (re_ops re) (jt_connections rt) device_id seq ack\<rparr>"

definition handle_stale_device_frame_error ::
  "'g RuntimeEnv \<Rightarrow> 'g JobRuntime \<Rightarrow> string \<Rightarrow> u64 \<Rightarrow> u64 \<Rightarrow> RuntimeError \<Rightarrow> ('g, unit) rt_result" where
  "handle_stale_device_frame_error re rt device_id seq ack err =
     (case err of
        HubErr (IllegalJobTransition current _) \<Rightarrow>
          if is_terminal_status current then (rt_observe_inbound re rt device_id seq ack, Inr ()) else (rt, Inl err)
      | _ \<Rightarrow> (rt, Inl err))"

definition push_event :: "'g RuntimeEnv \<Rightarrow> 'g JobRuntime \<Rightarrow> string \<Rightarrow> JobEventKind \<Rightarrow> 'g JobRuntime" where
  "push_event re rt i kind =
     rt\<lparr>jt_output :=
       (case kind of
          StdoutChunk chunk \<Rightarrow> push_stdout (re_lossy re) (jt_output rt) i chunk
        | StderrChunk chunk \<Rightarrow> push_stderr (re_lossy re) (jt_output rt) i chunk
        | ProgressEvent progress \<Rightarrow> push_progress (jt_output rt) i progress)\<rparr>"

text \<open>
  The arms of \<^verbatim>\<open>handle_device_frame\<close> for the job messages. The flag of the result tells whether the frame
  still has to be acknowledged; the early returns of the source have done that themselves.
\<close>

definition handle_job_event ::
  "'g RuntimeEnv \<Rightarrow> 'g JobRuntime \<Rightarrow> timestamp \<Rightarrow> string \<Rightarrow> u64 \<Rightarrow> u64 \<Rightarrow> string \<Rightarrow> JobEventKind option \<Rightarrow> ('g, bool) rt_result" where
  "handle_job_event re rt now device_id seq ack i event =
     (case job_for_device rt device_id i of
        Inl e \<Rightarrow> (rt, Inl e)
      | Inr None \<Rightarrow> (rt_observe_inbound re rt device_id seq ack, Inr False)
      | Inr (Some job) \<Rightarrow>
          (let rt = clear_disconnect_task rt i
           in if is_terminal_status (job_status job) then (rt_observe_inbound re rt device_id seq ack, Inr False)
              else (case event of
                      None \<Rightarrow> (rt, Inr True)
                    | Some kind \<Rightarrow>
                        (case transition_job rt now i Running (''device:'' @ device_id) of
                           (rt, Inl err) \<Rightarrow>
                             (case handle_stale_device_frame_error re rt device_id seq ack err of
                                (rt, Inl e) \<Rightarrow> (rt, Inl e) | (rt, Inr _) \<Rightarrow> (rt, Inr False))
                         | (rt, Inr _) \<Rightarrow> (push_event re rt i kind, Inr True)))))"

definition finished_status :: "int \<Rightarrow> string \<Rightarrow> JobStatus" where
  "finished_status exit_code err =
     (if err = ''cancelled'' then Cancelled else if exit_code = 0 \<and> err = [] then Finished else Failed)"

definition finish_from_frame ::
  "'g RuntimeEnv \<Rightarrow> 'g JobRuntime \<Rightarrow> timestamp \<Rightarrow> string \<Rightarrow> u64 \<Rightarrow> u64 \<Rightarrow> string \<Rightarrow> JobStatus \<Rightarrow> int \<Rightarrow> string \<Rightarrow> ('g, bool) rt_result" where
  "finish_from_frame re rt now device_id seq ack i status exit_code err =
     (case finish_job rt now i status exit_code err (''device:'' @ device_id) of
        (rt, Inl e) \<Rightarrow>
          (case handle_stale_device_frame_error re rt device_id seq ack e of
             (rt, Inl e) \<Rightarrow> (rt, Inl e) | (rt, Inr _) \<Rightarrow> (rt, Inr False))
      | (rt, Inr _) \<Rightarrow> (rt, Inr True))"

definition handle_job_finished ::
  "'g RuntimeEnv \<Rightarrow> 'g JobRuntime \<Rightarrow> timestamp \<Rightarrow> string \<Rightarrow> u64 \<Rightarrow> u64 \<Rightarrow> string \<Rightarrow> int \<Rightarrow> string \<Rightarrow> ('g, bool) rt_result" where
  "handle_job_finished re rt now device_id seq ack i exit_code err =
     (case job_for_device rt device_id i of
        Inl e \<Rightarrow> (rt, Inl e)
      | Inr None \<Rightarrow> (rt_observe_inbound re rt device_id seq ack, Inr False)
      | Inr (Some job) \<Rightarrow>
          (let rt = clear_disconnect_task rt i
           in if is_terminal_status (job_status job) then (rt_observe_inbound re rt device_id seq ack, Inr False)
              else if job_status job \<noteq> Running
              then (case transition_job rt now i Running (''device:'' @ device_id) of
                      (rt, Inl e) \<Rightarrow>
                        (case handle_stale_device_frame_error re rt device_id seq ack e of
                           (rt, Inl e) \<Rightarrow> (rt, Inl e) | (rt, Inr _) \<Rightarrow> (rt, Inr False))
                    | (rt, Inr _) \<Rightarrow>
                        finish_from_frame re rt now device_id seq ack i (finished_status exit_code err) exit_code err)
              else finish_from_frame re rt now device_id seq ack i (finished_status exit_code err) exit_code err))"

definition handle_job_rejected ::
  "'g RuntimeEnv \<Rightarrow> 'g JobRuntime \<Rightarrow> timestamp \<Rightarrow> string \<Rightarrow> u64 \<Rightarrow> u64 \<Rightarrow> string \<Rightarrow> string \<Rightarrow> ('g, bool) rt_result" where
  "handle_job_rejected re rt now device_id seq ack i reason =
     (case job_for_device rt device_id i of
        Inl e \<Rightarrow> (rt, Inl e)
      | Inr None \<Rightarrow> (rt_observe_inbound re rt device_id seq ack, Inr False)
      | Inr (Some job) \<Rightarrow>
          (let rt = clear_disconnect_task rt i
           in if is_terminal_status (job_status job) then (rt_observe_inbound re rt device_id seq ack, Inr False)
              else finish_from_frame re rt now device_id seq ack i Failed (- 1) reason))"

definition handle_payload ::
  "'g RuntimeEnv \<Rightarrow> 'g JobRuntime \<Rightarrow> timestamp \<Rightarrow> string \<Rightarrow> u64 \<Rightarrow> u64 \<Rightarrow> DevicePayload option \<Rightarrow> ('g, bool) rt_result" where
  "handle_payload re rt now device_id seq ack payload =
     (case payload of
        Some (RecvJobEvent i event) \<Rightarrow> handle_job_event re rt now device_id seq ack i event
      | Some (RecvJobFinished i exit_code err) \<Rightarrow> handle_job_finished re rt now device_id seq ack i exit_code err
      | Some (RecvJobRejected i reason) \<Rightarrow> handle_job_rejected re rt now device_id seq ack i reason
      | Some (RecvFileResponse request_id response) \<Rightarrow>
          (rt\<lparr>jt_pending_files := pf_resolve (jt_pending_files rt) device_id request_id response\<rparr>, Inr True)
      | _ \<Rightarrow> (rt, Inr True))"

definition handle_device_frame ::
  "'g RuntimeEnv \<Rightarrow> 'g JobRuntime \<Rightarrow> timestamp \<Rightarrow> string \<Rightarrow> string + DevicePayload Envelope \<Rightarrow> ('g, unit) rt_result" where
  "handle_device_frame re rt now device_id frame =
     (case frame of
        Inl err \<Rightarrow> (rt, Inl (Bail err))
      | Inr envelope \<Rightarrow>
          if has_seen_inbound (jt_connections rt) device_id (env_seq envelope)
          then (rt\<lparr>jt_connections := observe_ack (re_ops re) (jt_connections rt) device_id (env_ack envelope)\<rparr>, Inr ())
          else (case handle_payload re rt now device_id (env_seq envelope) (env_ack envelope) (env_payload envelope) of
                  (rt, Inl e) \<Rightarrow> (rt, Inl e)
                | (rt, Inr False) \<Rightarrow> (rt, Inr ())
                | (rt, Inr True) \<Rightarrow> (rt_observe_inbound re rt device_id (env_seq envelope) (env_ack envelope), Inr ())))"

subsection \<open>Connections come and go\<close>

definition device_jobs :: "'g JobRuntime \<Rightarrow> string \<Rightarrow> Job list" where
  "device_jobs rt device_id = list_jobs (jt_jobs rt) \<lparr> jf_device_id = Some device_id, jf_status = None \<rparr>"

definition handle_device_connected :: "'g JobRuntime \<Rightarrow> string \<Rightarrow> 'g JobRuntime" where
  "handle_device_connected rt device_id =
     foldl (\<lambda>rt job. if job_status job \<in> {Sent, Running} then clear_disconnect_task rt (job_id job) else rt)
       rt (device_jobs rt device_id)"

fun disconnect_jobs :: "'g JobRuntime \<Rightarrow> timestamp \<Rightarrow> Job list \<Rightarrow> ('g, unit) rt_result" where
  "disconnect_jobs rt now [] = (rt, Inr ())"
| "disconnect_jobs rt now (job # jobs) =
     (case job_status job of
        Pending \<Rightarrow>
          (case finish_job rt now (job_id job) Failed (- 1) ''device disconnected'' ''hub:disconnect'' of
             (rt, Inl e) \<Rightarrow> (rt, Inl e)
           | (rt, Inr _) \<Rightarrow> disconnect_jobs rt now jobs)
      | Sent \<Rightarrow> disconnect_jobs (schedule_disconnect_failure rt job) now jobs
      | Running \<Rightarrow> disconnect_jobs (schedule_disconnect_failure rt job) now jobs
      | _ \<Rightarrow> disconnect_jobs rt now jobs)"

definition handle_device_disconnected :: "'g JobRuntime \<Rightarrow> timestamp \<Rightarrow> string \<Rightarrow> ('g, unit) rt_result" where
  "handle_device_disconnected rt now device_id = disconnect_jobs rt now (device_jobs rt device_id)"

subsection \<open>Timers\<close>

text \<open>The two parts of \<^verbatim>\<open>handle_job_timeout\<close>: before and after the grace period.\<close>

definition timeout_fires :: "'g RuntimeEnv \<Rightarrow> 'g JobRuntime \<Rightarrow> u64 \<Rightarrow> string \<Rightarrow> string \<Rightarrow> 'g JobRuntime" where
  "timeout_fires re rt now_ms i device_id =
     (case get_job (jt_jobs rt) i of
        None \<Rightarrow> remove_timeout_task rt i
      | Some job \<Rightarrow>
          if is_terminal_status (job_status job) then remove_timeout_task rt i
          else (let rt = fst (rt_send re rt device_id (cancel_envelope ''timeout-'' device_id i now_ms))
                in rt\<lparr>jt_timeout_tasks := AList.update i \<lparr> tt_device_id = device_id, tt_cancel_sent = True \<rparr> (jt_timeout_tasks rt)\<rparr>))"

definition timeout_grace_over :: "'g JobRuntime \<Rightarrow> timestamp \<Rightarrow> string \<Rightarrow> ('g, unit) rt_result" where
  "timeout_grace_over rt now i =
     (case get_job (jt_jobs rt) i of
        None \<Rightarrow> (remove_timeout_task rt i, Inr ())
      | Some job \<Rightarrow>
          if is_terminal_status (job_status job) then (remove_timeout_task rt i, Inr ())
          else end_job (clear_disconnect_task (remove_timeout_task rt i) i) now i Failed (- 1) ''timeout'' ''hub:timeout'')"

definition handle_disconnect_expired :: "'g JobRuntime \<Rightarrow> timestamp \<Rightarrow> string \<Rightarrow> string \<Rightarrow> ('g, unit) rt_result" where
  "handle_disconnect_expired rt now i device_id =
     (if has_active (jt_connections rt) device_id then (remove_disconnect_task rt i, Inr ())
      else (case get_job (jt_jobs rt) i of
              None \<Rightarrow> (remove_disconnect_task rt i, Inr ())
            | Some job \<Rightarrow>
                if job_status job \<notin> {Sent, Running} then (remove_disconnect_task rt i, Inr ())
                else end_job (clear_timeout_task (remove_disconnect_task rt i) i) now i Failed (- 1)
                       ''device disconnected'' ''hub:disconnect''))"

subsection \<open>The runtime as a system\<close>

text \<open>
  What happens to the runtime: the parts of the calls of \<^verbatim>\<open>create_job\<close> in progress (\<open>rs_creating\<close>), the
  other handlers, the timers, the eviction of finished output, new output subscribers, and anything
  at all in the connection registry, the device store and the pending file requests. \<open>rs_evicted\<close> and
  \<open>rs_early\<close> record the jobs whose output was dropped, and those a device reported on before they were
  sent to it.
\<close>

datatype creating = Inserted Job | Dispatched Job

record 'g RuntimeSystem =
  rs_runtime :: "'g JobRuntime"
  rs_creating :: "(string \<times> creating) list"
  rs_evicted :: "string list"
  rs_early :: "string list"

datatype 'g rt_op =
    CreateInsert timestamp uuid NewJob
  | CreateSend timestamp u64 string
  | CreateSchedule string
  | CancelJob timestamp u64 string
  | DeviceFrame timestamp string "string + DevicePayload Envelope"
  | DeviceConnected string
  | DeviceDisconnected timestamp string
  | TimeoutFires u64 string
  | TimeoutGraceOver timestamp string
  | DisconnectExpired timestamp string
  | SubscribeOutput string
  | EvictOutput string
  | OtherTasks MemoryDeviceStore "'g ConnectionRegistry" "string PendingFileRequests"

definition frame_jobs :: "string + DevicePayload Envelope \<Rightarrow> string list" where
  "frame_jobs frame =
     (case frame of
        Inl _ \<Rightarrow> []
      | Inr envelope \<Rightarrow>
          (case env_payload envelope of
             Some (RecvJobEvent i _) \<Rightarrow> [i]
           | Some (RecvJobFinished i _ _) \<Rightarrow> [i]
           | Some (RecvJobRejected i _) \<Rightarrow> [i]
           | _ \<Rightarrow> []))"

abbreviation upd_rt :: "'g RuntimeSystem \<Rightarrow> 'g JobRuntime \<Rightarrow> 'g RuntimeSystem" where
  "upd_rt rs rt \<equiv> rs\<lparr>rs_runtime := rt\<rparr>"

fun rt_step :: "'g RuntimeEnv \<Rightarrow> (HubError \<Rightarrow> string) \<Rightarrow> 'g RuntimeSystem \<Rightarrow> 'g rt_op \<Rightarrow> 'g RuntimeSystem" where
  "rt_step re sh rs (CreateInsert now i nj) =
     (if map_of (jt_jobs (rs_runtime rs)) i \<noteq> None then rs
      else (case create_insert (rs_runtime rs) now i nj of
              (rt, Inl _) \<Rightarrow> upd_rt rs rt
            | (rt, Inr job) \<Rightarrow> rs\<lparr>rs_runtime := rt, rs_creating := AList.update i (Inserted job) (rs_creating rs)\<rparr>))"
| "rt_step re sh rs (CreateSend now now_ms i) =
     (case map_of (rs_creating rs) i of
        Some (Inserted job) \<Rightarrow>
          (case create_send re sh (rs_runtime rs) now now_ms job of
             (rt, Inl _) \<Rightarrow> rs\<lparr>rs_runtime := rt, rs_creating := AList.delete i (rs_creating rs)\<rparr>
           | (rt, Inr _) \<Rightarrow> rs\<lparr>rs_runtime := rt, rs_creating := AList.update i (Dispatched job) (rs_creating rs)\<rparr>)
      | _ \<Rightarrow> rs)"
| "rt_step re sh rs (CreateSchedule i) =
     (case map_of (rs_creating rs) i of
        Some (Dispatched job) \<Rightarrow>
          rs\<lparr>rs_runtime := schedule_timeout (rs_runtime rs) job, rs_creating := AList.delete i (rs_creating rs)\<rparr>
      | _ \<Rightarrow> rs)"
| "rt_step re sh rs (CancelJob now now_ms i) = upd_rt rs (fst (cancel_job re (rs_runtime rs) now now_ms i))"
| "rt_step re sh rs (DeviceFrame now d frame) =
     rs\<lparr>rs_runtime := fst (handle_device_frame re (rs_runtime rs) now d frame),
        rs_early := filter (\<lambda>i. case map_of (rs_creating rs) i of Some (Inserted _) \<Rightarrow> True | _ \<Rightarrow> False) (frame_jobs frame) @
          rs_early rs\<rparr>"
| "rt_step re sh rs (DeviceConnected d) = upd_rt rs (handle_device_connected (rs_runtime rs) d)"
| "rt_step re sh rs (DeviceDisconnected now d) = upd_rt rs (fst (handle_device_disconnected (rs_runtime rs) now d))"
| "rt_step re sh rs (TimeoutFires now_ms i) =
     (case map_of (jt_timeout_tasks (rs_runtime rs)) i of
        Some task \<Rightarrow> if tt_cancel_sent task then rs
                     else upd_rt rs (timeout_fires re (rs_runtime rs) now_ms i (tt_device_id task))
      | None \<Rightarrow> rs)"
| "rt_step re sh rs (TimeoutGraceOver now i) =
     (case map_of (jt_timeout_tasks (rs_runtime rs)) i of
        Some task \<Rightarrow> if tt_cancel_sent task then upd_rt rs (fst (timeout_grace_over (rs_runtime rs) now i)) else rs
      | None \<Rightarrow> rs)"
| "rt_step re sh rs (DisconnectExpired now i) =
     (case map_of (jt_disconnect_tasks (rs_runtime rs)) i of
        Some d \<Rightarrow> upd_rt rs (fst (handle_disconnect_expired (rs_runtime rs) now i d))
      | None \<Rightarrow> rs)"
| "rt_step re sh rs (SubscribeOutput i) =
     (if map_of (jt_jobs (rs_runtime rs)) i = None then rs
      else upd_rt rs ((rs_runtime rs)\<lparr>jt_output := prime (jt_output (rs_runtime rs)) i\<rparr>))"
| "rt_step re sh rs (EvictOutput i) =
     (if os_finished (job_state (jt_output (rs_runtime rs)) i)
      then rs\<lparr>rs_runtime := (rs_runtime rs)\<lparr>jt_output := evict_finished (jt_output (rs_runtime rs)) i\<rparr>,
               rs_evicted := i # rs_evicted rs\<rparr>
      else rs)"
| "rt_step re sh rs (OtherTasks ds reg pf) =
     upd_rt rs ((rs_runtime rs)\<lparr>jt_devices := ds, jt_connections := reg, jt_pending_files := pf\<rparr>)"

definition run_runtime ::
  "'g RuntimeEnv \<Rightarrow> (HubError \<Rightarrow> string) \<Rightarrow> 'g RuntimeSystem \<Rightarrow> 'g rt_op list \<Rightarrow> 'g RuntimeSystem" where
  "run_runtime re sh = foldl (rt_step re sh)"

definition runtime_new :: "nat \<Rightarrow> 'g ConnectionRegistry \<Rightarrow> 'g RuntimeSystem" where
  "runtime_new max_history reg =
     \<lparr> rs_runtime = \<lparr> jt_devices = [], jt_jobs = [], jt_connections = reg, jt_events = [], jt_output = memory_output_new max_history,
         jt_timeout_tasks = [], jt_disconnect_tasks = [], jt_pending_files = pf_new MAX_PENDING_FILE_REQUESTS \<rparr>,
       rs_creating = [], rs_evicted = [], rs_early = [] \<rparr>"

subsection \<open>Specification\<close>

definition items_of :: "MemoryOutputStream \<Rightarrow> string \<Rightarrow> OutputItem list" where
  "items_of out i = map snd (os_sent (job_state out i))"

definition open_output :: "MemoryOutputStream \<Rightarrow> string \<Rightarrow> bool" where
  "open_output out i \<longleftrightarrow> \<not> os_finished (job_state out i) \<and> (\<forall>x \<in> set (items_of out i). \<not> item_terminal x)"

definition closed_output :: "MemoryOutputStream \<Rightarrow> string \<Rightarrow> int \<Rightarrow> string \<Rightarrow> bool" where
  "closed_output out i c e \<longleftrightarrow>
     (\<exists>xs. items_of out i = xs @ [OFinished c e] \<and> (\<forall>x \<in> set xs. \<not> item_terminal x))"

text \<open>Everything the runtime knows about job \<open>k\<close> is the same in two states.\<close>

definition same_job :: "'g JobRuntime \<Rightarrow> 'g JobRuntime \<Rightarrow> string \<Rightarrow> bool" where
  "same_job rt rt' k \<longleftrightarrow>
     map_of (jt_jobs rt') k = map_of (jt_jobs rt) k \<and> map_of (mo_jobs (jt_output rt')) k = map_of (mo_jobs (jt_output rt)) k \<and>
     map_of (jt_timeout_tasks rt') k = map_of (jt_timeout_tasks rt) k \<and>
     map_of (jt_disconnect_tasks rt') k = map_of (jt_disconnect_tasks rt) k"

text \<open>
  How the handlers may change job \<open>i\<close>: a job that has ended stays as it is; one that goes on keeps its
  timer and its open output, and its status may only become one of \<open>S\<close>; one that ends has its result
  published as the last item of its output.
\<close>

definition job_evolves :: "JobStatus set \<Rightarrow> 'g JobRuntime \<Rightarrow> 'g JobRuntime \<Rightarrow> string \<Rightarrow> Job \<Rightarrow> Job \<Rightarrow> bool" where
  "job_evolves S rt rt' i job job' \<longleftrightarrow>
     job_id job' = job_id job \<and> job_device_id job' = job_device_id job \<and>
     (if is_terminal_status (job_status job)
      then job' = job \<and> map_of (mo_jobs (jt_output rt')) i = map_of (mo_jobs (jt_output rt)) i
      else if is_terminal_status (job_status job')
      then open_output (jt_output rt) i \<longrightarrow>
           (\<exists>c e. job_exit_code job' = Some c \<and> job_error job' = Some e \<and> closed_output (jt_output rt') i c e)
      else (job_status job' = job_status job \<or> job_status job' \<in> S) \<and>
           (open_output (jt_output rt) i \<longrightarrow> open_output (jt_output rt') i) \<and>
           (map_of (jt_timeout_tasks rt) i \<noteq> None \<longrightarrow> map_of (jt_timeout_tasks rt') i \<noteq> None))"

definition evolves :: "JobStatus set \<Rightarrow> 'g JobRuntime \<Rightarrow> 'g JobRuntime \<Rightarrow> string \<Rightarrow> bool" where
  "evolves S rt rt' i \<longleftrightarrow>
     (\<forall>k. k \<noteq> i \<longrightarrow> same_job rt rt' k) \<and>
     (case map_of (jt_jobs rt) i of
        None \<Rightarrow> same_job rt rt' i
      | Some job \<Rightarrow> (case map_of (jt_jobs rt') i of None \<Rightarrow> False | Some job' \<Rightarrow> job_evolves S rt rt' i job job'))"

definition job_ok :: "'g RuntimeSystem \<Rightarrow> string \<Rightarrow> bool" where
  "job_ok rs i \<longleftrightarrow>
     (case map_of (jt_jobs (rs_runtime rs)) i of
        None \<Rightarrow> map_of (mo_jobs (jt_output (rs_runtime rs))) i = None \<and> map_of (rs_creating rs) i = None \<and>
                map_of (jt_timeout_tasks (rs_runtime rs)) i = None
      | Some job \<Rightarrow>
          job_id job = i \<and>
          (\<not> is_terminal_status (job_status job) \<longrightarrow> open_output (jt_output (rs_runtime rs)) i) \<and>
          (is_terminal_status (job_status job) \<longrightarrow> i \<notin> set (rs_evicted rs) \<longrightarrow>
             (\<exists>c e. job_exit_code job = Some c \<and> job_error job = Some e \<and> closed_output (jt_output (rs_runtime rs)) i c e)) \<and>
          (job_status job = Pending \<longrightarrow> (\<exists>j. map_of (rs_creating rs) i = Some (Inserted j))) \<and>
          (job_status job \<in> {Sent, Running} \<longrightarrow>
             map_of (jt_timeout_tasks (rs_runtime rs)) i \<noteq> None \<or> map_of (rs_creating rs) i \<noteq> None \<or> i \<in> set (rs_early rs)) \<and>
          (case map_of (rs_creating rs) i of
             Some (Inserted j) \<Rightarrow> job_id j = i \<and> job_device_id j = job_device_id job \<and>
               (job_status job = Pending \<or> is_terminal_status (job_status job) \<or> i \<in> set (rs_early rs))
           | Some (Dispatched j) \<Rightarrow> job_id j = i \<and> job_device_id j = job_device_id job \<and> job_status job \<noteq> Pending
           | None \<Rightarrow> True))"

definition rt_inv :: "'g RuntimeSystem \<Rightarrow> bool" where
  "rt_inv rs \<longleftrightarrow> (\<forall>i. job_ok rs i)"

section \<open>Lemmas\<close>

subsection \<open>The output of a job\<close>

lemma job_state_record:
  "job_state (record_output mo j x) i = (if i = j then rec_item (mo_max_history mo) (job_state mo j) x else job_state mo i)"
  by (simp add: record_output_def job_state_def AList.update_conv')

lemma job_state_prime [simp]: "job_state (prime mo j) i = job_state mo i"
  by (simp add: prime_def job_state_def AList.update_conv')

lemma mo_jobs_record: "k \<noteq> j \<Longrightarrow> map_of (mo_jobs (record_output mo j x)) k = map_of (mo_jobs mo) k"
  by (simp add: record_output_def AList.update_conv')

lemma mo_jobs_prime: "k \<noteq> j \<Longrightarrow> map_of (mo_jobs (prime mo j)) k = map_of (mo_jobs mo) k"
  by (simp add: prime_def AList.update_conv')

lemma rec_item_simps:
  "map snd (os_sent (rec_item m st x)) = map snd (os_sent st) @ [x]"
  "os_finished (rec_item m st x) \<longleftrightarrow> os_finished st \<or> item_terminal x"
  by (simp_all add: rec_item_def rec_number_def rec_push_def rec_flag_def rec_send_def Let_def)

lemma open_output_record:
  "open_output mo i \<Longrightarrow> \<not> item_terminal x \<Longrightarrow> open_output (record_output mo i x) i"
  by (simp add: open_output_def items_of_def job_state_record rec_item_simps)

lemma closed_output_finished:
  "open_output mo i \<Longrightarrow> closed_output (push_finished mo i c e) i c e"
  by (simp add: open_output_def closed_output_def items_of_def push_finished_def job_state_record rec_item_simps)

lemma open_output_cong: "map_of (mo_jobs mo') i = map_of (mo_jobs mo) i \<Longrightarrow> open_output mo' i = open_output mo i"
  by (simp add: open_output_def items_of_def job_state_def)

lemma closed_output_cong: "map_of (mo_jobs mo') i = map_of (mo_jobs mo) i \<Longrightarrow> closed_output mo' i c e = closed_output mo i c e"
  by (simp add: closed_output_def items_of_def job_state_def)

subsection \<open>Evolution of one job\<close>

lemma same_job_refl [simp]: "same_job rt rt k"
  by (simp add: same_job_def)

lemma same_job_trans: "same_job a b k \<Longrightarrow> same_job b c k \<Longrightarrow> same_job a c k"
  by (simp add: same_job_def)

lemma evolves_same: "(\<And>k. same_job rt rt' k) \<Longrightarrow> evolves S rt rt' i"
  using open_output_cong [of "jt_output rt'" i "jt_output rt"]
  by (simp add: evolves_def job_evolves_def same_job_def split: option.split)

lemma evolves_refl [simp]: "evolves S rt rt i"
  by (rule evolves_same) simp

lemma evolvesD:
  assumes "evolves S rt rt' i"
  shows "k \<noteq> i \<Longrightarrow> same_job rt rt' k"
    and "map_of (jt_jobs rt) i = None \<Longrightarrow> same_job rt rt' i"
    and "map_of (jt_jobs rt) i = Some job \<Longrightarrow> \<exists>job'. map_of (jt_jobs rt') i = Some job' \<and> job_evolves S rt rt' i job job'"
  using assms by (simp_all add: evolves_def split: option.splits)

lemma evolvesI:
  assumes "\<And>k. k \<noteq> i \<Longrightarrow> same_job rt rt' k" and "map_of (jt_jobs rt) i = None \<Longrightarrow> same_job rt rt' i"
    and "\<And>job. map_of (jt_jobs rt) i = Some job \<Longrightarrow> \<exists>job'. map_of (jt_jobs rt') i = Some job' \<and> job_evolves S rt rt' i job job'"
  shows "evolves S rt rt' i"
  using assms by (force simp: evolves_def split: option.split)

lemma job_evolves_mono: "job_evolves S rt rt' i job job' \<Longrightarrow> S \<subseteq> S' \<Longrightarrow> job_evolves S' rt rt' i job job'"
  by (auto simp: job_evolves_def)

lemma evolves_mono: "evolves S rt rt' i \<Longrightarrow> S \<subseteq> S' \<Longrightarrow> evolves S' rt rt' i"
  by (rule evolvesI) (blast dest: evolvesD job_evolves_mono)+

lemma job_evolves_trans:
  assumes "job_evolves S a b i j0 j1" and "job_evolves S b c i j1 j2"
  shows "job_evolves S a c i j0 j2"
proof -
  let ?t = "\<lambda>j. is_terminal_status (job_status j)"
  consider "?t j0" | "\<not> ?t j0" "?t j1" | "\<not> ?t j0" "\<not> ?t j1" "?t j2" | "\<not> ?t j0" "\<not> ?t j1" "\<not> ?t j2" by blast
  then show ?thesis
  proof cases
    case 2
    with assms have "map_of (mo_jobs (jt_output c)) i = map_of (mo_jobs (jt_output b)) i" "j2 = j1" by (simp_all add: job_evolves_def)
    with 2 assms(1) closed_output_cong [of "jt_output c" i "jt_output b"] show ?thesis by (simp add: job_evolves_def)
  qed (use assms in \<open>auto simp: job_evolves_def\<close>)
qed

lemma evolves_trans:
  assumes "evolves S a b i" and "evolves S b c i"
  shows "evolves S a c i"
proof (rule evolvesI)
  show "same_job a c k" if "k \<noteq> i" for k
    using evolvesD(1) [OF assms(1) that] evolvesD(1) [OF assms(2) that] by (rule same_job_trans)
  show "same_job a c i" if "map_of (jt_jobs a) i = None"
  proof -
    from evolvesD(2) [OF assms(1) that] have s: "same_job a b i" .
    with that have "map_of (jt_jobs b) i = None" by (simp add: same_job_def)
    from evolvesD(2) [OF assms(2) this] s show ?thesis using same_job_trans by blast
  qed
  show "\<exists>j2. map_of (jt_jobs c) i = Some j2 \<and> job_evolves S a c i j0 j2" if "map_of (jt_jobs a) i = Some j0" for j0
  proof -
    from evolvesD(3) [OF assms(1) that] obtain j1 where 1: "map_of (jt_jobs b) i = Some j1" "job_evolves S a b i j0 j1" by blast
    from evolvesD(3) [OF assms(2) 1(1)] obtain j2 where 2: "map_of (jt_jobs c) i = Some j2" "job_evolves S b c i j1 j2" by blast
    from job_evolves_trans [OF 1(2) 2(2)] 2(1) show ?thesis by blast
  qed
qed

subsection \<open>The handlers\<close>

text \<open>The parts of the state other than the job store and the events.\<close>

definition same_rest :: "'g JobRuntime \<Rightarrow> 'g JobRuntime \<Rightarrow> bool" where
  "same_rest rt rt' \<longleftrightarrow> jt_output rt' = jt_output rt \<and> jt_timeout_tasks rt' = jt_timeout_tasks rt \<and>
     jt_disconnect_tasks rt' = jt_disconnect_tasks rt \<and> jt_connections rt' = jt_connections rt"

lemma emit_job_status_simps [simp]:
  "jt_jobs (emit_job_status rt job actor) = jt_jobs rt"
  "same_rest rt (emit_job_status rt' job actor) = same_rest rt rt'"
  by (simp_all add: emit_job_status_def same_rest_def split: option.split)

lemma transition_job_effect:
  assumes "map_of (jt_jobs rt) i = Some job" and "resolve_status_transition (job_status job) status = Inr status"
  shows "\<exists>rt' job'. transition_job rt now i status actor = (rt', Inr status) \<and> same_rest rt rt' \<and>
    map_of (jt_jobs rt') = (map_of (jt_jobs rt))(i \<mapsto> job') \<and> job_status job' = status \<and> job_id job' = job_id job \<and>
    job_device_id job' = job_device_id job"
proof (cases "job_status job = status")
  case True
  with assms have "transition_job rt now i status actor = (rt, Inr status)"
    by (simp add: transition_job_def transition_status_def get_job_def)
  then show ?thesis using assms True by (intro exI [of _ rt] exI [of _ job]) (auto simp: same_rest_def)
next
  case False
  from assms(2) obtain job' where job': "apply_status_transition job status now = Inr (job', status)" "job_status job' = status"
    "job_id job' = job_id job" "job_device_id job' = job_device_id job"
    by (auto simp: apply_status_transition_def Let_def)
  with False assms(1) have "transition_job rt now i status actor =
      (emit_job_status (rt\<lparr>jt_jobs := AList.update i job' (jt_jobs rt)\<rparr>) job' actor, Inr status)"
    by (simp add: transition_job_def transition_status_def get_job_def AList.update_conv')
  moreover have "same_rest rt (rt\<lparr>jt_jobs := AList.update i job' (jt_jobs rt)\<rparr>)" by (simp add: same_rest_def)
  ultimately show ?thesis using job'
    by (intro exI [of _ "emit_job_status (rt\<lparr>jt_jobs := AList.update i job' (jt_jobs rt)\<rparr>) job' actor"] exI [of _ job'])
      (simp add: AList.update_conv')
qed

lemma transition_job_error:
  assumes "transition_job rt now i status actor = (rt', Inl e)"
  shows "rt' = rt"
  using assms
  by (auto simp: transition_job_def transition_status_def get_job_def AList.update_conv' Let_def
      split: option.splits sum.splits if_splits prod.splits)

lemma resolve_unfinished:
  "\<not> is_terminal_status s \<Longrightarrow> is_terminal_status t \<Longrightarrow> resolve_status_transition s t = Inr t"
  "\<not> is_terminal_status s \<Longrightarrow> resolve_status_transition s Running = Inr Running"
  by (cases s; cases t; simp add: resolve_status_transition_def is_terminal_status_def)
     (cases s; simp add: resolve_status_transition_def is_terminal_status_def)

lemma end_job_effect:
  assumes "map_of (jt_jobs rt) i = Some job" and "\<not> is_terminal_status (job_status job)" and "is_terminal_status status"
  shows "\<exists>rt' job'. end_job rt now i status c e actor = (rt', Inr ()) \<and>
    map_of (jt_jobs rt') = (map_of (jt_jobs rt))(i \<mapsto> job') \<and> job_status job' = status \<and> job_id job' = job_id job \<and>
    job_device_id job' = job_device_id job \<and> job_exit_code job' = Some c \<and> job_error job' = Some e \<and>
    jt_output rt' = push_finished (jt_output rt) i c e \<and> jt_timeout_tasks rt' = jt_timeout_tasks rt \<and>
    jt_disconnect_tasks rt' = jt_disconnect_tasks rt \<and> jt_connections rt' = jt_connections rt"
proof -
  from transition_job_effect [OF assms(1) resolve_unfinished(1) [OF assms(2,3)], of now actor] obtain rt1 job1 where 1:
    "transition_job rt now i status actor = (rt1, Inr status)" "same_rest rt rt1"
    "map_of (jt_jobs rt1) = (map_of (jt_jobs rt))(i \<mapsto> job1)" "job_status job1 = status" "job_id job1 = job_id job"
    "job_device_id job1 = job_device_id job" by blast
  let ?job = "job1\<lparr>job_exit_code := Some c, job_error := Some e, job_output_summary := Some (build_output_summary c e)\<rparr>"
  let ?rt = "rt1\<lparr>jt_jobs := AList.update i ?job (jt_jobs rt1)\<rparr>"
  have 2: "record_terminal_state rt1 i c e = (?rt, Inr ())"
    using 1(3) by (simp add: record_terminal_state_def update_terminal_def)
  have 3: "map_of (jt_jobs ?rt) = (map_of (jt_jobs rt))(i \<mapsto> ?job)"
    using 1(3) by (simp add: AList.update_conv')
  show ?thesis using 1(1,2,4,5,6) 2 3
    by (intro exI [of _ "?rt\<lparr>jt_output := push_finished (jt_output ?rt) i c e\<rparr>"] exI [of _ ?job])
      (simp add: end_job_def same_rest_def)
qed

lemma push_finished_other: "k \<noteq> i \<Longrightarrow> map_of (mo_jobs (push_finished mo i c e)) k = map_of (mo_jobs mo) k"
  by (simp add: push_finished_def mo_jobs_record)

lemma evolves_end:
  assumes "map_of (jt_jobs rt) i = Some job" and "\<not> is_terminal_status (job_status job)" and "is_terminal_status (job_status job')"
    and "map_of (jt_jobs rt') = (map_of (jt_jobs rt))(i \<mapsto> job')" and "job_id job' = job_id job" and "job_device_id job' = job_device_id job"
    and "job_exit_code job' = Some c" and "job_error job' = Some e" and "jt_output rt' = push_finished (jt_output rt) i c e"
    and "\<And>k. k \<noteq> i \<Longrightarrow> map_of (jt_timeout_tasks rt') k = map_of (jt_timeout_tasks rt) k"
    and "\<And>k. k \<noteq> i \<Longrightarrow> map_of (jt_disconnect_tasks rt') k = map_of (jt_disconnect_tasks rt) k"
  shows "evolves S rt rt' i"
proof (rule evolvesI)
  show "same_job rt rt' k" if "k \<noteq> i" for k
    using that assms by (simp add: same_job_def push_finished_other)
  show "\<exists>j'. map_of (jt_jobs rt') i = Some j' \<and> job_evolves S rt rt' i j j'" if "map_of (jt_jobs rt) i = Some j" for j
    using that assms closed_output_finished [of "jt_output rt" i c e] by (simp add: job_evolves_def)
qed (use assms(1) in simp)

lemma evolves_clear_disconnect: "map_of (jt_jobs rt) i = Some job \<Longrightarrow> evolves S rt (clear_disconnect_task rt i) i"
  by (rule evolvesI) (simp_all add: clear_disconnect_task_def same_job_def AList.delete_conv' job_evolves_def)

lemma evolves_terminal_tasks:
  assumes "finish_job_done rt i"
  shows "evolves S rt (clear_lifecycle_tasks rt i) i"
  by (rule evolvesI)
    (use assms in \<open>simp_all add: clear_lifecycle_tasks_def clear_disconnect_task_def clear_timeout_task_def same_job_def
        AList.delete_conv' job_evolves_def finish_job_done_def get_job_def\<close>)

lemma finish_job_evolves:
  assumes "map_of (jt_jobs rt) i = Some job" and "is_terminal_status status"
  shows "\<exists>rt'. finish_job rt now i status c e actor = (rt', Inr ()) \<and> evolves S rt rt' i \<and>
    (\<exists>job'. map_of (jt_jobs rt') i = Some job' \<and> is_terminal_status (job_status job'))"
proof (cases "finish_job_done rt i")
  case True
  then show ?thesis using assms evolves_terminal_tasks [OF True, of S]
    by (simp add: finish_job_def finish_job_done_def get_job_def clear_lifecycle_tasks_def clear_disconnect_task_def clear_timeout_task_def)
next
  case False
  then have nt: "\<not> is_terminal_status (job_status job)" using assms(1) by (simp add: finish_job_done_def get_job_def)
  have "map_of (jt_jobs (clear_lifecycle_tasks rt i)) i = Some job"
    using assms(1) by (simp add: clear_lifecycle_tasks_def clear_disconnect_task_def clear_timeout_task_def)
  from end_job_effect [OF this nt assms(2), of now c e actor] obtain rt' job' where 1:
    "end_job (clear_lifecycle_tasks rt i) now i status c e actor = (rt', Inr ())"
    "map_of (jt_jobs rt') = (map_of (jt_jobs (clear_lifecycle_tasks rt i)))(i \<mapsto> job')" "job_status job' = status"
    "job_id job' = job_id job" "job_device_id job' = job_device_id job" "job_exit_code job' = Some c" "job_error job' = Some e"
    "jt_output rt' = push_finished (jt_output (clear_lifecycle_tasks rt i)) i c e"
    "jt_timeout_tasks rt' = jt_timeout_tasks (clear_lifecycle_tasks rt i)"
    "jt_disconnect_tasks rt' = jt_disconnect_tasks (clear_lifecycle_tasks rt i)" by blast
  have "evolves S rt rt' i"
    by (rule evolves_end [OF assms(1) nt, of job' _ c e])
      (use 1 assms(2) in \<open>simp_all add: clear_lifecycle_tasks_def clear_disconnect_task_def clear_timeout_task_def AList.delete_conv'\<close>)
  then show ?thesis using 1 assms(2) False by (intro exI [of _ rt']) (simp add: finish_job_def finish_job_apply_def)
qed

lemma evolves_running:
  assumes "map_of (jt_jobs rt) i = Some job" and "\<not> is_terminal_status (job_status job)"
  shows "\<exists>rt' job'. transition_job rt now i Running actor = (rt', Inr Running) \<and> evolves {Running} rt rt' i \<and>
    map_of (jt_jobs rt') i = Some job' \<and> job_status job' = Running"
proof -
  from transition_job_effect [OF assms(1) resolve_unfinished(2) [OF assms(2)], of now actor] obtain rt' job' where 1:
    "transition_job rt now i Running actor = (rt', Inr Running)" "same_rest rt rt'"
    "map_of (jt_jobs rt') = (map_of (jt_jobs rt))(i \<mapsto> job')" "job_status job' = Running" "job_id job' = job_id job"
    "job_device_id job' = job_device_id job" by blast
  have "evolves {Running} rt rt' i"
    by (rule evolvesI) (use assms 1 in \<open>simp_all add: same_job_def same_rest_def job_evolves_def is_terminal_status_def\<close>)
  with 1 show ?thesis by (intro exI [of _ rt'] exI [of _ job']) simp
qed

lemma same_job_connections:
  "same_job rt (rt'\<lparr>jt_connections := reg\<rparr>) k = same_job rt rt' k"
  "same_job rt (rt_observe_inbound re rt' d seq ack) k = same_job rt rt' k"
  by (simp_all add: same_job_def rt_observe_inbound_def)

lemma evolves_observe: "evolves S rt rt' i \<Longrightarrow> evolves S rt (rt_observe_inbound re rt' d seq ack) i"
  by (erule evolves_trans) (simp add: evolves_same same_job_connections)

lemma evolves_send: "evolves S rt (fst (rt_send re rt d env)) i"
  by (rule evolves_same) (simp add: rt_send_def same_job_connections split: prod.split)

lemma rt_send_simps:
  "rt_send re rt d env = (rt', res) \<Longrightarrow> jt_jobs rt' = jt_jobs rt \<and> jt_output rt' = jt_output rt \<and>
   jt_timeout_tasks rt' = jt_timeout_tasks rt \<and> jt_disconnect_tasks rt' = jt_disconnect_tasks rt"
  by (auto simp: rt_send_def split: prod.splits)

lemma stale_evolves:
  assumes "handle_stale_device_frame_error re rt d seq ack e = (rt', res)"
  shows "evolves S rt rt' i"
  using assms
  by (auto simp: handle_stale_device_frame_error_def evolves_same same_job_connections split: RuntimeError.splits HubError.splits if_splits)

lemma push_event_evolves:
  assumes "map_of (jt_jobs rt) i = Some job" and "\<not> is_terminal_status (job_status job)"
  shows "evolves S rt (push_event re rt i kind) i"
proof -
  obtain x where x: "push_event re rt i kind = rt\<lparr>jt_output := record_output (jt_output rt) i x\<rparr>" "\<not> item_terminal x"
    by (cases kind) (simp_all add: push_event_def push_stdout_def push_stderr_def push_progress_def item_terminal_def)
  show ?thesis
    by (rule evolvesI) (use assms x in \<open>simp_all add: same_job_def mo_jobs_record job_evolves_def open_output_record\<close>)
qed

lemma handle_job_event_evolves:
  assumes "handle_job_event re rt now d seq ack i event = (rt', res)"
  shows "evolves {Running} rt rt' i"
proof (cases "map_of (jt_jobs rt) i")
  case None
  with assms show ?thesis by (auto simp: handle_job_event_def job_for_device_def get_job_def evolves_same same_job_connections)
next
  case (Some job)
  let ?rt = "clear_disconnect_task rt i"
  have c: "evolves {Running} rt ?rt i" "map_of (jt_jobs ?rt) i = Some job"
    using Some evolves_clear_disconnect [OF Some] by (auto simp: clear_disconnect_task_def)
  consider "job_device_id job \<noteq> d" | "job_device_id job = d" "is_terminal_status (job_status job)" |
    "job_device_id job = d" "\<not> is_terminal_status (job_status job)" "event = None" |
    kind where "job_device_id job = d" "\<not> is_terminal_status (job_status job)" "event = Some kind" by blast
  then show ?thesis
  proof cases
    case 1
    with assms Some show ?thesis by (simp add: handle_job_event_def job_for_device_def get_job_def)
  next
    case 2
    with assms Some c show ?thesis by (auto simp: handle_job_event_def job_for_device_def get_job_def intro: evolves_observe)
  next
    case 3
    with assms Some c show ?thesis by (auto simp: handle_job_event_def job_for_device_def get_job_def)
  next
    case 4
    from evolves_running [OF c(2) 4(2), of now "''device:'' @ d"] obtain rt1 job1 where 1:
      "transition_job ?rt now i Running (''device:'' @ d) = (rt1, Inr Running)" "evolves {Running} ?rt rt1 i"
      "map_of (jt_jobs rt1) i = Some job1" "job_status job1 = Running" by blast
    from 1(4) have "evolves {Running} rt1 (push_event re rt1 i kind) i"
      by (intro push_event_evolves [OF 1(3)]) (simp add: is_terminal_status_def)
    from evolves_trans [OF evolves_trans [OF c(1) 1(2)] this] assms Some 4 1(1) show ?thesis
      by (auto simp: handle_job_event_def job_for_device_def get_job_def)
  qed
qed

lemma finish_from_frame_evolves:
  assumes "map_of (jt_jobs rt) i = Some job" and "is_terminal_status status"
    and "finish_from_frame re rt now d seq ack i status c e = (rt', res)"
  shows "evolves S rt rt' i"
  using finish_job_evolves [OF assms(1,2), of now c e "''device:'' @ d" S] assms(3)
  by (auto simp: finish_from_frame_def)

lemma finished_status_terminal: "is_terminal_status (finished_status c e)"
  by (simp add: finished_status_def is_terminal_status_def)

lemma handle_job_finished_evolves:
  assumes "handle_job_finished re rt now d seq ack i c e = (rt', res)"
  shows "evolves {Running} rt rt' i"
proof (cases "map_of (jt_jobs rt) i")
  case None
  with assms show ?thesis by (auto simp: handle_job_finished_def job_for_device_def get_job_def evolves_same same_job_connections)
next
  case (Some job)
  let ?rt = "clear_disconnect_task rt i"
  have cd: "evolves {Running} rt ?rt i" "map_of (jt_jobs ?rt) i = Some job"
    using Some evolves_clear_disconnect [OF Some] by (auto simp: clear_disconnect_task_def)
  consider "job_device_id job \<noteq> d" | "job_device_id job = d" "is_terminal_status (job_status job)" |
    "job_device_id job = d" "job_status job = Running" |
    "job_device_id job = d" "\<not> is_terminal_status (job_status job)" "job_status job \<noteq> Running" by blast
  then show ?thesis
  proof cases
    case 1
    with assms Some show ?thesis by (simp add: handle_job_finished_def job_for_device_def get_job_def)
  next
    case 2
    with assms Some cd show ?thesis by (auto simp: handle_job_finished_def job_for_device_def get_job_def intro: evolves_observe)
  next
    case 3
    with assms Some have "finish_from_frame re ?rt now d seq ack i (finished_status c e) c e = (rt', res)"
      by (simp add: handle_job_finished_def job_for_device_def get_job_def is_terminal_status_def)
    from evolves_trans [OF cd(1) finish_from_frame_evolves [OF cd(2) finished_status_terminal this]] show ?thesis .
  next
    case 4
    from evolves_running [OF cd(2) 4(2), of now "''device:'' @ d"] obtain rt1 job1 where 1:
      "transition_job ?rt now i Running (''device:'' @ d) = (rt1, Inr Running)" "evolves {Running} ?rt rt1 i"
      "map_of (jt_jobs rt1) i = Some job1" by blast
    with assms Some 4 have "finish_from_frame re rt1 now d seq ack i (finished_status c e) c e = (rt', res)"
      by (simp add: handle_job_finished_def job_for_device_def get_job_def)
    from evolves_trans [OF evolves_trans [OF cd(1) 1(2)] finish_from_frame_evolves [OF 1(3) finished_status_terminal this]]
    show ?thesis .
  qed
qed

lemma handle_job_rejected_evolves:
  assumes "handle_job_rejected re rt now d seq ack i reason = (rt', res)"
  shows "evolves {Running} rt rt' i"
proof (cases "map_of (jt_jobs rt) i")
  case None
  with assms show ?thesis by (auto simp: handle_job_rejected_def job_for_device_def get_job_def evolves_same same_job_connections)
next
  case (Some job)
  let ?rt = "clear_disconnect_task rt i"
  have c: "evolves {Running} rt ?rt i" "map_of (jt_jobs ?rt) i = Some job"
    using Some evolves_clear_disconnect [OF Some] by (auto simp: clear_disconnect_task_def)
  consider "job_device_id job \<noteq> d" | "job_device_id job = d" "is_terminal_status (job_status job)" |
    "job_device_id job = d" "\<not> is_terminal_status (job_status job)" by blast
  then show ?thesis
  proof cases
    case 1
    with assms Some show ?thesis by (simp add: handle_job_rejected_def job_for_device_def get_job_def)
  next
    case 2
    with assms Some c show ?thesis by (auto simp: handle_job_rejected_def job_for_device_def get_job_def intro: evolves_observe)
  next
    case 3
    with assms Some have "finish_from_frame re ?rt now d seq ack i Failed (- 1) reason = (rt', res)"
      by (simp add: handle_job_rejected_def job_for_device_def get_job_def)
    from evolves_trans [OF c(1) finish_from_frame_evolves [OF c(2) _ this]] show ?thesis by (simp add: is_terminal_status_def)
  qed
qed

lemma foreign_job_frames:
  assumes "map_of (jt_jobs rt) i = None \<or> (\<exists>job. map_of (jt_jobs rt) i = Some job \<and> job_device_id job \<noteq> d)"
  shows "same_job rt (fst (handle_job_event re rt now d seq ack i event)) k"
    and "same_job rt (fst (handle_job_finished re rt now d seq ack i c e)) k"
    and "same_job rt (fst (handle_job_rejected re rt now d seq ack i reason)) k"
  using assms
  by (auto simp: handle_job_event_def handle_job_finished_def handle_job_rejected_def job_for_device_def get_job_def same_job_connections)

lemma fst_evolves: "(\<And>rt' res. f = (rt', res) \<Longrightarrow> evolves S rt rt' i) \<Longrightarrow> evolves S rt (fst f) i"
  by (cases f) auto

lemma own_or_foreign:
  assumes "\<And>k. map_of (jt_jobs rt) i = None \<or> (\<exists>job. map_of (jt_jobs rt) i = Some job \<and> job_device_id job \<noteq> d) \<Longrightarrow> same_job rt rt' k"
    and "evolves S rt rt' i"
  shows "(\<forall>k. same_job rt rt' k) \<or> (\<exists>job. map_of (jt_jobs rt) i = Some job \<and> job_device_id job = d \<and> evolves S rt rt' i)"
  using assms by (cases "map_of (jt_jobs rt) i") auto

lemma own_or_foreign_frames:
  "(\<forall>k. same_job rt (fst (handle_job_event re rt now d seq ack i event)) k) \<or>
      (\<exists>job. map_of (jt_jobs rt) i = Some job \<and> job_device_id job = d \<and> evolves {Running} rt (fst (handle_job_event re rt now d seq ack i event)) i)"
  "(\<forall>k. same_job rt (fst (handle_job_finished re rt now d seq ack i c e)) k) \<or>
      (\<exists>job. map_of (jt_jobs rt) i = Some job \<and> job_device_id job = d \<and> evolves {Running} rt (fst (handle_job_finished re rt now d seq ack i c e)) i)"
  "(\<forall>k. same_job rt (fst (handle_job_rejected re rt now d seq ack i reason)) k) \<or>
      (\<exists>job. map_of (jt_jobs rt) i = Some job \<and> job_device_id job = d \<and> evolves {Running} rt (fst (handle_job_rejected re rt now d seq ack i reason)) i)"
  by (rule own_or_foreign; blast intro: foreign_job_frames fst_evolves handle_job_event_evolves handle_job_finished_evolves
      handle_job_rejected_evolves)+

lemma handle_payload_effect:
  "(\<forall>k. same_job rt (fst (handle_payload re rt now d seq ack p)) k) \<or>
   (\<exists>i. (\<exists>job. map_of (jt_jobs rt) i = Some job \<and> job_device_id job = d \<and>
       evolves {Running} rt (fst (handle_payload re rt now d seq ack p)) i) \<and>
     (\<forall>env. env_payload env = p \<longrightarrow> frame_jobs (Inr env) = [i]))"
proof (cases p)
  case (Some q)
  show ?thesis
  proof (cases q)
    case (RecvJobEvent i event)
    with own_or_foreign_frames(1) [of rt re now d seq ack i event] Some show ?thesis
      by (simp add: handle_payload_def frame_jobs_def) blast
  next
    case (RecvJobFinished i c e)
    with own_or_foreign_frames(2) [of rt re now d seq ack i c e] Some show ?thesis
      by (simp add: handle_payload_def frame_jobs_def) blast
  next
    case (RecvJobRejected i reason)
    with own_or_foreign_frames(3) [of rt re now d seq ack i reason] Some show ?thesis
      by (simp add: handle_payload_def frame_jobs_def) blast
  qed (simp_all add: Some handle_payload_def same_job_def)
qed (simp add: handle_payload_def)

lemma handle_device_frame_effect:
  fixes frame :: "string + DevicePayload Envelope"
  shows "(\<forall>k. same_job rt (fst (handle_device_frame re rt now d frame)) k) \<or>
   (\<exists>i job. map_of (jt_jobs rt) i = Some job \<and> job_device_id job = d \<and>
     evolves {Running} rt (fst (handle_device_frame re rt now d frame)) i \<and> frame_jobs frame = [i])"
proof (cases frame)
  case (Inr env)
  show ?thesis
  proof (cases "has_seen_inbound (jt_connections rt) d (env_seq env)")
    case False
    obtain rt1 res where 1: "handle_payload re rt now d (env_seq env) (env_ack env) (env_payload env) = (rt1, res)" by fastforce
    have eq: "fst (handle_device_frame re rt now d frame) = rt1 \<or>
        fst (handle_device_frame re rt now d frame) = rt_observe_inbound re rt1 d (env_seq env) (env_ack env)"
      using False Inr 1 by (auto simp: handle_device_frame_def split: sum.splits bool.splits)
    from handle_payload_effect [of rt re now d "env_seq env" "env_ack env" "env_payload env"] 1
    consider "\<forall>k. same_job rt rt1 k" | i job where "map_of (jt_jobs rt) i = Some job" "job_device_id job = d"
      "evolves {Running} rt rt1 i" "frame_jobs frame = [i]" unfolding Inr by auto
    then show ?thesis
    proof cases
      case 1
      with eq show ?thesis by (auto simp: same_job_connections)
    next
      case 2
      with eq evolves_observe [OF 2(3), of re d "env_seq env" "env_ack env"] show ?thesis by auto
    qed
  qed (simp add: Inr handle_device_frame_def same_job_connections)
qed (simp add: handle_device_frame_def)

subsection \<open>The invariant\<close>

definition same_core :: "'g JobRuntime \<Rightarrow> 'g JobRuntime \<Rightarrow> string \<Rightarrow> bool" where
  "same_core rt rt' k \<longleftrightarrow>
     map_of (jt_jobs rt') k = map_of (jt_jobs rt) k \<and> map_of (mo_jobs (jt_output rt')) k = map_of (mo_jobs (jt_output rt)) k \<and>
     map_of (jt_timeout_tasks rt') k = map_of (jt_timeout_tasks rt) k"

lemma same_job_core: "same_job rt rt' k \<Longrightarrow> same_core rt rt' k"
  by (simp add: same_job_def same_core_def)

lemma job_ok_same:
  assumes "job_ok rs k" and "same_core (rs_runtime rs) rt' k" and "set (rs_early rs) \<subseteq> set early"
    and "map_of cr k = map_of (rs_creating rs) k" and "k \<in> set ev \<longleftrightarrow> k \<in> set (rs_evicted rs)"
  shows "job_ok \<lparr> rs_runtime = rt', rs_creating = cr, rs_evicted = ev, rs_early = early \<rparr> k"
  using assms open_output_cong [of "jt_output rt'" k "jt_output (rs_runtime rs)"]
    closed_output_cong [of "jt_output rt'" k "jt_output (rs_runtime rs)"]
  by (auto simp: job_ok_def same_core_def split: option.splits creating.splits)

lemma job_ok_evolves:
  assumes ok: "job_ok rs i" and ev: "evolves {Running} (rs_runtime rs) rt' i" and early: "set (rs_early rs) \<subseteq> set early"
    and pend: "evolves {} (rs_runtime rs) rt' i \<or> (\<forall>j. map_of (rs_creating rs) i = Some (Inserted j) \<longrightarrow> i \<in> set early)"
  shows "job_ok \<lparr> rs_runtime = rt', rs_creating = rs_creating rs, rs_evicted = rs_evicted rs, rs_early = early \<rparr> i"
proof (cases "map_of (jt_jobs (rs_runtime rs)) i")
  case None
  from job_ok_same [OF ok same_job_core [OF evolvesD(2) [OF ev None]] early refl refl] show ?thesis .
next
  case (Some job)
  from evolvesD(3) [OF ev Some] obtain job' where j: "map_of (jt_jobs rt') i = Some job'"
    "job_evolves {Running} (rs_runtime rs) rt' i job job'" by blast
  have still: "job_status job' = job_status job \<or> (job_status job' = Running \<and>
      (\<forall>j. map_of (rs_creating rs) i = Some (Inserted j) \<longrightarrow> i \<in> set early))"
    if "\<not> is_terminal_status (job_status job)" "\<not> is_terminal_status (job_status job')"
    using pend
  proof
    assume "evolves {} (rs_runtime rs) rt' i"
    from evolvesD(3) [OF this Some] j that show ?thesis by (auto simp: job_evolves_def)
  qed (use j that in \<open>auto simp: job_evolves_def\<close>)
  consider "is_terminal_status (job_status job)" |
    "\<not> is_terminal_status (job_status job)" "is_terminal_status (job_status job')" |
    "\<not> is_terminal_status (job_status job)" "\<not> is_terminal_status (job_status job')" by blast
  then show ?thesis
  proof cases
    case 1
    with j have "job' = job" "map_of (mo_jobs (jt_output rt')) i = map_of (mo_jobs (jt_output (rs_runtime rs))) i"
      by (simp_all add: job_evolves_def)
    with 1 ok Some j early closed_output_cong [of "jt_output rt'" i "jt_output (rs_runtime rs)"] show ?thesis
      by (auto simp: job_ok_def is_terminal_status_def split: option.splits creating.splits JobStatus.splits)
  next
    case 2
    with ok Some j early show ?thesis
      by (auto simp: job_ok_def job_evolves_def is_terminal_status_def split: option.splits creating.splits JobStatus.splits)
  next
    case 3
    then have "job_status job \<in> {Pending, Sent, Running}" by (cases "job_status job") (simp_all add: is_terminal_status_def)
    with 3 still ok Some j early show ?thesis
      by (auto simp: job_ok_def job_evolves_def split: option.splits creating.splits)
  qed
qed

lemma rt_invD: "rt_inv rs \<Longrightarrow> job_ok rs i"
  by (simp add: rt_inv_def)

lemma rt_inv_core:
  assumes "rt_inv rs" and "\<And>k. same_core (rs_runtime rs) rt' k"
  shows "rt_inv (upd_rt rs rt')"
proof -
  have "job_ok (upd_rt rs rt') k" for k
    using job_ok_same [OF rt_invD [OF assms(1)] assms(2), of "rs_early rs" "rs_creating rs" k "rs_evicted rs"] by (cases rs) simp
  then show ?thesis by (simp add: rt_inv_def)
qed

lemma rt_inv_frame:
  assumes "rt_inv rs" and "evolves {Running} (rs_runtime rs) rt' i" and "set (rs_early rs) \<subseteq> set early"
    and "\<And>j. map_of (rs_creating rs) i = Some (Inserted j) \<Longrightarrow> i \<in> set early"
  shows "rt_inv (rs\<lparr>rs_runtime := rt', rs_early := early\<rparr>)"
proof -
  have "job_ok (rs\<lparr>rs_runtime := rt', rs_early := early\<rparr>) k" for k
  proof (cases "k = i")
    case True
    from job_ok_evolves [OF rt_invD [OF assms(1)] assms(2,3)] assms(4) True show ?thesis by (cases rs) auto
  next
    case False
    from job_ok_same [OF rt_invD [OF assms(1)] same_job_core [OF evolvesD(1) [OF assms(2) False]] assms(3) refl refl]
    show ?thesis by (cases rs) simp
  qed
  then show ?thesis by (simp add: rt_inv_def)
qed

lemma rt_inv_evolves:
  assumes "rt_inv rs" and "evolves {} (rs_runtime rs) rt' i"
  shows "rt_inv (upd_rt rs rt')"
proof -
  have ev: "evolves {Running} (rs_runtime rs) rt' i" using evolves_mono [OF assms(2)] by simp
  have "job_ok (upd_rt rs rt') k" for k
  proof (cases "k = i")
    case True
    from job_ok_evolves [OF rt_invD [OF assms(1)] ev, of "rs_early rs"] assms(2) True show ?thesis by (cases rs) auto
  next
    case False
    from job_ok_same [OF rt_invD [OF assms(1)] same_job_core [OF evolvesD(1) [OF ev False]] order_refl refl refl]
    show ?thesis by (cases rs) simp
  qed
  then show ?thesis by (simp add: rt_inv_def)
qed

lemma finish_job_unknown:
  assumes "map_of (jt_jobs rt) i = None" and "map_of (jt_timeout_tasks rt) i = None"
  shows "same_core rt (fst (finish_job rt now i status c e actor)) k"
  using assms
  by (auto simp: finish_job_def finish_job_done_def finish_job_apply_def end_job_def transition_job_def transition_status_def get_job_def
      clear_lifecycle_tasks_def clear_timeout_task_def clear_disconnect_task_def same_core_def AList.delete_conv')

lemma rt_inv_finish:
  assumes inv: "rt_inv rs" and rt: "rs_runtime rs = rt" and t: "is_terminal_status status"
  shows "rt_inv (upd_rt rs (fst (finish_job rt now i status c e actor)))"
proof (cases "map_of (jt_jobs rt) i")
  case None
  with rt_invD [OF inv, of i] rt have "map_of (jt_timeout_tasks rt) i = None" by (simp add: job_ok_def)
  with None rt show ?thesis by (intro rt_inv_core [OF inv]) (simp add: finish_job_unknown)
next
  case (Some job)
  from finish_job_evolves [OF this t, of now c e actor "{}"] show ?thesis
    using rt_inv_evolves [OF inv, of _ i] rt by fastforce
qed

lemma cancel_job_evolves: "evolves {} rt (fst (cancel_job re rt now now_ms i)) i"
proof (cases "map_of (jt_jobs rt) i")
  case None
  then show ?thesis by (simp add: cancel_job_def get_job_def)
next
  case (Some job)
  obtain rt1 res where s: "rt_send re rt (job_device_id job) (cancel_envelope ''cancel-'' (job_device_id job) i now_ms) = (rt1, res)"
    by fastforce
  have e1: "evolves {} rt rt1 i" using evolves_send [of "{}" rt re] s by (metis fst_conv)
  from rt_send_simps [OF s] Some have j: "map_of (jt_jobs rt1) i = Some job" by simp
  have "is_terminal_status Cancelled" by (simp add: is_terminal_status_def)
  from finish_job_evolves [OF j this, of now "- 1" "''cancelled''" "''service:api''" "{}"] obtain rt2 where
    f: "finish_job rt1 now i Cancelled (- 1) ''cancelled'' ''service:api'' = (rt2, Inr ())" "evolves {} rt1 rt2 i" by blast
  from Some s f e1 evolves_trans [OF e1 f(2)] show ?thesis
    by (auto simp: cancel_job_def get_job_def split: sum.split)
qed

lemma is_terminal_Failed [simp]: "is_terminal_status Failed"
  by (simp add: is_terminal_status_def)

lemma end_evolves:
  assumes "map_of (jt_jobs rt) i = Some job" and "\<not> is_terminal_status (job_status job)"
    and "jt_jobs rt0 = jt_jobs rt" and "jt_output rt0 = jt_output rt"
    and "\<And>k. k \<noteq> i \<Longrightarrow> map_of (jt_timeout_tasks rt0) k = map_of (jt_timeout_tasks rt) k"
    and "\<And>k. k \<noteq> i \<Longrightarrow> map_of (jt_disconnect_tasks rt0) k = map_of (jt_disconnect_tasks rt) k"
  shows "\<exists>rt' job'. end_job rt0 now i Failed c e actor = (rt', Inr ()) \<and> evolves S rt rt' i \<and>
    map_of (jt_jobs rt') i = Some job' \<and> job_status job' = Failed \<and> job_exit_code job' = Some c \<and> job_error job' = Some e"
proof -
  from assms(1,3) have "map_of (jt_jobs rt0) i = Some job" by simp
  from end_job_effect [OF this assms(2) is_terminal_Failed, of now c e actor] obtain rt' job' where 1:
    "end_job rt0 now i Failed c e actor = (rt', Inr ())" "map_of (jt_jobs rt') = (map_of (jt_jobs rt0))(i \<mapsto> job')"
    "job_status job' = Failed" "job_id job' = job_id job" "job_device_id job' = job_device_id job" "job_exit_code job' = Some c"
    "job_error job' = Some e" "jt_output rt' = push_finished (jt_output rt0) i c e" "jt_timeout_tasks rt' = jt_timeout_tasks rt0"
    "jt_disconnect_tasks rt' = jt_disconnect_tasks rt0" by blast
  have "evolves S rt rt' i"
    by (rule evolves_end [OF assms(1,2), of job' rt' c e]) (use 1 assms in simp_all)
  with 1 show ?thesis by (intro exI [of _ rt'] exI [of _ job']) simp
qed

lemma rt_inv_timer_removed:
  assumes inv: "rt_inv rs" and "map_of (jt_jobs (rs_runtime rs)) i = Some job" and "is_terminal_status (job_status job)"
  shows "rt_inv (upd_rt rs (remove_timeout_task (rs_runtime rs) i))"
proof (rule rt_inv_evolves [OF inv])
  show "evolves {} (rs_runtime rs) (remove_timeout_task (rs_runtime rs) i) i"
    by (rule evolvesI) (use assms in \<open>simp_all add: remove_timeout_task_def same_job_def AList.delete_conv' job_evolves_def\<close>)
qed

lemma timeout_grace_over_effect:
  assumes "map_of (jt_jobs rt) i = Some job" and "\<not> is_terminal_status (job_status job)"
  shows "\<exists>rt' job'. timeout_grace_over rt now i = (rt', Inr ()) \<and> evolves S rt rt' i \<and> map_of (jt_jobs rt') i = Some job' \<and>
    job_status job' = Failed \<and> job_exit_code job' = Some (- 1) \<and> job_error job' = Some ''timeout''"
proof -
  from end_evolves [OF assms, of "clear_disconnect_task (remove_timeout_task rt i) i" now "- 1" "''timeout''" "''hub:timeout''" S]
  show ?thesis using assms
    by (simp add: timeout_grace_over_def get_job_def clear_disconnect_task_def remove_timeout_task_def AList.delete_conv')
qed

lemma rt_inv_grace:
  assumes inv: "rt_inv rs" and task: "map_of (jt_timeout_tasks (rs_runtime rs)) i = Some task"
  shows "rt_inv (upd_rt rs (fst (timeout_grace_over (rs_runtime rs) now i)))"
proof -
  from rt_invD [OF inv, of i] task obtain job where job: "map_of (jt_jobs (rs_runtime rs)) i = Some job"
    by (auto simp: job_ok_def split: option.splits)
  show ?thesis
  proof (cases "is_terminal_status (job_status job)")
    case True
    with job rt_inv_timer_removed [OF inv job True] show ?thesis by (simp add: timeout_grace_over_def get_job_def)
  next
    case False
    from timeout_grace_over_effect [OF job False, of now "{}"] show ?thesis using rt_inv_evolves [OF inv, of _ i] by fastforce
  qed
qed

lemma rt_inv_fires:
  assumes inv: "rt_inv rs" and task: "map_of (jt_timeout_tasks (rs_runtime rs)) i = Some task"
  shows "rt_inv (upd_rt rs (timeout_fires re (rs_runtime rs) now_ms i d))"
proof -
  from rt_invD [OF inv, of i] task obtain job where job: "map_of (jt_jobs (rs_runtime rs)) i = Some job"
    by (auto simp: job_ok_def split: option.splits)
  show ?thesis
  proof (cases "is_terminal_status (job_status job)")
    case True
    with job rt_inv_timer_removed [OF inv job True] show ?thesis by (simp add: timeout_fires_def get_job_def)
  next
    case False
    obtain rt1 res where s: "rt_send re (rs_runtime rs) d (cancel_envelope ''timeout-'' d i now_ms) = (rt1, res)" by fastforce
    have "evolves {} (rs_runtime rs) (timeout_fires re (rs_runtime rs) now_ms i d) i"
      by (rule evolvesI)
        (use rt_send_simps [OF s] job False s in \<open>simp_all add: timeout_fires_def get_job_def same_job_def AList.update_conv' job_evolves_def\<close>)
    then show ?thesis by (rule rt_inv_evolves [OF inv])
  qed
qed

lemma rt_inv_expired:
  assumes inv: "rt_inv rs"
  shows "rt_inv (upd_rt rs (fst (handle_disconnect_expired (rs_runtime rs) now i d)))"
proof -
  let ?rt = "rs_runtime rs"
  have removed: "rt_inv (upd_rt rs (remove_disconnect_task ?rt i))"
    by (rule rt_inv_core [OF inv]) (simp add: same_core_def remove_disconnect_task_def)
  show ?thesis
  proof (cases "has_active (jt_connections ?rt) d \<or> map_of (jt_jobs ?rt) i = None")
    case True
    with removed show ?thesis by (auto simp: handle_disconnect_expired_def get_job_def)
  next
    case False
    then obtain job where job: "map_of (jt_jobs ?rt) i = Some job" "\<not> has_active (jt_connections ?rt) d" by auto
    show ?thesis
    proof (cases "job_status job \<in> {Sent, Running}")
      case True
      then have nt: "\<not> is_terminal_status (job_status job)" by (auto simp: is_terminal_status_def)
      from end_evolves [OF job(1) nt, of "clear_timeout_task (remove_disconnect_task ?rt i) i" now "- 1"
          "''device disconnected''" "''hub:disconnect''" "{}"] True job
      show ?thesis using rt_inv_evolves [OF inv, of _ i]
        by (fastforce simp: handle_disconnect_expired_def get_job_def clear_timeout_task_def remove_disconnect_task_def AList.delete_conv')
    next
      case False
      with job removed show ?thesis by (simp add: handle_disconnect_expired_def get_job_def)
    qed
  qed
qed

lemma connected_core: "same_core rt (foldl (\<lambda>rt job. if job_status job \<in> {Sent, Running} then clear_disconnect_task rt (job_id job) else rt) rt js) k"
proof (induction js arbitrary: rt)
  case (Cons j js)
  have "same_core rt (clear_disconnect_task rt (job_id j)) k" by (simp add: same_core_def clear_disconnect_task_def)
  with Cons [of "clear_disconnect_task rt (job_id j)"] Cons [of rt] show ?case by (auto simp: same_core_def)
qed (simp add: same_core_def)

lemma rt_inv_disconnect_jobs:
  "rt_inv rs \<Longrightarrow> rs_runtime rs = rt \<Longrightarrow> rt_inv (upd_rt rs (fst (disconnect_jobs rt now js)))"
proof (induction js arbitrary: rs rt)
  case Nil
  then have "upd_rt rs rt = rs" by (cases rs) auto
  with Nil(1) show ?case by (simp only: disconnect_jobs.simps fst_conv)
next
  case (Cons j js)
  have sched: "rt_inv (upd_rt rs (schedule_disconnect_failure rt j))"
    by (rule rt_inv_core [OF Cons.prems(1)]) (simp add: Cons.prems(2) same_core_def schedule_disconnect_failure_def)
  have next_js: "rt_inv (upd_rt rs (fst (disconnect_jobs rt' now js)))" if "rt_inv (upd_rt rs rt')" for rt'
    using Cons.IH [OF that, of rt'] by simp
  obtain rt1 res where f: "finish_job rt now (job_id j) Failed (- 1) ''device disconnected'' ''hub:disconnect'' = (rt1, res)" by fastforce
  from rt_inv_finish [OF Cons.prems is_terminal_Failed, of now "job_id j" "- 1" "''device disconnected''" "''hub:disconnect''"] f
  have fin: "rt_inv (upd_rt rs rt1)" by simp
  from Cons.prems have "upd_rt rs rt = rs" by (cases rs) auto
  with Cons.prems(1) have "rt_inv (upd_rt rs rt)" by (simp only:)
  with f fin sched next_js show ?case by (auto split: JobStatus.split sum.split)
qed

lemma create_insert_cases:
  "(\<exists>e. create_insert rt now i nj = (rt, Inl e)) \<or>
   (\<exists>rt' job. create_insert rt now i nj = (rt', Inr job) \<and> job_id job = i \<and> job_status job = Pending \<and>
     map_of (jt_jobs rt') = (map_of (jt_jobs rt))(i \<mapsto> job) \<and> jt_output rt' = prime (jt_output rt) i \<and>
     jt_timeout_tasks rt' = jt_timeout_tasks rt)"
  by (auto simp: create_insert_def dispatcher_create_job_def insert_job_def new_pending_def publish_job_created_def AList.update_conv' Let_def
      split: option.split)

lemma rt_inv_insert:
  assumes inv: "rt_inv rs" and fresh: "map_of (jt_jobs (rs_runtime rs)) i = None"
  shows "rt_inv (rt_step re sh rs (CreateInsert now i nj))"
  using create_insert_cases [of "rs_runtime rs" now i nj]
proof (elim disjE exE conjE)
  fix e assume "create_insert (rs_runtime rs) now i nj = (rs_runtime rs, Inl e)"
  with fresh inv show ?thesis by simp
next
  fix rt' job assume new: "create_insert (rs_runtime rs) now i nj = (rt', Inr job)" "job_id job = i" "job_status job = Pending"
    "map_of (jt_jobs rt') = (map_of (jt_jobs (rs_runtime rs)))(i \<mapsto> job)" "jt_output rt' = prime (jt_output (rs_runtime rs)) i"
    "jt_timeout_tasks rt' = jt_timeout_tasks (rs_runtime rs)"
  let ?rs = "\<lparr> rs_runtime = rt', rs_creating = AList.update i (Inserted job) (rs_creating rs), rs_evicted = rs_evicted rs, rs_early = rs_early rs \<rparr>"
  have "job_ok ?rs k" for k
  proof (cases "k = i")
    case True
    have "map_of (mo_jobs (jt_output (rs_runtime rs))) i = None" using rt_invD [OF inv, of i] fresh by (simp add: job_ok_def)
    then have "open_output (jt_output rt') i"
      by (simp add: new open_output_def items_of_def) (simp add: job_state_def output_state_new_def)
    then show ?thesis using new True by (simp add: job_ok_def AList.update_conv' is_terminal_status_def)
  next
    case False
    show ?thesis
      by (rule job_ok_same [OF rt_invD [OF inv]]) (use False new in \<open>simp_all add: same_core_def mo_jobs_prime AList.update_conv'\<close>)
  qed
  then have "rt_inv ?rs" by (simp add: rt_inv_def)
  then show ?thesis using fresh new by (cases rs) simp
qed

lemma create_send_cases:
  assumes job: "map_of (jt_jobs rt) i = Some job" and j: "job_id j = i"
  shows "(\<exists>e. create_send re sh rt now now_ms j = (rt, Inl e)) \<and> job_status job \<noteq> Pending \<or>
    (\<exists>rt' job'. create_send re sh rt now now_ms j = (rt', Inr ()) \<and> evolves {Sent} rt rt' i \<and>
       map_of (jt_jobs rt') i = Some job' \<and> job_status job' = Sent) \<or>
    (\<exists>rt' job' e. create_send re sh rt now now_ms j = (rt', Inl e) \<and> evolves {Sent} rt rt' i \<and>
       map_of (jt_jobs rt') i = Some job' \<and> is_terminal_status (job_status job'))"
proof (cases "resolve_status_transition (job_status job) Sent = Inr Sent")
  case True
  from transition_job_effect [OF job True, of now "''service:api''"] obtain rt1 job1 where 1:
    "transition_job rt now i Sent ''service:api'' = (rt1, Inr Sent)" "same_rest rt rt1"
    "map_of (jt_jobs rt1) = (map_of (jt_jobs rt))(i \<mapsto> job1)" "job_status job1 = Sent" "job_id job1 = job_id job"
    "job_device_id job1 = job_device_id job" by blast
  from True have nt: "\<not> is_terminal_status (job_status job)"
    by (cases "job_status job") (simp_all add: resolve_status_transition_def is_terminal_status_def)
  have e1: "evolves {Sent} rt rt1 i"
    by (rule evolvesI) (use job nt 1 in \<open>simp_all add: same_job_def same_rest_def job_evolves_def is_terminal_status_def\<close>)
  obtain rt2 res where 2: "rt_send re rt1 (job_device_id j) (job_request_envelope j now_ms) = (rt2, res)" by fastforce
  have e2: "evolves {Sent} rt rt2 i" using evolves_trans [OF e1 evolves_send, of re] 2 by (metis fst_conv)
  from rt_send_simps [OF 2] 1(3) have j2: "map_of (jt_jobs rt2) i = Some job1" by simp
  show ?thesis
  proof (cases res)
    case (Inr u)
    with 1 2 e2 j2 j show ?thesis by (simp add: create_send_def)
  next
    case (Inl e)
    have "\<not> is_terminal_status (job_status job1)" using 1(4) by (simp add: is_terminal_status_def)
    from end_evolves [OF j2 this refl refl, of now "- 1" "sh e" "''hub:dispatch''" "{Sent}"] obtain rt3 job3 where 3:
      "end_job rt2 now i Failed (- 1) (sh e) ''hub:dispatch'' = (rt3, Inr ())" "evolves {Sent} rt2 rt3 i"
      "map_of (jt_jobs rt3) i = Some job3" "job_status job3 = Failed" by auto
    with Inl 1(1) 2 j evolves_trans [OF e2 3(2)] show ?thesis by (simp add: create_send_def)
  qed
next
  case False
  then have "job_status job \<noteq> Pending" "job_status job \<noteq> Sent" by (auto simp: resolve_status_transition_def is_terminal_status_def)
  with False job have "\<exists>e. transition_job rt now i Sent ''service:api'' = (rt, Inl e)"
    by (cases "job_status job")
      (simp_all add: transition_job_def transition_status_def apply_status_transition_def resolve_status_transition_def is_terminal_status_def)
  then have "\<exists>e. create_send re sh rt now now_ms j = (rt, Inl e)" using j by (auto simp: create_send_def)
  with \<open>job_status job \<noteq> Pending\<close> show ?thesis by simp
qed

text \<open>After a part of \<open>create_job\<close> has run, the bookkeeping of the calls in progress changes for that job alone.\<close>

lemma rt_inv_creating:
  assumes inv: "rt_inv rs" and ev: "evolves S (rs_runtime rs) rt' i"
    and cr: "\<And>k. k \<noteq> i \<Longrightarrow> map_of cr k = map_of (rs_creating rs) k"
    and ok: "job_ok (rs\<lparr>rs_runtime := rt', rs_creating := cr\<rparr>) i"
  shows "rt_inv (rs\<lparr>rs_runtime := rt', rs_creating := cr\<rparr>)"
proof -
  have "job_ok (rs\<lparr>rs_runtime := rt', rs_creating := cr\<rparr>) k" if "k \<noteq> i" for k
    using job_ok_same [OF rt_invD [OF inv] same_job_core [OF evolvesD(1) [OF ev that]] order_refl cr [OF that] refl]
    by (cases rs) simp
  with ok show ?thesis by (metis rt_inv_def)
qed

lemma rt_inv_create_send:
  assumes inv: "rt_inv rs" and cr: "map_of (rs_creating rs) i = Some (Inserted j)"
  shows "rt_inv (rt_step re sh rs (CreateSend now now_ms i))"
proof -
  let ?rt = "rs_runtime rs"
  from rt_invD [OF inv, of i] cr obtain job where job: "map_of (jt_jobs ?rt) i = Some job" "job_id j = i" "job_id job = i"
    "job_device_id j = job_device_id job" "job_status job = Pending \<or> is_terminal_status (job_status job) \<or> i \<in> set (rs_early rs)"
    "\<not> is_terminal_status (job_status job) \<longrightarrow> open_output (jt_output ?rt) i"
    "is_terminal_status (job_status job) \<longrightarrow> i \<notin> set (rs_evicted rs) \<longrightarrow>
       (\<exists>c e. job_exit_code job = Some c \<and> job_error job = Some e \<and> closed_output (jt_output ?rt) i c e)"
    by (auto simp: job_ok_def split: option.splits)
  from create_send_cases [OF job(1,2), of re sh now now_ms] show ?thesis
  proof (elim disjE exE conjE)
    fix e assume 1: "create_send re sh ?rt now now_ms j = (?rt, Inl e)" "job_status job \<noteq> Pending"
    have "rt_inv (rs\<lparr>rs_runtime := ?rt, rs_creating := AList.delete i (rs_creating rs)\<rparr>)"
      by (rule rt_inv_creating [OF inv evolves_refl])
        (use 1 job in \<open>auto simp: AList.delete_conv' job_ok_def is_terminal_status_def\<close>)
    with 1 cr show ?thesis by simp
  next
    fix rt' job' assume 1: "create_send re sh ?rt now now_ms j = (rt', Inr ())" "evolves {Sent} ?rt rt' i"
      "map_of (jt_jobs rt') i = Some job'" "job_status job' = Sent"
    from evolvesD(3) [OF 1(2) job(1)] 1(3,4) have "job_evolves {Sent} ?rt rt' i job job'" by simp
    then have "rt_inv (rs\<lparr>rs_runtime := rt', rs_creating := AList.update i (Dispatched j) (rs_creating rs)\<rparr>)"
      by (intro rt_inv_creating [OF inv 1(2)])
        (use 1 job in \<open>auto simp: AList.update_conv' job_ok_def is_terminal_status_def job_evolves_def split: if_splits\<close>)
    with 1 cr show ?thesis by simp
  next
    fix rt' job' e assume 1: "create_send re sh ?rt now now_ms j = (rt', Inl e)" "evolves {Sent} ?rt rt' i"
      "map_of (jt_jobs rt') i = Some job'" "is_terminal_status (job_status job')"
    from evolvesD(3) [OF 1(2) job(1)] 1(3) have ev: "job_evolves {Sent} ?rt rt' i job job'" by simp
    then have closed: "i \<notin> set (rs_evicted rs) \<longrightarrow>
        (\<exists>c e. job_exit_code job' = Some c \<and> job_error job' = Some e \<and> closed_output (jt_output rt') i c e)"
      using job 1(4) closed_output_cong [of "jt_output rt'" i "jt_output ?rt"] by (auto simp: job_evolves_def split: if_splits)
    have st: "job_status job' \<noteq> Pending" "job_status job' \<notin> {Sent, Running}" using 1(4) by (auto simp: is_terminal_status_def)
    have "rt_inv (rs\<lparr>rs_runtime := rt', rs_creating := AList.delete i (rs_creating rs)\<rparr>)"
      by (intro rt_inv_creating [OF inv 1(2)])
        (use 1(3,4) job(3) closed st ev in \<open>simp_all add: AList.delete_conv' job_ok_def job_evolves_def\<close>)
    with 1 cr show ?thesis by simp
  qed
qed

lemma rt_inv_schedule:
  assumes inv: "rt_inv rs" and cr: "map_of (rs_creating rs) i = Some (Dispatched j)"
  shows "rt_inv (rt_step re sh rs (CreateSchedule i))"
proof -
  let ?rt = "rs_runtime rs"
  from rt_invD [OF inv, of i] cr obtain job where job: "map_of (jt_jobs ?rt) i = Some job" "job_id j = i"
    by (auto simp: job_ok_def split: option.splits)
  have ev: "evolves {} ?rt (schedule_timeout ?rt j) i"
    by (rule evolvesI) (use job in \<open>simp_all add: schedule_timeout_def same_job_def AList.update_conv' job_evolves_def\<close>)
  have "rt_inv (rs\<lparr>rs_runtime := schedule_timeout ?rt j, rs_creating := AList.delete i (rs_creating rs)\<rparr>)"
    by (rule rt_inv_creating [OF inv ev])
      (use job cr rt_invD [OF inv, of i] in \<open>simp_all add: AList.delete_conv' AList.update_conv' job_ok_def schedule_timeout_def\<close>)
  with cr show ?thesis by simp
qed

lemma rt_inv_subscribe:
  assumes inv: "rt_inv rs" and job: "map_of (jt_jobs (rs_runtime rs)) i = Some job"
  shows "rt_inv (upd_rt rs ((rs_runtime rs)\<lparr>jt_output := prime (jt_output (rs_runtime rs)) i\<rparr>))"
proof -
  let ?rt = "(rs_runtime rs)\<lparr>jt_output := prime (jt_output (rs_runtime rs)) i\<rparr>"
  have "job_ok (upd_rt rs ?rt) k" for k
  proof (cases "k = i")
    case True
    then show ?thesis using rt_invD [OF inv, of i] job
      by (simp add: job_ok_def open_output_def closed_output_def items_of_def split: option.splits creating.splits)
  next
    case False
    then have "same_core (rs_runtime rs) ?rt k" by (simp add: same_core_def mo_jobs_prime)
    from job_ok_same [OF rt_invD [OF inv] this order_refl refl refl] show ?thesis by (cases rs) simp
  qed
  then show ?thesis by (simp add: rt_inv_def)
qed

lemma rt_inv_evict:
  assumes inv: "rt_inv rs" and fin: "os_finished (job_state (jt_output (rs_runtime rs)) i)"
  shows "rt_inv (rt_step re sh rs (EvictOutput i))"
proof -
  let ?rt = "(rs_runtime rs)\<lparr>jt_output := evict_finished (jt_output (rs_runtime rs)) i\<rparr>"
  let ?rs = "rs\<lparr>rs_runtime := ?rt, rs_evicted := i # rs_evicted rs\<rparr>"
  have "job_ok ?rs k" for k
  proof (cases "k = i")
    case True
    from fin rt_invD [OF inv, of i] obtain job where "map_of (jt_jobs (rs_runtime rs)) i = Some job" "is_terminal_status (job_status job)"
      by (auto simp: job_ok_def open_output_def job_state_def output_state_new_def split: option.splits)
    then show ?thesis using True rt_invD [OF inv, of i] by (simp add: job_ok_def split: option.splits creating.splits)
  next
    case False
    then have "same_core (rs_runtime rs) ?rt k" by (simp add: same_core_def evict_finished_def AList.delete_conv')
    from job_ok_same [OF rt_invD [OF inv] this order_refl refl, of "i # rs_evicted rs"] False show ?thesis by (cases rs) simp
  qed
  then show ?thesis using fin by (simp add: rt_inv_def)
qed

lemma rt_inv_device_frame:
  assumes inv: "rt_inv rs"
  shows "rt_inv (rt_step re sh rs (DeviceFrame now d frame))"
proof -
  let ?rt = "fst (handle_device_frame re (rs_runtime rs) now d frame)"
  define early where "early = filter (\<lambda>i. case map_of (rs_creating rs) i of Some (Inserted _) \<Rightarrow> True | _ \<Rightarrow> False) (frame_jobs frame) @ rs_early rs"
  have sub: "set (rs_early rs) \<subseteq> set early" by (simp add: early_def)
  have "rt_inv (rs\<lparr>rs_runtime := ?rt, rs_early := early\<rparr>)"
    using handle_device_frame_effect [of "rs_runtime rs" re now d frame]
  proof (elim disjE exE conjE)
    assume same: "\<forall>k. same_job (rs_runtime rs) ?rt k"
    have "job_ok (rs\<lparr>rs_runtime := ?rt, rs_early := early\<rparr>) k" for k
      using job_ok_same [OF rt_invD [OF inv] same_job_core [OF same [rule_format]] sub refl refl] by (cases rs) simp
    then show ?thesis by (simp add: rt_inv_def)
  next
    fix i job assume "evolves {Running} (rs_runtime rs) ?rt i" "frame_jobs frame = [i]"
    then show ?thesis by (intro rt_inv_frame [OF inv _ sub]) (auto simp: early_def)
  qed
  then show ?thesis by (simp add: early_def)
qed

lemma rt_inv_step:
  assumes inv: "rt_inv rs"
  shows "rt_inv (rt_step re sh rs x)"
proof (cases x)
  case (CreateInsert now i nj)
  then show ?thesis using inv rt_inv_insert [OF inv, of i re sh now nj] by (cases "map_of (jt_jobs (rs_runtime rs)) i") auto
next
  case (CreateSend now now_ms i)
  show ?thesis
  proof (cases "\<exists>j. map_of (rs_creating rs) i = Some (Inserted j)")
    case True
    then show ?thesis using rt_inv_create_send [OF inv] CreateSend by blast
  next
    case False
    then show ?thesis using inv CreateSend by (auto split: option.split creating.split)
  qed
next
  case (CreateSchedule i)
  show ?thesis
  proof (cases "\<exists>j. map_of (rs_creating rs) i = Some (Dispatched j)")
    case True
    then show ?thesis using rt_inv_schedule [OF inv] CreateSchedule by blast
  next
    case False
    then show ?thesis using inv CreateSchedule by (auto split: option.split creating.split)
  qed
next
  case (DeviceFrame now d frame)
  then show ?thesis using rt_inv_device_frame [OF inv] by blast
next
  case (EvictOutput i)
  then show ?thesis using inv rt_inv_evict [OF inv] by (cases "os_finished (job_state (jt_output (rs_runtime rs)) i)") auto
next
  case (SubscribeOutput i)
  then show ?thesis using inv rt_inv_subscribe [OF inv] by (cases "map_of (jt_jobs (rs_runtime rs)) i") auto
next
  case (DeviceConnected d)
  then show ?thesis using rt_inv_core [OF inv, OF connected_core] by (simp add: handle_device_connected_def)
next
  case (OtherTasks ds reg pf)
  then show ?thesis using rt_inv_core [OF inv, of "(rs_runtime rs)\<lparr>jt_devices := ds, jt_connections := reg, jt_pending_files := pf\<rparr>"]
    by (simp add: same_core_def)
next
  case (TimeoutFires now_ms i)
  then show ?thesis using inv rt_inv_fires [OF inv] by (auto split: option.split)
next
  case (TimeoutGraceOver now i)
  then show ?thesis using inv rt_inv_grace [OF inv] by (auto split: option.split)
next
  case (DisconnectExpired now i)
  then show ?thesis using inv rt_inv_expired [OF inv] by (auto split: option.split)
next
  case (CancelJob now now_ms i)
  then show ?thesis using rt_inv_evolves [OF inv cancel_job_evolves] by simp
next
  case (DeviceDisconnected now d)
  then show ?thesis using rt_inv_disconnect_jobs [OF inv refl] by (simp add: handle_device_disconnected_def)
qed

lemma rt_inv_run: "rt_inv rs \<Longrightarrow> rt_inv (run_runtime re sh rs xs)"
  by (induction xs arbitrary: rs) (simp_all add: run_runtime_def rt_inv_step del: rt_step.simps)

lemma rt_inv_new: "rt_inv (runtime_new m reg)"
  by (simp add: rt_inv_def job_ok_def runtime_new_def memory_output_new_def)

lemma finish_job_apply_again:
  assumes "map_of (jt_jobs rt) i = Some job" and "job_status job = status"
  shows "\<exists>rt'. finish_job_apply rt now i status c e actor = (rt', Inr ()) \<and> jt_output rt' = push_finished (jt_output rt) i c e \<and>
    map_of (jt_jobs rt') = (map_of (jt_jobs rt))(i \<mapsto>
      job\<lparr>job_exit_code := Some c, job_error := Some e, job_output_summary := Some (build_output_summary c e)\<rparr>)"
  using assms
  by (simp add: finish_job_apply_def end_job_def transition_job_def transition_status_def get_job_def record_terminal_state_def
      update_terminal_def clear_lifecycle_tasks_def clear_disconnect_task_def clear_timeout_task_def AList.update_conv')

lemma items_push_finished: "items_of (push_finished mo i c e) i = items_of mo i @ [OFinished c e]"
  by (simp add: items_of_def push_finished_def job_state_record rec_item_simps)

subsection \<open>A sample runtime\<close>

definition sample_env :: "InMemoryOutboxStore RuntimeEnv" where
  "sample_env = \<lparr> re_ops = mem_ops, re_encode = (\<lambda>env. [1]), re_lossy = (\<lambda>b. ''out'') \<rparr>"

definition sample_devices :: MemoryDeviceStore where
  "sample_devices = [(''d'', \<lparr> sd_device = \<lparr> dv_id = ''d'', dv_public_key = None, dv_hostname = ''h'', dv_os = ''linux'', dv_capabilities = [],
     dv_version = None, dv_auth_method = ''bootstrap'', dv_online = True, dv_external_user_id = None \<rparr>, sd_last_signed_at_ms = 0 \<rparr>)]"

definition sample_new_job :: NewJob where
  "sample_new_job = \<lparr> nj_device_id = ''d'', nj_tool = ''echo'', nj_args = [], nj_cwd = None, nj_env = [], nj_timeout_ms = 1000,
     nj_requested_by = ''u'', nj_interactive = False \<rparr>"

definition sample_start :: "InMemoryOutboxStore rt_op list" where
  "sample_start = [OtherTasks sample_devices live_registry (pf_new 1), CreateInsert 1 ''j'' sample_new_job, CreateSend 1 1 ''j'', CreateSchedule ''j'']"

definition sample_system :: "InMemoryOutboxStore RuntimeSystem" where
  "sample_system = run_runtime sample_env (\<lambda>e. ''offline'') (runtime_new 10 empty_registry) sample_start"

definition sample_finished :: "string + DevicePayload Envelope" where
  "sample_finished = Inr \<lparr> env_device_id = ''d'', env_trace_id = [], env_msg_id = ''m'', env_seq = 0, env_ack = 0, env_ts_ms = 7,
     env_payload = Some (RecvJobFinished ''j'' 0 []) \<rparr>"

lemmas rt_eval =
  create_insert_def dispatcher_create_job_def device_get_def insert_job_def new_pending_def publish_job_created_def create_send_def
  transition_job_def transition_status_def apply_status_transition_def resolve_status_transition_def is_terminal_status_def get_job_def
  emit_job_status_def job_status_action_def rt_send_def schedule_timeout_def end_job_def record_terminal_state_def update_terminal_def
  finish_job_def finish_job_done_def finish_job_apply_def clear_lifecycle_tasks_def clear_disconnect_task_def clear_timeout_task_def

lemma sample_system_job:
  "map_option job_status (map_of (jt_jobs (rs_runtime sample_system)) ''j'') = Some Sent \<and> rs_creating sample_system = [] \<and>
   map_option job_device_id (map_of (jt_jobs (rs_runtime sample_system)) ''j'') = Some ''d'' \<and>
   rs_early sample_system = [] \<and> rs_evicted sample_system = []"
  by (simp add: sample_system_def sample_start_def run_runtime_def runtime_new_def sample_devices_def sample_new_job_def sample_env_def
      live_registry_eval conn_eval rt_eval)

section \<open>Properties\<close>





text \<open>
  C24. A device can only touch its own jobs. Whatever frame a device sends, well-formed or not, nothing
  the runtime knows about a job of another device changes: not its record, nor its output, nor its
  timers.
\<close>

theorem frames_confined:
  assumes "map_of (jt_jobs rt) k = Some job" and "job_device_id job \<noteq> d"
  shows "same_job rt (fst (handle_device_frame re rt now d frame)) k"
  using handle_device_frame_effect [of rt re now d frame]
proof (elim disjE exE conjE)
  fix i job' assume "map_of (jt_jobs rt) i = Some job'" "job_device_id job' = d"
    and ev: "evolves {Running} rt (fst (handle_device_frame re rt now d frame)) i"
  with assms have "k \<noteq> i" by auto
  from evolvesD(1) [OF ev this] show ?thesis .
qed simp

theorem frames_confined_witness:
  "same_job (rs_runtime sample_system) (fst (handle_device_frame sample_env (rs_runtime sample_system) 2 ''e'' sample_finished)) ''j''"
proof -
  from sample_system_job obtain job where "map_of (jt_jobs (rs_runtime sample_system)) ''j'' = Some job" "job_device_id job = ''d''" by auto
  with frames_confined [OF this(1), of "''e''"] show ?thesis by simp
qed

text \<open>
  C23. What creating a job does, in every case. An unknown device or one marked offline is refused and
  nothing changes; if the request cannot be sent, the caller gets an offline error and the job is kept
  as failed with its result published; otherwise the job is returned as sent, its output empty and its
  timer running.
\<close>

theorem create_job_outcome:
  assumes "map_of (mo_jobs (jt_output rt)) i = None" and "create_job re sh rt now now_ms i nj = (rt', res)"
    and "conn_send (re_ops re) (re_encode re) (jt_connections rt) (nj_device_id nj) (job_request_envelope (new_pending i nj now) now_ms) = (reg', sent)"
  shows "case device_get (jt_devices rt) (nj_device_id nj) of
      None \<Rightarrow> rt' = rt \<and> res = Inl (HubErr (DeviceNotFound (nj_device_id nj)))
    | Some device \<Rightarrow>
        if \<not> dv_online device then rt' = rt \<and> res = Inl (HubErr (DeviceOffline (dv_id device)))
        else \<exists>job. map_of (jt_jobs rt') i = Some job \<and> job_device_id job = nj_device_id nj \<and> jt_connections rt' = reg' \<and>
          (case sent of
             Inr _ \<Rightarrow> res = Inr job \<and> job_status job = Sent \<and> items_of (jt_output rt') i = [] \<and>
               map_of (jt_timeout_tasks rt') i = Some \<lparr> tt_device_id = nj_device_id nj, tt_cancel_sent = False \<rparr>
           | Inl err \<Rightarrow> res = Inl (HubErr (DeviceOffline (nj_device_id nj))) \<and> job_status job = Failed \<and> job_error job = Some (sh err) \<and>
               items_of (jt_output rt') i = [OFinished (- 1) (sh err)] \<and> jt_timeout_tasks rt' = jt_timeout_tasks rt)"
proof -
  have "items_of (prime (jt_output rt) i) i = []"
    using assms(1) by (simp add: items_of_def) (simp add: job_state_def output_state_new_def)
  with assms(2,3) show ?thesis
    by (auto simp: create_job_def rt_eval AList.update_conv' items_push_finished Let_def split: option.splits if_splits sum.splits)
qed

theorem create_job_outcome_witness:
  "\<exists>rt' job. create_job sample_env (\<lambda>e. ''offline'') (rs_runtime (run_runtime sample_env (\<lambda>e. ''offline'') (runtime_new 10 empty_registry)
      [OtherTasks sample_devices empty_registry (pf_new 1)])) 1 1 ''j'' sample_new_job = (rt', Inl (HubErr (DeviceOffline ''d''))) \<and>
     map_of (jt_jobs rt') ''j'' = Some job \<and> job_status job = Failed \<and> job_error job = Some ''offline''"
proof -
  let ?rt = "rs_runtime (run_runtime sample_env (\<lambda>e. ''offline'') (runtime_new 10 empty_registry) [OtherTasks sample_devices empty_registry (pf_new 1)])"
  obtain rt' res where c: "create_job sample_env (\<lambda>e. ''offline'') ?rt 1 1 ''j'' sample_new_job = (rt', res)" by fastforce
  have s: "conn_send (re_ops sample_env) (re_encode sample_env) (jt_connections ?rt) (nj_device_id sample_new_job)
      (job_request_envelope (new_pending ''j'' sample_new_job 1) 1) = (empty_registry, Inl (DeviceOffline ''d''))"
    by (simp add: run_runtime_def conn_send_def send_lookup_def active_of_def empty_registry_def sample_new_job_def)
  have "map_of (mo_jobs (jt_output ?rt)) ''j'' = None" by (simp add: run_runtime_def runtime_new_def memory_output_new_def)
  from create_job_outcome [OF this c s] c show ?thesis
    by (auto simp: run_runtime_def device_get_def sample_devices_def sample_new_job_def)
qed

text \<open>
  Two ends of one job may both be published. \<^verbatim>\<open>finish_job\<close> checks the status before it acts; when two
  callers have both passed the check and end the job with the same status, as a cancellation and the
  device's own \<^verbatim>\<open>cancelled\<close> answer do, the second one is not refused: it overwrites the stored result
  and a second finished event follows the first.
\<close>

theorem concurrent_finish_published_twice:
  assumes "map_of (jt_jobs rt) i = Some job" and "\<not> finish_job_done rt i" and "is_terminal_status status"
    and "finish_job_apply rt now i status c e actor = (rt1, res1)" and "finish_job_apply rt1 now' i status c' e' actor' = (rt2, res2)"
  shows "res1 = Inr () \<and> res2 = Inr () \<and> items_of (jt_output rt2) i = items_of (jt_output rt) i @ [OFinished c e, OFinished c' e'] \<and>
    map_option job_error (map_of (jt_jobs rt2) i) = Some (Some e')"
proof -
  have nt: "\<not> is_terminal_status (job_status job)" using assms(1,2) by (simp add: finish_job_done_def get_job_def)
  have "map_of (jt_jobs (clear_lifecycle_tasks rt i)) i = Some job"
    using assms(1) by (simp add: clear_lifecycle_tasks_def clear_disconnect_task_def clear_timeout_task_def)
  from end_job_effect [OF this nt assms(3), of now c e actor] assms(4) obtain job1 where 1: "res1 = Inr ()"
    "map_of (jt_jobs rt1) i = Some job1" "job_status job1 = status" "jt_output rt1 = push_finished (jt_output rt) i c e"
    by (auto simp: finish_job_apply_def clear_lifecycle_tasks_def clear_disconnect_task_def clear_timeout_task_def)
  from finish_job_apply_again [OF 1(2,3), of now' c' e' actor'] assms(5) 1 show ?thesis by (auto simp: items_push_finished)
qed

theorem concurrent_finish_published_twice_witness:
  "\<exists>rt1 rt2. finish_job_apply (rs_runtime sample_system) 2 ''j'' Cancelled (- 1) ''cancelled'' ''service:api'' = (rt1, Inr ()) \<and>
     finish_job_apply rt1 2 ''j'' Cancelled 130 ''cancelled'' ''device:d'' = (rt2, Inr ()) \<and>
     items_of (jt_output rt2) ''j'' = items_of (jt_output (rs_runtime sample_system)) ''j'' @
       [OFinished (- 1) ''cancelled'', OFinished 130 ''cancelled'']"
proof -
  obtain rt1 res1 where 1: "finish_job_apply (rs_runtime sample_system) 2 ''j'' Cancelled (- 1) ''cancelled'' ''service:api'' = (rt1, res1)" by fastforce
  obtain rt2 res2 where 2: "finish_job_apply rt1 2 ''j'' Cancelled 130 ''cancelled'' ''device:d'' = (rt2, res2)" by fastforce
  from sample_system_job obtain job where "map_of (jt_jobs (rs_runtime sample_system)) ''j'' = Some job" "job_status job = Sent" by auto
  with concurrent_finish_published_twice [OF this(1) _ _ 1 2] 1 2 show ?thesis
    by (simp add: finish_job_done_def get_job_def is_terminal_status_def)
qed

end
