(* ===== verification/Files_Core.thy ===== *)
theory Files_Core
  imports Prelude "HOL-Library.Product_Lexorder" "HOL-Library.List_Lexorder" "HOL-Library.Char_ord"
begin

text \<open>
  What the file operations of the daemon share: error codes and error values
  (\<^verbatim>\<open>FileErrorCode\<close>, \<^verbatim>\<open>FileError\<close> of \<^verbatim>\<open>file_ops.proto\<close>), the mapping from errors of the operating system
  (\<^verbatim>\<open>io_to_file_error\<close> in \<^verbatim>\<open>fs_ops.rs\<close>), file types and metadata.

  What the operating system answers to a call is an argument of the operation that makes the call.
\<close>

section \<open>Errors\<close>

datatype FileErrorCode =
    Unspecified | NotFound | PermissionDenied | AlreadyExists | NotADirectory | IsADirectory | NotEmpty | TooLarge
  | InvalidPath | Io | Encoding | MultipleMatches | PolicyDenied

record FileError =
  fe_code :: FileErrorCode
  fe_message :: string
  fe_path :: string

definition file_error :: "FileErrorCode \<Rightarrow> string \<Rightarrow> string \<Rightarrow> FileError" where
  "file_error code path message = \<lparr> fe_code = code, fe_message = message, fe_path = path \<rparr>"

datatype ErrorKind = KNotFound | KPermissionDenied | KAlreadyExists | KCrossesDevices | KInvalidInput | KOther

record IoError =
  io_kind :: ErrorKind
  io_raw_os_error :: "int option"
  io_text :: string

definition io_to_file_error :: "IoError \<Rightarrow> string \<Rightarrow> FileError" where
  "io_to_file_error err path =
     (let code =
        (case io_kind err of
           KNotFound \<Rightarrow> NotFound
         | KPermissionDenied \<Rightarrow> PermissionDenied
         | KAlreadyExists \<Rightarrow> AlreadyExists
         | _ \<Rightarrow>
             (case io_raw_os_error err of
                Some n \<Rightarrow> if n = 20 then NotADirectory else if n = 21 then IsADirectory else if n = 39 then NotEmpty else Io
              | None \<Rightarrow> Io))
      in \<lparr> fe_code = code, fe_message = io_text err, fe_path = path \<rparr>)"

section \<open>Metadata\<close>

datatype FileType = FtFile | FtDirectory | FtSymlink | FtOther

text \<open>
  Times are in milliseconds after the epoch if the platform reports them; a time before the epoch is negative.
\<close>

record Metadata =
  md_type :: FileType
  md_len :: u64
  md_modified :: "int option"
  md_created :: "int option"
  md_accessed :: "int option"
  md_mode :: u32

definition system_time_to_ms :: "int option \<Rightarrow> u64" where
  "system_time_to_ms time = (case time of Some t \<Rightarrow> if 0 \<le> t then word_of_int t else 0 | None \<Rightarrow> 0)"

end
