(* ===== verification/Fs_Ops.thy ===== *)
theory Fs_Ops
  imports Files_Core
begin

text \<open>
  The operations of the daemon that change a file system, \<^verbatim>\<open>ahandd/src/file_manager/fs_ops.rs\<close> on Unix:
  creating, deleting, copying, moving and linking files and setting their modes, with the recursive
  walks over directories; and the part of \<^verbatim>\<open>io_safe.rs\<close> they call.

  The file system is a parameter: a state of type \<open>'s\<close> and the calls of the standard library and of
  the system (\<open>FsOps\<close>). A path is the list of its components below the root. A walk recurses as deep
  as the directories are nested, which its fuel bounds; \<open>None\<close> is a walk that has not ended. Errors of
  joining a blocking task are not modelled.
\<close>

section \<open>Definitions\<close>

subsection \<open>Results\<close>

type_synonym path = "string list"

definition path_str :: "path \<Rightarrow> string" where
  "path_str p = (if p = [] then ''/'' else concat (map (\<lambda>c. CHR ''/'' # c) p))"

type_synonym ('s, 'e, 'a) fs_result = "'s \<times> ('e + 'a)"

text \<open>The \<^verbatim>\<open>?\<close> operator, also over walks that may not end, and \<^verbatim>\<open>map_err\<close>.\<close>

definition and_then :: "('s, 'e, 'a) fs_result \<Rightarrow> ('s \<Rightarrow> 'a \<Rightarrow> ('s, 'e, 'b) fs_result) \<Rightarrow> ('s, 'e, 'b) fs_result" where
  "and_then r k = (case r of (s, Inl e) \<Rightarrow> (s, Inl e) | (s, Inr x) \<Rightarrow> k s x)"

definition then_walk :: "('s, 'e, 'a) fs_result option \<Rightarrow> ('s \<Rightarrow> 'a \<Rightarrow> ('s, 'e, 'b) fs_result option) \<Rightarrow> ('s, 'e, 'b) fs_result option" where
  "then_walk r k = (case r of None \<Rightarrow> None | Some (s, Inl e) \<Rightarrow> Some (s, Inl e) | Some (s, Inr x) \<Rightarrow> k s x)"

definition map_err :: "('e \<Rightarrow> 'f) \<Rightarrow> ('s, 'e, 'a) fs_result \<Rightarrow> ('s, 'f, 'a) fs_result" where
  "map_err f r = (case r of (s, Inl e) \<Rightarrow> (s, Inl (f e)) | (s, Inr x) \<Rightarrow> (s, Inr x))"

subsection \<open>The file system\<close>

text \<open>An entry of a directory stream: its name and what asking for its type answers.\<close>

type_synonym dir_item = "IoError + string \<times> (IoError + FileType)"

text \<open>
  \<open>fs_read_at\<close> is one \<^verbatim>\<open>read\<close> of at most so many bytes at a position, \<open>fs_append\<close> opening a file for appending,
  creating it if it is missing, and writing to it.
\<close>

record 's FsOps =
  fs_metadata :: "'s \<Rightarrow> path \<Rightarrow> IoError + Metadata"
  fs_symlink_metadata :: "'s \<Rightarrow> path \<Rightarrow> IoError + Metadata"
  fs_try_exists :: "'s \<Rightarrow> path \<Rightarrow> IoError + bool"
  fs_read_dir :: "'s \<Rightarrow> path \<Rightarrow> IoError + dir_item list"
  fs_read_link :: "'s \<Rightarrow> path \<Rightarrow> IoError + string"
  fs_read :: "'s \<Rightarrow> path \<Rightarrow> IoError + bytes"
  fs_read_at :: "'s \<Rightarrow> path \<Rightarrow> nat \<Rightarrow> nat \<Rightarrow> IoError + bytes"
  fs_open_dir_no_symlinks :: "'s \<Rightarrow> path \<Rightarrow> IoError + unit"
  fs_openat_dir_nofollow :: "'s \<Rightarrow> path \<Rightarrow> IoError + unit"
  fs_openat_read_nofollow :: "'s \<Rightarrow> path \<Rightarrow> IoError + bytes"
  fs_mkdirat :: "'s \<Rightarrow> path \<Rightarrow> u32 \<Rightarrow> ('s, IoError, unit) fs_result"
  fs_create_dir_all :: "'s \<Rightarrow> path \<Rightarrow> ('s, IoError, unit) fs_result"
  fs_copy :: "'s \<Rightarrow> path \<Rightarrow> path \<Rightarrow> ('s, IoError, unit) fs_result"
  fs_write :: "'s \<Rightarrow> path \<Rightarrow> bytes \<Rightarrow> ('s, IoError, unit) fs_result"
  fs_append :: "'s \<Rightarrow> path \<Rightarrow> bytes \<Rightarrow> ('s, IoError, unit) fs_result"
  fs_openat_create_write :: "'s \<Rightarrow> path \<Rightarrow> bool \<Rightarrow> bool \<Rightarrow> ('s, IoError, unit) fs_result"
  fs_write_open :: "'s \<Rightarrow> path \<Rightarrow> bytes \<Rightarrow> ('s, IoError, unit) fs_result"
  fs_symlink :: "'s \<Rightarrow> string \<Rightarrow> path \<Rightarrow> ('s, IoError, unit) fs_result"
  fs_renameat :: "'s \<Rightarrow> path \<Rightarrow> path \<Rightarrow> ('s, IoError, unit) fs_result"
  fs_remove_file :: "'s \<Rightarrow> path \<Rightarrow> ('s, IoError, unit) fs_result"
  fs_remove_dir :: "'s \<Rightarrow> path \<Rightarrow> ('s, IoError, unit) fs_result"
  fs_remove_dir_all :: "'s \<Rightarrow> path \<Rightarrow> ('s, IoError, unit) fs_result"
  fs_trash :: "'s \<Rightarrow> path \<Rightarrow> ('s, string, unit) fs_result"
  fs_fchmodat :: "'s \<Rightarrow> path \<Rightarrow> u32 \<Rightarrow> ('s, IoError, unit) fs_result"
  fs_set_permissions :: "'s \<Rightarrow> path \<Rightarrow> u32 \<Rightarrow> ('s, IoError, unit) fs_result"

abbreviation io_err :: "path \<Rightarrow> IoError \<Rightarrow> FileError" where
  "io_err p e \<equiv> io_to_file_error e (path_str p)"

subsection \<open>\<^verbatim>\<open>io_safe\<close>\<close>

definition EM_DASH :: string where
  "EM_DASH = map char_of [226, 128, 148 :: nat]"

text \<open>The error numbers are those of Linux: 2 \<^verbatim>\<open>ENOENT\<close>, 17 \<^verbatim>\<open>EEXIST\<close>, 20 \<^verbatim>\<open>ENOTDIR\<close>, 40 \<^verbatim>\<open>ELOOP\<close>, 13 \<^verbatim>\<open>EACCES\<close>, 1 \<^verbatim>\<open>EPERM\<close>.\<close>

definition safe_err :: "path \<Rightarrow> IoError \<Rightarrow> FileError" where
  "safe_err p err =
     (if io_raw_os_error err \<in> {Some 40, Some 20} \<and> io_kind err \<noteq> KNotFound
      then \<lparr> fe_code = PolicyDenied, fe_message = io_text err, fe_path = path_str p \<rparr>
      else
        (let code =
           (case io_kind err of
              KNotFound \<Rightarrow> NotFound
            | KPermissionDenied \<Rightarrow> PermissionDenied
            | KAlreadyExists \<Rightarrow> AlreadyExists
            | _ \<Rightarrow>
                if io_raw_os_error err = Some 20 then NotADirectory
                else if io_raw_os_error err = Some 21 then IsADirectory
                else if io_raw_os_error err = Some 39 then NotEmpty
                else if io_raw_os_error err = Some 40 then PolicyDenied
                else Io)
         in \<lparr> fe_code = code, fe_message = io_text err, fe_path = path_str p \<rparr>))"

definition safe_open_err :: "path \<Rightarrow> IoError \<Rightarrow> FileError" where
  "safe_open_err p err =
     \<lparr> fe_code =
         (if io_raw_os_error err \<in> {Some 40, Some 20} then PolicyDenied
          else if io_raw_os_error err = Some 2 then NotFound
          else if io_raw_os_error err \<in> {Some 13, Some 1} then PermissionDenied
          else Io),
       fe_message = ''safe parent-dir open rejected: '' @ io_text err @ '' (likely TOCTOU race or stale canonicalization)'',
       fe_path = path_str p \<rparr>"

definition safe_open_parent_dirfd_for :: "'s FsOps \<Rightarrow> 's \<Rightarrow> path \<Rightarrow> ('s, FileError, unit) fs_result" where
  "safe_open_parent_dirfd_for ops s p =
     (if p = [] then (s, Inl (file_error InvalidPath (path_str p) (''path has no basename '' @ EM_DASH @ '' cannot use it for an *at syscall'')))
      else map_err (safe_open_err p) (s, fs_open_dir_no_symlinks ops s (butlast p)))"

fun mkdirp_from :: "'s FsOps \<Rightarrow> u32 \<Rightarrow> 's \<Rightarrow> path \<Rightarrow> path \<Rightarrow> ('s, IoError, unit) fs_result" where
  "mkdirp_from ops mode s done [] = (s, Inr ())"
| "mkdirp_from ops mode s done (name # names) =
     (case fs_openat_dir_nofollow ops s (done @ [name]) of
        Inr _ \<Rightarrow> mkdirp_from ops mode s (done @ [name]) names
      | Inl e \<Rightarrow>
          if io_raw_os_error e \<noteq> Some 2 then (s, Inl e)
          else (case fs_mkdirat ops s (done @ [name]) mode of
                  (s, r) \<Rightarrow>
                    (case r of
                       Inl err \<Rightarrow>
                         if io_raw_os_error err \<noteq> Some 17 then (s, Inl err)
                         else and_then (s, fs_openat_dir_nofollow ops s (done @ [name])) (\<lambda>s _. mkdirp_from ops mode s (done @ [name]) names)
                     | Inr _ \<Rightarrow>
                         and_then (s, fs_openat_dir_nofollow ops s (done @ [name])) (\<lambda>s _. mkdirp_from ops mode s (done @ [name]) names))))"

definition safe_mkdirp :: "'s FsOps \<Rightarrow> 's \<Rightarrow> path \<Rightarrow> u32 \<Rightarrow> ('s, IoError, unit) fs_result" where
  "safe_mkdirp ops s p mode = mkdirp_from ops mode s [] p"

definition reject_if_final_component_is_symlink :: "'s FsOps \<Rightarrow> 's \<Rightarrow> path \<Rightarrow> string \<Rightarrow> bool \<Rightarrow> ('s, FileError, unit) fs_result" where
  "reject_if_final_component_is_symlink ops s resolved req_path no_follow_symlink =
     (if no_follow_symlink \<and> (case fs_symlink_metadata ops s resolved of Inr metadata \<Rightarrow> md_type metadata = FtSymlink | Inl _ \<Rightarrow> False)
      then (s, Inl (file_error InvalidPath req_path ''no_follow_symlink is set but the final component is a symlink''))
      else (s, Inr ()))"

subsection \<open>Creating a directory\<close>

record FileMkdir =
  fm_path :: string
  fm_recursive :: bool
  fm_mode :: "u32 option"

definition exists_at :: "'s FsOps \<Rightarrow> 's \<Rightarrow> path \<Rightarrow> bool" where
  "exists_at ops s p = (case fs_try_exists ops s p of Inr b \<Rightarrow> b | Inl _ \<Rightarrow> False)"

text \<open>The result is the path and whether the directory was there already.\<close>

definition handle_mkdir :: "'s FsOps \<Rightarrow> 's \<Rightarrow> FileMkdir \<Rightarrow> path \<Rightarrow> ('s, FileError, string \<times> bool) fs_result" where
  "handle_mkdir ops s req resolved =
     (if exists_at ops s resolved
      then and_then (map_err (io_err resolved) (s, fs_symlink_metadata ops s resolved)) (\<lambda>s metadata.
             if md_type metadata \<noteq> FtDirectory
             then (s, Inl (file_error AlreadyExists (fm_path req) ''path exists and is not a directory''))
             else (s, Inr (path_str resolved, True)))
      else
        (let create_mode = (case fm_mode req of Some mode \<Rightarrow> mode | None \<Rightarrow> 493)
         in and_then
              (if fm_recursive req then map_err (safe_err resolved) (safe_mkdirp ops s resolved create_mode)
               else and_then (safe_open_parent_dirfd_for ops s resolved) (\<lambda>s _.
                      map_err (safe_err resolved) (fs_mkdirat ops s resolved create_mode)))
              (\<lambda>s _. and_then
                 (case fm_mode req of
                    None \<Rightarrow> (s, Inr ())
                  | Some mode \<Rightarrow>
                      and_then (safe_open_parent_dirfd_for ops s resolved) (\<lambda>s _.
                        map_err (safe_err resolved) (fs_fchmodat ops s resolved mode)))
                 (\<lambda>s _. (s, Inr (path_str resolved, False))))))"

subsection \<open>Deleting\<close>

datatype DeleteMode = Trash | Permanent

record FileDelete =
  fd_path :: string
  fd_recursive :: bool
  fd_mode :: DeleteMode
  fd_no_follow_symlink :: bool

record FileDeleteResult =
  dr_path :: string
  dr_mode :: DeleteMode
  dr_items_deleted :: u32
  dr_trash_path :: "string option"

text \<open>Entries whose type cannot be read are not counted, nor is a directory that cannot be read opened.\<close>

fun count_items :: "(path \<Rightarrow> u32 \<Rightarrow> u32 option) \<Rightarrow> path \<Rightarrow> dir_item list \<Rightarrow> u32 \<Rightarrow> u32 option" where
  "count_items walk p [] c = Some c"
| "count_items walk p (Inr (name, Inr ty) # items) c =
     (if ty = FtDirectory then Option.bind (walk (p @ [name]) c) (count_items walk p items)
      else count_items walk p items (c + 1))"
| "count_items walk p (_ # items) c = count_items walk p items c"

fun count_walk :: "'s FsOps \<Rightarrow> nat \<Rightarrow> 's \<Rightarrow> path \<Rightarrow> u32 \<Rightarrow> u32 option" where
  "count_walk ops 0 s p c = None"
| "count_walk ops (Suc fuel) s p c =
     (case fs_read_dir ops s p of
        Inl _ \<Rightarrow> Some (c + 1)
      | Inr items \<Rightarrow> count_items (count_walk ops fuel s) p items (c + 1))"

definition count_recursive :: "'s FsOps \<Rightarrow> nat \<Rightarrow> 's \<Rightarrow> path \<Rightarrow> u32 option" where
  "count_recursive ops fuel s p = count_walk ops fuel s p 0"

text \<open>The environment variables \<^verbatim>\<open>XDG_DATA_HOME\<close> and \<^verbatim>\<open>HOME\<close> are arguments.\<close>

definition push_path :: "string \<Rightarrow> string \<Rightarrow> string" where
  "push_path base c = (if base \<noteq> [] \<and> last base = CHR ''/'' then base @ c else base @ ''/'' @ c)"

definition guess_trash_path :: "string option \<Rightarrow> string option \<Rightarrow> path \<Rightarrow> string option" where
  "guess_trash_path xdg_data_home home original =
     (if original = [] then None
      else
        (let from_home = (case home of
               None \<Rightarrow> None
             | Some h \<Rightarrow> if h = [] then None else Some (push_path h ''.local/share/Trash''));
             trash_root = (case xdg_data_home of
               Some d \<Rightarrow> if d = [] then from_home else Some (push_path d ''Trash'')
             | None \<Rightarrow> from_home)
         in map_option (\<lambda>root. push_path (push_path root ''files'') (last original)) trash_root))"

definition delete_result :: "path \<Rightarrow> DeleteMode \<Rightarrow> u32 \<Rightarrow> string option \<Rightarrow> FileDeleteResult" where
  "delete_result p mode items trash_path =
     \<lparr> dr_path = path_str p, dr_mode = mode, dr_items_deleted = items, dr_trash_path = trash_path \<rparr>"

definition delete_trash ::
  "'s FsOps \<Rightarrow> nat \<Rightarrow> (path \<Rightarrow> string option) \<Rightarrow> 's \<Rightarrow> FileDelete \<Rightarrow> path \<Rightarrow> Metadata \<Rightarrow> ('s, FileError, FileDeleteResult) fs_result option" where
  "delete_trash ops fuel guess s req resolved metadata =
     Option.bind (if md_type metadata = FtDirectory then count_recursive ops fuel s resolved else Some 1) (\<lambda>count.
       if md_type metadata = FtDirectory \<and> \<not> fd_recursive req \<and> 1 < count
       then Some (s, Inl (file_error NotEmpty (fd_path req) ''directory not empty (use recursive=true)''))
       else Some (and_then
              (map_err (\<lambda>e. file_error Io (fd_path req) (''failed to move to trash: '' @ e)) (fs_trash ops s resolved))
              (\<lambda>s _. (s, Inr (delete_result resolved Trash count (guess resolved))))))"

definition delete_permanent ::
  "'s FsOps \<Rightarrow> nat \<Rightarrow> 's \<Rightarrow> FileDelete \<Rightarrow> path \<Rightarrow> Metadata \<Rightarrow> ('s, FileError, FileDeleteResult) fs_result option" where
  "delete_permanent ops fuel s req resolved metadata =
     (if md_type metadata \<noteq> FtDirectory
      then Some (and_then (map_err (io_err resolved) (fs_remove_file ops s resolved))
             (\<lambda>s _. (s, Inr (delete_result resolved Permanent 1 None))))
      else if \<not> fd_recursive req
      then Some (and_then (map_err (io_err resolved) (s, fs_read_dir ops s resolved)) (\<lambda>s items.
             case items of
               Inl e # _ \<Rightarrow> (s, Inl (io_err resolved e))
             | Inr _ # _ \<Rightarrow> (s, Inl (file_error NotEmpty (fd_path req) ''directory not empty (use recursive=true)''))
             | [] \<Rightarrow> and_then (map_err (io_err resolved) (fs_remove_dir ops s resolved))
                      (\<lambda>s _. (s, Inr (delete_result resolved Permanent 1 None)))))
      else Option.bind (count_recursive ops fuel s resolved) (\<lambda>count.
             Some (and_then (map_err (io_err resolved) (fs_remove_dir_all ops s resolved))
               (\<lambda>s _. (s, Inr (delete_result resolved Permanent count None))))))"

definition handle_delete ::
  "'s FsOps \<Rightarrow> nat \<Rightarrow> (path \<Rightarrow> string option) \<Rightarrow> 's \<Rightarrow> FileDelete \<Rightarrow> path \<Rightarrow> ('s, FileError, FileDeleteResult) fs_result option" where
  "handle_delete ops fuel guess s req resolved =
     then_walk (Some (map_err (io_err resolved)
         (s, if fd_no_follow_symlink req then fs_symlink_metadata ops s resolved else fs_metadata ops s resolved)))
       (\<lambda>s metadata.
          case fd_mode req of
            Trash \<Rightarrow> delete_trash ops fuel guess s req resolved metadata
          | Permanent \<Rightarrow> delete_permanent ops fuel s req resolved metadata)"

subsection \<open>Copying\<close>

record FileCopy =
  fc_source :: string
  fc_destination :: string
  fc_recursive :: bool
  fc_overwrite :: bool

definition copy_single_file :: "'s FsOps \<Rightarrow> 's \<Rightarrow> path \<Rightarrow> path \<Rightarrow> bool \<Rightarrow> ('s, FileError, unit) fs_result" where
  "copy_single_file ops s source dest overwrite =
     and_then (safe_open_parent_dirfd_for ops s source) (\<lambda>s _.
     and_then (map_err (safe_err source) (s, fs_openat_read_nofollow ops s source)) (\<lambda>s content.
     and_then (safe_open_parent_dirfd_for ops s dest) (\<lambda>s _.
     and_then (map_err (safe_err dest) (fs_openat_create_write ops s dest overwrite (\<not> overwrite))) (\<lambda>s _.
     map_err (io_err dest) (fs_write_open ops s dest content)))))"

fun copy_items ::
  "'s FsOps \<Rightarrow> ('s \<Rightarrow> path \<Rightarrow> path \<Rightarrow> u32 \<Rightarrow> ('s, FileError, u32) fs_result option) \<Rightarrow> 's \<Rightarrow> path \<Rightarrow> path \<Rightarrow> dir_item list \<Rightarrow> u32 \<Rightarrow>
   ('s, FileError, u32) fs_result option" where
  "copy_items ops rec s src dst [] count = Some (s, Inr count)"
| "copy_items ops rec s src dst (Inl e # items) count = Some (s, Inl (io_err src e))"
| "copy_items ops rec s src dst (Inr (name, Inl e) # items) count = Some (s, Inl (io_err src e))"
| "copy_items ops rec s src dst (Inr (name, Inr ty) # items) count =
     (let source = src @ [name]; dest = dst @ [name]
      in case ty of
           FtDirectory \<Rightarrow>
             then_walk (Some (map_err (io_err dest) (fs_create_dir_all ops s dest))) (\<lambda>s _.
             then_walk (rec s source dest (count + 1)) (\<lambda>s count.
             copy_items ops rec s src dst items count))
         | FtFile \<Rightarrow>
             then_walk (Some (map_err (io_err dest) (fs_copy ops s source dest))) (\<lambda>s _.
             copy_items ops rec s src dst items (count + 1))
         | FtSymlink \<Rightarrow>
             then_walk (Some (map_err (io_err source) (s, fs_read_link ops s source))) (\<lambda>s target.
             then_walk (Some (map_err (io_err dest) (fs_symlink ops s target dest))) (\<lambda>s _.
             copy_items ops rec s src dst items (count + 1)))
         | FtOther \<Rightarrow> copy_items ops rec s src dst items count)"

fun copy_dir_sync :: "'s FsOps \<Rightarrow> nat \<Rightarrow> 's \<Rightarrow> path \<Rightarrow> path \<Rightarrow> u32 \<Rightarrow> ('s, FileError, u32) fs_result option" where
  "copy_dir_sync ops 0 s src dst count = None"
| "copy_dir_sync ops (Suc fuel) s src dst count =
     then_walk (Some (map_err (io_err src) (s, fs_read_dir ops s src))) (\<lambda>s items.
     copy_items ops (copy_dir_sync ops fuel) s src dst items count)"

definition copy_dir_recursive :: "'s FsOps \<Rightarrow> nat \<Rightarrow> 's \<Rightarrow> path \<Rightarrow> path \<Rightarrow> ('s, FileError, u32) fs_result option" where
  "copy_dir_recursive ops fuel s src dst =
     then_walk (Some (map_err (safe_err dst) (safe_mkdirp ops s dst 493))) (\<lambda>s _.
     copy_dir_sync ops fuel s src dst 0)"

text \<open>The result holds both paths and the number of copied items.\<close>

definition handle_copy ::
  "'s FsOps \<Rightarrow> nat \<Rightarrow> 's \<Rightarrow> FileCopy \<Rightarrow> path \<Rightarrow> path \<Rightarrow> ('s, FileError, string \<times> string \<times> u32) fs_result option" where
  "handle_copy ops fuel s req source dest =
     then_walk (Some (map_err (io_err source) (s, fs_symlink_metadata ops s source))) (\<lambda>s metadata.
       if exists_at ops s dest \<and> \<not> fc_overwrite req
       then Some (s, Inl (file_error AlreadyExists (fc_destination req) ''destination exists (use overwrite=true)''))
       else then_walk
              (if md_type metadata = FtDirectory
               then if \<not> fc_recursive req
                    then Some (s, Inl (file_error IsADirectory (fc_source req) ''source is a directory (use recursive=true)''))
                    else copy_dir_recursive ops fuel s source dest
               else Some (and_then (copy_single_file ops s source dest (fc_overwrite req)) (\<lambda>s _. (s, Inr 1))))
              (\<lambda>s items. Some (s, Inr (path_str source, path_str dest, items))))"

subsection \<open>Moving\<close>

record FileMove =
  mv_source :: string
  mv_destination :: string
  mv_overwrite :: bool

datatype RenameOutcome = Done | CrossDevice

definition is_cross_device_error :: "IoError \<Rightarrow> bool" where
  "is_cross_device_error e \<longleftrightarrow> io_kind e = KCrossesDevices \<or> io_raw_os_error e = Some 18"

definition rename_safely :: "'s FsOps \<Rightarrow> 's \<Rightarrow> path \<Rightarrow> path \<Rightarrow> ('s, FileError, RenameOutcome) fs_result" where
  "rename_safely ops s source dest =
     and_then (safe_open_parent_dirfd_for ops s source) (\<lambda>s _.
     and_then (safe_open_parent_dirfd_for ops s dest) (\<lambda>s _.
       case fs_renameat ops s source dest of
         (s, Inr _) \<Rightarrow> (s, Inr Done)
       | (s, Inl e) \<Rightarrow> if is_cross_device_error e then (s, Inr CrossDevice) else (s, Inl (io_err source e))))"

definition cross_device_move_fallback ::
  "'s FsOps \<Rightarrow> nat \<Rightarrow> 's \<Rightarrow> FileMove \<Rightarrow> path \<Rightarrow> path \<Rightarrow> ('s, FileError, unit) fs_result option" where
  "cross_device_move_fallback ops fuel s req source dest =
     then_walk (handle_copy ops fuel s
         \<lparr> fc_source = mv_source req, fc_destination = mv_destination req, fc_recursive = True, fc_overwrite = mv_overwrite req \<rparr>
         source dest) (\<lambda>s _.
     then_walk (Some (map_err (io_err source) (s, fs_symlink_metadata ops s source))) (\<lambda>s metadata.
       Some (map_err (io_err source)
         (if md_type metadata = FtDirectory then fs_remove_dir_all ops s source else fs_remove_file ops s source))))"

definition handle_move ::
  "'s FsOps \<Rightarrow> nat \<Rightarrow> 's \<Rightarrow> FileMove \<Rightarrow> path \<Rightarrow> path \<Rightarrow> ('s, FileError, string \<times> string) fs_result option" where
  "handle_move ops fuel s req source dest =
     (if exists_at ops s dest \<and> \<not> mv_overwrite req
      then Some (s, Inl (file_error AlreadyExists (mv_destination req) ''destination exists (use overwrite=true)''))
      else then_walk (Some (rename_safely ops s source dest)) (\<lambda>s outcome.
             then_walk
               (case outcome of
                  Done \<Rightarrow> Some (s, Inr ())
                | CrossDevice \<Rightarrow> cross_device_move_fallback ops fuel s req source dest)
               (\<lambda>s _. Some (s, Inr (path_str source, path_str dest)))))"

subsection \<open>Links and modes\<close>

definition handle_create_symlink :: "'s FsOps \<Rightarrow> 's \<Rightarrow> string \<Rightarrow> path \<Rightarrow> ('s, FileError, string \<times> string) fs_result" where
  "handle_create_symlink ops s target link_resolved =
     and_then (safe_open_parent_dirfd_for ops s link_resolved) (\<lambda>s _.
     and_then (map_err (safe_err link_resolved) (fs_symlink ops s target link_resolved)) (\<lambda>s _.
     (s, Inr (path_str link_resolved, target))))"

fun chmod_items ::
  "'s FsOps \<Rightarrow> ('s \<Rightarrow> path \<Rightarrow> u32 \<Rightarrow> ('s, FileError, u32) fs_result option) \<Rightarrow> u32 \<Rightarrow> 's \<Rightarrow> path \<Rightarrow> dir_item list \<Rightarrow> u32 \<Rightarrow>
   ('s, FileError, u32) fs_result option" where
  "chmod_items ops rec mode s p [] count = Some (s, Inr count)"
| "chmod_items ops rec mode s p (Inl e # items) count = Some (s, Inl (io_err p e))"
| "chmod_items ops rec mode s p (Inr (name, Inl e) # items) count = Some (s, Inl (io_err p e))"
| "chmod_items ops rec mode s p (Inr (name, Inr ty) # items) count =
     (if ty = FtSymlink then chmod_items ops rec mode s p items count
      else
        (let child = p @ [name]
         in then_walk (Some (map_err (io_err child) (fs_set_permissions ops s child mode))) (\<lambda>s _.
            then_walk (if ty = FtDirectory then rec s child (count + 1) else Some (s, Inr (count + 1))) (\<lambda>s count.
            chmod_items ops rec mode s p items count))))"

fun set_unix_mode_recursive :: "'s FsOps \<Rightarrow> u32 \<Rightarrow> nat \<Rightarrow> 's \<Rightarrow> path \<Rightarrow> u32 \<Rightarrow> ('s, FileError, u32) fs_result option" where
  "set_unix_mode_recursive ops mode 0 s p count = None"
| "set_unix_mode_recursive ops mode (Suc fuel) s p count =
     then_walk (Some (map_err (io_err p) (s, fs_read_dir ops s p))) (\<lambda>s items.
     chmod_items ops (set_unix_mode_recursive ops mode fuel) mode s p items count)"

definition set_unix_mode :: "'s FsOps \<Rightarrow> nat \<Rightarrow> 's \<Rightarrow> path \<Rightarrow> u32 \<Rightarrow> bool \<Rightarrow> ('s, FileError, u32) fs_result option" where
  "set_unix_mode ops fuel s p mode recursive =
     then_walk (Some (safe_open_parent_dirfd_for ops s p)) (\<lambda>s _.
     then_walk (Some (map_err (safe_err p) (fs_fchmodat ops s p mode))) (\<lambda>s _.
       if recursive
       then then_walk (Some (map_err (io_err p) (s, fs_symlink_metadata ops s p))) (\<lambda>s metadata.
              if md_type metadata = FtDirectory then set_unix_mode_recursive ops mode fuel s p 1 else Some (s, Inr 1))
       else Some (s, Inr 1)))"

datatype Permission = Unix "string option" "string option" "u32 option" | Windows

record FileChmod =
  ch_path :: string
  ch_recursive :: bool
  ch_no_follow_symlink :: bool
  ch_permission :: "Permission option"

text \<open>The result is the path and the number of files whose mode was set.\<close>

definition handle_chmod :: "'s FsOps \<Rightarrow> nat \<Rightarrow> 's \<Rightarrow> FileChmod \<Rightarrow> path \<Rightarrow> ('s, FileError, string \<times> u32) fs_result option" where
  "handle_chmod ops fuel s req resolved =
     (case ch_permission req of
        None \<Rightarrow> Some (s, Inl (file_error Unspecified (ch_path req) ''no permission specified''))
      | Some permission \<Rightarrow>
          then_walk (Some (reject_if_final_component_is_symlink ops s resolved (ch_path req) (ch_no_follow_symlink req))) (\<lambda>s _.
            case permission of
              Unix owner grp mode \<Rightarrow>
                if owner \<noteq> None \<or> grp \<noteq> None
                then Some (s, Inl (file_error PermissionDenied (ch_path req) ''chown is not yet supported by this daemon''))
                else (case mode of
                        None \<Rightarrow> Some (s, Inl (file_error Unspecified (ch_path req) ''unix permission mode is required''))
                      | Some mode \<Rightarrow>
                          then_walk (set_unix_mode ops fuel s resolved mode (ch_recursive req)) (\<lambda>s items.
                            Some (s, Inr (path_str resolved, items))))
            | Windows \<Rightarrow> Some (s, Inl (file_error Unspecified (ch_path req) ''Windows ACLs are not supported on this platform''))))"

end
