(* ===== verification/Fs_Tree.thy ===== *)
theory Fs_Tree
  imports Fs_Ops "HOL-Library.AList" "HOL-Library.Sublist"
begin

text \<open>
  A file system for the operations of \<open>Fs_Ops\<close>: a tree of named nodes, as the calls of the standard
  library present it to a single caller on resolved paths. A path that leads through a symbolic link
  is not followed; a call that would have to is answered with an error. \<open>dev\<close> gives the device
  a directory is on. Modes are not kept.

  On it we show what copying a directory does, that copying one into itself does not end, and what a
  move across devices does.
\<close>

section \<open>Definitions\<close>

datatype node =
    FileNode bytes
  | DirNode "(string \<times> node) list"
  | LinkNode string
  | OtherNode

fun node_type :: "node \<Rightarrow> FileType" where
  "node_type (FileNode _) = FtFile"
| "node_type (DirNode _) = FtDirectory"
| "node_type (LinkNode _) = FtSymlink"
| "node_type OtherNode = FtOther"

fun node_len :: "node \<Rightarrow> u64" where
  "node_len (FileNode b) = word_of_nat (length b)"
| "node_len _ = 0"

definition node_metadata :: "node \<Rightarrow> Metadata" where
  "node_metadata n = \<lparr> md_type = node_type n, md_len = node_len n, md_modified = None, md_created = None,
     md_accessed = None, md_mode = 420 \<rparr>"

fun lookup :: "node \<Rightarrow> path \<Rightarrow> node option" where
  "lookup n [] = Some n"
| "lookup (DirNode es) (c # p) = Option.bind (map_of es c) (\<lambda>n. lookup n p)"
| "lookup _ (c # p) = None"

text \<open>\<open>put\<close> places a node, with directories above it where there is nothing.\<close>

fun put :: "node \<Rightarrow> path \<Rightarrow> node \<Rightarrow> node" where
  "put n [] m = m"
| "put (DirNode es) (c # p) m = DirNode (AList.update c (put (case map_of es c of Some n \<Rightarrow> n | None \<Rightarrow> DirNode []) p m) es)"
| "put n (c # p) m = n"

fun remove_at :: "node \<Rightarrow> path \<Rightarrow> node" where
  "remove_at (DirNode es) [c] = DirNode (AList.delete c es)"
| "remove_at (DirNode es) (c # p) =
     (case map_of es c of None \<Rightarrow> DirNode es | Some n \<Rightarrow> DirNode (AList.update c (remove_at n p) es))"
| "remove_at n p = n"

definition is_dir :: "node \<Rightarrow> path \<Rightarrow> bool" where
  "is_dir t p = (case lookup t p of Some (DirNode _) \<Rightarrow> True | _ \<Rightarrow> False)"

definition os_error :: "ErrorKind \<Rightarrow> int \<Rightarrow> IoError" where
  "os_error kind n = \<lparr> io_kind = kind, io_raw_os_error = Some n, io_text = ''os error '' @ show_nat (nat n) \<rparr>"

abbreviation ENOENT :: IoError where "ENOENT \<equiv> os_error KNotFound 2"
abbreviation EEXIST :: IoError where "EEXIST \<equiv> os_error KAlreadyExists 17"
abbreviation EXDEV :: IoError where "EXDEV \<equiv> os_error KCrossesDevices 18"
abbreviation ENOTDIR :: IoError where "ENOTDIR \<equiv> os_error KOther 20"
abbreviation EISDIR :: IoError where "EISDIR \<equiv> os_error KOther 21"
abbreviation ENOTEMPTY :: IoError where "ENOTEMPTY \<equiv> os_error KOther 39"
abbreviation ELOOP :: IoError where "ELOOP \<equiv> os_error KOther 40"

definition tree_stat :: "bool \<Rightarrow> node \<Rightarrow> path \<Rightarrow> IoError + Metadata" where
  "tree_stat follow t p =
     (case lookup t p of
        None \<Rightarrow> Inl ENOENT
      | Some n \<Rightarrow> if follow \<and> node_type n = FtSymlink then Inl ELOOP else Inr (node_metadata n))"

definition tree_open_dir :: "node \<Rightarrow> path \<Rightarrow> IoError + unit" where
  "tree_open_dir t p = (case lookup t p of None \<Rightarrow> Inl ENOENT | Some n \<Rightarrow> if node_type n = FtDirectory then Inr () else Inl ENOTDIR)"

definition tree_items :: "(string \<times> node) list \<Rightarrow> dir_item list" where
  "tree_items es = map (\<lambda>(c, n). Inr (c, Inr (node_type n))) es"

definition tree_read_dir :: "node \<Rightarrow> path \<Rightarrow> IoError + dir_item list" where
  "tree_read_dir t p =
     (case lookup t p of
        None \<Rightarrow> Inl ENOENT
      | Some (DirNode es) \<Rightarrow> Inr (tree_items es)
      | Some _ \<Rightarrow> Inl ENOTDIR)"

definition tree_read :: "node \<Rightarrow> path \<Rightarrow> IoError + bytes" where
  "tree_read t p =
     (case lookup t p of
        None \<Rightarrow> Inl ENOENT
      | Some (FileNode b) \<Rightarrow> Inr b
      | Some (DirNode _) \<Rightarrow> Inl EISDIR
      | Some _ \<Rightarrow> Inl ELOOP)"

definition tree_add :: "node \<Rightarrow> path \<Rightarrow> node \<Rightarrow> (node, IoError, unit) fs_result" where
  "tree_add t p n =
     (if lookup t p \<noteq> None then (t, Inl EEXIST)
      else if is_dir t (butlast p) then (put t p n, Inr ()) else (t, Inl ENOENT))"

definition tree_create_dir_all :: "node \<Rightarrow> path \<Rightarrow> (node, IoError, unit) fs_result" where
  "tree_create_dir_all t p =
     (if is_dir t p then (t, Inr ())
      else if \<forall>q \<in> set (prefixes p). lookup t q = None \<or> is_dir t q then (put t p (DirNode []), Inr ())
      else (t, Inl EEXIST))"

definition tree_write :: "node \<Rightarrow> path \<Rightarrow> bytes \<Rightarrow> (node, IoError, unit) fs_result" where
  "tree_write t p b =
     (case lookup t p of
        None \<Rightarrow> tree_add t p (FileNode b)
      | Some (FileNode _) \<Rightarrow> (put t p (FileNode b), Inr ())
      | Some (DirNode _) \<Rightarrow> (t, Inl EISDIR)
      | Some _ \<Rightarrow> (t, Inl ELOOP))"

definition tree_append :: "node \<Rightarrow> path \<Rightarrow> bytes \<Rightarrow> (node, IoError, unit) fs_result" where
  "tree_append t p b = (case lookup t p of Some (FileNode c) \<Rightarrow> (put t p (FileNode (c @ b)), Inr ()) | _ \<Rightarrow> tree_write t p b)"

definition tree_copy :: "node \<Rightarrow> path \<Rightarrow> path \<Rightarrow> (node, IoError, unit) fs_result" where
  "tree_copy t p q = (case lookup t p of Some (FileNode b) \<Rightarrow> tree_write t q b | None \<Rightarrow> (t, Inl ENOENT) | Some _ \<Rightarrow> (t, Inl ELOOP))"

definition tree_remove :: "(node \<Rightarrow> bool) \<Rightarrow> node \<Rightarrow> path \<Rightarrow> (node, IoError, unit) fs_result" where
  "tree_remove ok t p =
     (case lookup t p of
        None \<Rightarrow> (t, Inl ENOENT)
      | Some n \<Rightarrow> if ok n \<and> p \<noteq> [] then (remove_at t p, Inr ()) else (t, Inl ENOTEMPTY))"

definition tree_rename :: "(path \<Rightarrow> nat) \<Rightarrow> node \<Rightarrow> path \<Rightarrow> path \<Rightarrow> (node, IoError, unit) fs_result" where
  "tree_rename dev t p q =
     (case lookup t p of
        None \<Rightarrow> (t, Inl ENOENT)
      | Some n \<Rightarrow>
          if dev (butlast p) \<noteq> dev (butlast q) then (t, Inl EXDEV)
          else if lookup t q \<noteq> None \<or> prefix p q then (t, Inl EEXIST)
          else tree_add (remove_at t p) q n)"

definition tree_ops :: "(path \<Rightarrow> nat) \<Rightarrow> node FsOps" where
  "tree_ops dev =
     \<lparr> fs_metadata = tree_stat True, fs_symlink_metadata = tree_stat False,
       fs_try_exists = (\<lambda>t p. Inr (lookup t p \<noteq> None)), fs_read_dir = tree_read_dir,
       fs_read_link = (\<lambda>t p. case lookup t p of Some (LinkNode l) \<Rightarrow> Inr l | _ \<Rightarrow> Inl ENOENT),
       fs_read = tree_read, fs_read_at = (\<lambda>t p off k. map_sum id (\<lambda>b. take k (drop off b)) (tree_read t p)),
       fs_open_dir_no_symlinks = tree_open_dir, fs_openat_dir_nofollow = tree_open_dir,
       fs_openat_read_nofollow = tree_read,
       fs_mkdirat = (\<lambda>t p mode. tree_add t p (DirNode [])), fs_create_dir_all = tree_create_dir_all, fs_copy = tree_copy,
       fs_write = tree_write, fs_append = tree_append,
       fs_openat_create_write = (\<lambda>t p truncate exclusive. if exclusive then tree_add t p (FileNode []) else tree_write t p []),
       fs_write_open = tree_write, fs_symlink = (\<lambda>t l p. tree_add t p (LinkNode l)), fs_renameat = tree_rename dev,
       fs_remove_file = tree_remove (\<lambda>n. node_type n \<noteq> FtDirectory), fs_remove_dir = tree_remove (\<lambda>n. n = DirNode []),
       fs_remove_dir_all = tree_remove (\<lambda>n. node_type n = FtDirectory),
       fs_trash = (\<lambda>t p. map_err io_text (tree_remove (\<lambda>n. True) t p)),
       fs_fchmodat = (\<lambda>t p mode. (t, Inr ())), fs_set_permissions = (\<lambda>t p mode. (t, Inr ())) \<rparr>"

subsection \<open>Specification\<close>

text \<open>What a copy of a directory holds: everything but the nodes that are no files, directories or links.\<close>

fun copied :: "node \<Rightarrow> node" and copied_list :: "(string \<times> node) list \<Rightarrow> (string \<times> node) list" where
  "copied (DirNode es) = DirNode (copied_list es)"
| "copied n = n"
| "copied_list [] = []"
| "copied_list ((c, n) # es) = (if n = OtherNode then copied_list es else (c, copied n) # copied_list es)"

fun copied_count :: "node \<Rightarrow> nat" and copied_counts :: "(string \<times> node) list \<Rightarrow> nat" where
  "copied_count (DirNode es) = Suc (copied_counts es)"
| "copied_count OtherNode = 0"
| "copied_count _ = 1"
| "copied_counts [] = 0"
| "copied_counts ((c, n) # es) = copied_count n + copied_counts es"

fun wf_node :: "node \<Rightarrow> bool" and wf_list :: "(string \<times> node) list \<Rightarrow> bool" where
  "wf_node (DirNode es) \<longleftrightarrow> distinct (map fst es) \<and> wf_list es"
| "wf_node _ \<longleftrightarrow> True"
| "wf_list [] \<longleftrightarrow> True"
| "wf_list ((c, n) # es) \<longleftrightarrow> wf_node n \<and> wf_list es"

fun depth :: "node \<Rightarrow> nat" and depths :: "(string \<times> node) list \<Rightarrow> nat" where
  "depth (DirNode es) = Suc (depths es)"
| "depth _ = 0"
| "depths [] = 0"
| "depths ((c, n) # es) = max (depth n) (depths es)"

fun node_count :: "node \<Rightarrow> nat" and node_counts :: "(string \<times> node) list \<Rightarrow> nat" where
  "node_count (DirNode es) = Suc (node_counts es)"
| "node_count _ = 1"
| "node_counts [] = 0"
| "node_counts ((c, n) # es) = node_count n + node_counts es"

section \<open>Lookup and placement\<close>

lemma tree_sel:
  "fs_metadata (tree_ops dev) = tree_stat True" "fs_symlink_metadata (tree_ops dev) = tree_stat False"
  "fs_try_exists (tree_ops dev) = (\<lambda>t p. Inr (lookup t p \<noteq> None))" "fs_read_dir (tree_ops dev) = tree_read_dir"
  "fs_read_link (tree_ops dev) = (\<lambda>t p. case lookup t p of Some (LinkNode l) \<Rightarrow> Inr l | _ \<Rightarrow> Inl ENOENT)"
  "fs_read (tree_ops dev) = tree_read" "fs_read_at (tree_ops dev) = (\<lambda>t p off k. map_sum id (\<lambda>b. take k (drop off b)) (tree_read t p))"
  "fs_write (tree_ops dev) = tree_write" "fs_append (tree_ops dev) = tree_append"
  "fs_open_dir_no_symlinks (tree_ops dev) = tree_open_dir" "fs_openat_dir_nofollow (tree_ops dev) = tree_open_dir"
  "fs_mkdirat (tree_ops dev) = (\<lambda>t p mode. tree_add t p (DirNode []))" "fs_create_dir_all (tree_ops dev) = tree_create_dir_all"
  "fs_copy (tree_ops dev) = tree_copy" "fs_symlink (tree_ops dev) = (\<lambda>t l p. tree_add t p (LinkNode l))"
  "fs_renameat (tree_ops dev) = tree_rename dev" "fs_remove_file (tree_ops dev) = tree_remove (\<lambda>n. node_type n \<noteq> FtDirectory)"
  "fs_remove_dir (tree_ops dev) = tree_remove (\<lambda>n. n = DirNode [])"
  "fs_remove_dir_all (tree_ops dev) = tree_remove (\<lambda>n. node_type n = FtDirectory)"
  "fs_trash (tree_ops dev) = (\<lambda>t p. map_err io_text (tree_remove (\<lambda>n. True) t p))"
  by (simp_all add: tree_ops_def)

lemma lookup_append: "lookup t (p @ q) = Option.bind (lookup t p) (\<lambda>n. lookup n q)"
  by (induction t p rule: lookup.induct) (auto split: Option.bind_split)

lemma is_dir_iff: "is_dir t p \<longleftrightarrow> (\<exists>es. lookup t p = Some (DirNode es))"
  by (auto simp: is_dir_def split: option.splits node.splits)

lemma lookup_put_below: "is_dir t p \<Longrightarrow> lookup (put t (p @ [c]) m) (p @ c # q) = lookup m q"
proof (induction t p rule: lookup.induct)
  case (1 n)
  then show ?case by (cases n) (simp_all add: is_dir_def AList.update_conv')
next
  case (2 es d p)
  then obtain n where "map_of es d = Some n" "is_dir n p"
    by (auto simp: is_dir_iff split: Option.bind_splits)
  with 2 show ?case by (simp add: AList.update_conv')
qed (simp_all add: is_dir_def)

lemma lookup_put_frame: "\<not> prefix p q \<Longrightarrow> \<not> prefix q p \<Longrightarrow> lookup (put t p m) q = lookup t q"
proof (induction t p m arbitrary: q rule: put.induct)
  case (2 es c p m)
  then obtain d q' where q: "q = d # q'" by (cases q) auto
  show ?case
  proof (cases "c = d")
    case True
    with 2(2,3) q have par: "\<not> prefix p q'" "\<not> prefix q' p" by auto
    then have "lookup (DirNode []) q' = None" by (cases q') auto
    with 2(1) [OF par] True q show ?thesis by (auto simp: AList.update_conv' split: option.splits)
  qed (simp add: q AList.update_conv')
qed simp_all

lemma update_fresh: "k \<notin> fst ` set al \<Longrightarrow> AList.update k v al = al @ [(k, v)]"
  by (induction al) auto

lemma put_put_below: "is_dir t p \<Longrightarrow> put (put t (p @ [c]) n) (p @ c # q) m = put t (p @ [c]) (put n q m)"
proof (induction t p rule: lookup.induct)
  case (1 n)
  then show ?case by (cases n) (simp_all add: is_dir_def AList.update_conv')
next
  case (2 es d p)
  then obtain n where "map_of es d = Some n" "is_dir n p"
    by (auto simp: is_dir_iff split: Option.bind_splits)
  with 2 show ?case by (simp add: AList.update_conv')
qed (simp_all add: is_dir_def)

lemma lookup_prefixes: "lookup t (p @ q) \<noteq> None \<Longrightarrow> q \<noteq> [] \<Longrightarrow> is_dir t p"
proof -
  assume "lookup t (p @ q) \<noteq> None" "q \<noteq> []"
  then obtain n where "lookup t p = Some n" "lookup n q \<noteq> None" by (auto simp: lookup_append split: Option.bind_splits)
  with \<open>q \<noteq> []\<close> show ?thesis by (cases q; cases n) (auto simp: is_dir_iff)
qed

text \<open>The tree with a directory of given contents at \<open>pd/dn\<close>.\<close>

abbreviation with_dir :: "node \<Rightarrow> path \<Rightarrow> string \<Rightarrow> (string \<times> node) list \<Rightarrow> node" where
  "with_dir t pd dn ds \<equiv> put t (pd @ [dn]) (DirNode ds)"

lemma with_dir_lookup:
  assumes "is_dir t pd"
  shows "lookup (with_dir t pd dn ds) (pd @ [dn]) = Some (DirNode ds)"
    and "lookup (with_dir t pd dn ds) (pd @ [dn, c]) = map_of ds c"
    and "is_dir (with_dir t pd dn ds) (pd @ [dn])"
  using lookup_put_below [OF assms, of dn "DirNode ds" "[]"] lookup_put_below [OF assms, of dn "DirNode ds" "[c]"]
  by (simp_all add: is_dir_iff)

lemma with_dir_put:
  assumes "is_dir t pd"
  shows "put (with_dir t pd dn ds) (pd @ [dn, c]) m = with_dir t pd dn (AList.update c m ds)"
  using put_put_below [OF assms, of dn "DirNode ds" "[c]" m] by simp

lemma with_dir_other:
  assumes "\<not> prefix (pd @ [dn]) q" "\<not> prefix q (pd @ [dn])" "lookup t q = Some n"
  shows "lookup (with_dir t pd dn ds) q = Some n"
  using lookup_put_frame [OF assms(1,2), of t "DirNode ds"] assms(3) by simp

lemma not_prefix_below: "\<not> prefix p q \<Longrightarrow> \<not> prefix q p \<Longrightarrow> \<not> prefix (p @ [c]) (q @ x) \<and> \<not> prefix (q @ x) (p @ [c])"
  using parallel_append [of p q "[c]" x] by (auto simp: parallel_def)

section \<open>Copying a directory\<close>

lemmas tree_op_defs = tree_sel tree_create_dir_all_def tree_copy_def tree_write_def tree_add_def then_walk_def map_err_def

lemma copy_items_tree:
  assumes pd: "is_dir t pd" and par: "\<not> prefix src (pd @ [dn])" "\<not> prefix (pd @ [dn]) src"
    and es: "\<forall>(c, n) \<in> set es. lookup t (src @ [c]) = Some n"
    and rec: "\<And>c sub ds k. (c, DirNode sub) \<in> set es \<Longrightarrow> c \<notin> fst ` set ds \<Longrightarrow>
      rec (with_dir t pd dn (ds @ [(c, DirNode [])])) (src @ [c]) (pd @ [dn, c]) k =
      Some (with_dir t pd dn (ds @ [(c, DirNode (copied_list sub))]), Inr (k + word_of_nat (copied_counts sub)))"
    and names: "distinct (map fst es)" "fst ` set es \<inter> fst ` set ds = {}"
  shows "copy_items (tree_ops dev) rec (with_dir t pd dn ds) src (pd @ [dn]) (tree_items es) k =
    Some (with_dir t pd dn (ds @ copied_list es), Inr (k + word_of_nat (copied_counts es)))"
  using es rec names
proof (induction es arbitrary: ds k)
  case (Cons e es)
  obtain c n where e: "e = (c, n)" by (cases e)
  let ?T = "\<lambda>ds. with_dir t pd dn ds"
  have c: "c \<notin> fst ` set ds" using Cons.prems(4) e by auto
  have src: "lookup (?T ds) (src @ [c]) = Some n" for ds
    using with_dir_other [of pd dn "src @ [c]" t n ds] Cons.prems(1) e not_prefix_below [OF par, of c "[]"] by simp
  have new: "put (?T ds) (pd @ [dn, c]) m = ?T (ds @ [(c, m)])" for m
    using with_dir_put [OF pd] update_fresh [OF c] by simp
  have none: "lookup (?T ds) (pd @ [dn, c]) = None"
    using with_dir_lookup(2) [OF pd, of dn ds c] c by (simp add: map_of_eq_None_iff)
  have parent: "is_dir (?T ds) (butlast (pd @ [dn, c]))"
    using with_dir_lookup(3) [OF pd, of dn ds] by (simp add: butlast_append)
  have fresh: "fst ` set es \<inter> fst ` set (ds @ [(c, m)]) = {}" for m using Cons.prems(3,4) e by auto
  have es': "\<forall>(c, n) \<in> set es. lookup t (src @ [c]) = Some n" and dist: "distinct (map fst es)"
    using Cons.prems(1,3) e by auto
  have rec': "rec (?T (ds @ [(d, DirNode [])])) (src @ [d]) (pd @ [dn, d]) k =
      Some (?T (ds @ [(d, DirNode (copied_list sub))]), Inr (k + word_of_nat (copied_counts sub)))"
    if "(d, DirNode sub) \<in> set es" "d \<notin> fst ` set ds" for d sub ds k
    using Cons.prems(2) [of d sub ds k] that by simp
  note IH = Cons.IH [OF es' rec' dist]
  show ?case
  proof (cases n)
    case (FileNode b)
    have "fs_copy (tree_ops dev) (?T ds) (src @ [c]) (pd @ [dn, c]) = (?T (ds @ [(c, n)]), Inr ())"
      by (simp add: tree_op_defs src FileNode none parent new)
    with IH [OF _ _ fresh, of n "k + 1"] show ?thesis
      by (simp add: e FileNode tree_items_def then_walk_def map_err_def add.assoc)
  next
    case (DirNode sub)
    have "lookup (?T ds) q = None \<or> is_dir (?T ds) q" if "prefix q ((pd @ [dn]) @ [c])" for q
    proof -
      from that consider "q = pd @ [dn, c]" | "prefix q (pd @ [dn])" by (simp only: prefix_snoc) auto
      then show ?thesis
      proof cases
        case 2
        then obtain r where "pd @ [dn] = q @ r" by (auto simp only: prefix_def)
        then show ?thesis using lookup_prefixes [of "?T ds" q r] with_dir_lookup(1,3) [OF pd, of dn ds] by (cases "r = []") auto
      qed (simp add: none)
    qed
    moreover have "\<not> is_dir (?T ds) (pd @ [dn, c])" by (simp add: is_dir_iff none)
    ultimately have "fs_create_dir_all (tree_ops dev) (?T ds) (pd @ [dn, c]) = (?T (ds @ [(c, DirNode [])]), Inr ())"
      by (simp add: tree_sel tree_create_dir_all_def new)
    moreover have "rec (?T (ds @ [(c, DirNode [])])) (src @ [c]) (pd @ [dn, c]) (k + 1) =
        Some (?T (ds @ [(c, DirNode (copied_list sub))]), Inr (k + 1 + word_of_nat (copied_counts sub)))"
      using Cons.prems(2) [of c sub ds "k + 1"] c DirNode e by simp
    ultimately show ?thesis
      using IH [OF _ _ fresh, of "DirNode (copied_list sub)" "k + 1 + word_of_nat (copied_counts sub)"]
      by (simp add: e DirNode tree_items_def then_walk_def map_err_def add.assoc)
  next
    case (LinkNode l)
    have "fs_symlink (tree_ops dev) (?T ds) l (pd @ [dn, c]) = (?T (ds @ [(c, n)]), Inr ())"
      by (simp add: tree_op_defs none parent new LinkNode)
    moreover have "fs_read_link (tree_ops dev) (?T ds) (src @ [c]) = Inr l" by (simp add: tree_sel src LinkNode)
    ultimately show ?thesis using IH [OF _ _ fresh, of n "k + 1"]
      by (simp add: e LinkNode tree_items_def then_walk_def map_err_def add.assoc)
  next
    case OtherNode
    have "fst ` set es \<inter> fst ` set ds = {}" using Cons.prems(4) e by auto
    from IH [OF _ _ this, of k] show ?thesis by (simp add: e OtherNode tree_items_def)
  qed
qed (simp add: tree_items_def)

lemma wf_list_iff: "wf_list es \<longleftrightarrow> (\<forall>e \<in> set es. wf_node (snd e))"
  by (induction es) auto

lemma wf_lookup: "wf_node t \<Longrightarrow> lookup t p = Some n \<Longrightarrow> wf_node n"
  by (induction t p rule: lookup.induct) (auto simp: wf_list_iff split: Option.bind_splits dest!: map_of_SomeD)

lemma depths_ge: "(c, n) \<in> set es \<Longrightarrow> depth n \<le> depths es"
  by (induction es) auto

lemma copy_dir_sync_tree:
  assumes "is_dir t pd" and "\<not> prefix src (pd @ [dn])" "\<not> prefix (pd @ [dn]) src"
    and "lookup t src = Some (DirNode es)" and "wf_node (DirNode es)" and "depths es < fuel"
  shows "copy_dir_sync (tree_ops dev) fuel (with_dir t pd dn []) src (pd @ [dn]) k =
    Some (with_dir t pd dn (copied_list es), Inr (k + word_of_nat (copied_counts es)))"
  using assms
proof (induction fuel arbitrary: t pd dn src es k)
  case (Suc fuel)
  let ?T = "\<lambda>ds. with_dir t pd dn ds" and ?rec = "copy_dir_sync (tree_ops dev) fuel"
  have dist: "distinct (map fst es)" using Suc.prems(5) by simp
  have child: "lookup t (src @ [c]) = Some n" if "(c, n) \<in> set es" for c n
    using Suc.prems(4) dist that by (simp add: lookup_append)
  have rec: "?rec (?T (ds @ [(c, DirNode [])])) (src @ [c]) (pd @ [dn, c]) k =
      Some (?T (ds @ [(c, DirNode (copied_list sub))]), Inr (k + word_of_nat (copied_counts sub)))"
    if sub: "(c, DirNode sub) \<in> set es" and c: "c \<notin> fst ` set ds" for c sub ds k
  proof -
    have par: "\<not> prefix (src @ [c]) ((pd @ [dn]) @ [c])" "\<not> prefix ((pd @ [dn]) @ [c]) (src @ [c])"
      and par': "\<not> prefix (pd @ [dn]) (src @ [c])" "\<not> prefix (src @ [c]) (pd @ [dn])"
      using not_prefix_below [OF Suc.prems(2,3), of c "[c]"] not_prefix_below [OF Suc.prems(2,3), of c "[]"] by simp_all
    have "lookup (?T ds) (src @ [c]) = Some (DirNode sub)" using with_dir_other [OF par'] child [OF sub] by simp
    moreover have "wf_node (DirNode sub)" using Suc.prems(5) sub by (force simp: wf_list_iff)
    moreover have "depths sub < fuel" using depths_ge [OF sub] Suc.prems(6) by simp
    moreover have "put (?T ds) ((pd @ [dn]) @ [c]) m = ?T (ds @ [(c, m)])" for m
      using with_dir_put [OF Suc.prems(1)] update_fresh [OF c] by simp
    ultimately show ?thesis
      using Suc.IH [OF with_dir_lookup(3) [OF Suc.prems(1)] par, of ds sub k] by simp
  qed
  have "fs_read_dir (tree_ops dev) (?T []) src = Inr (tree_items es)"
    using with_dir_other [OF Suc.prems(3,2,4)] by (simp add: tree_sel tree_read_dir_def)
  moreover have "copy_items (tree_ops dev) ?rec (?T []) src (pd @ [dn]) (tree_items es) k =
      Some (?T ([] @ copied_list es), Inr (k + word_of_nat (copied_counts es)))"
    using child by (intro copy_items_tree [OF Suc.prems(1,2,3) _ rec dist]) auto
  ultimately show ?case by (simp add: then_walk_def map_err_def)
qed simp

lemma mkdirp_walk:
  "is_dir t (done @ names) \<Longrightarrow> mkdirp_from (tree_ops dev) mode t done (names @ rest) = mkdirp_from (tree_ops dev) mode t (done @ names) rest"
proof (induction names arbitrary: "done")
  case (Cons c names)
  then have "is_dir t (done @ [c])" using lookup_prefixes [of t "done @ [c]" names] by (cases "names = []") (auto simp: is_dir_iff)
  then have "fs_openat_dir_nofollow (tree_ops dev) t (done @ [c]) = Inr ()"
    by (auto simp: tree_sel tree_open_dir_def is_dir_iff)
  with Cons show ?case by simp
qed simp

lemma safe_mkdirp_tree:
  assumes "is_dir t pd" and "lookup t (pd @ [dn]) = None"
  shows "safe_mkdirp (tree_ops dev) t (pd @ [dn]) mode = (with_dir t pd dn [], Inr ())"
proof -
  have "safe_mkdirp (tree_ops dev) t (pd @ [dn]) mode = mkdirp_from (tree_ops dev) mode t pd [dn]"
    using mkdirp_walk [of t "[]" pd dev mode "[dn]"] assms(1) by (simp add: safe_mkdirp_def)
  also have "\<dots> = (with_dir t pd dn [], Inr ())"
    using assms with_dir_lookup(1) [OF assms(1), of dn "[]"]
    by (simp add: tree_sel tree_open_dir_def tree_add_def os_error_def and_then_def)
  finally show ?thesis .
qed

lemma lookup_put_created:
  "(\<And>q. prefix q p \<Longrightarrow> lookup t q = None \<or> is_dir t q) \<Longrightarrow> lookup (put t p m) p = Some m"
proof (induction p arbitrary: t)
  case (Cons c p)
  from Cons.prems [of "[]"] obtain es where t: "t = DirNode es" by (auto simp: is_dir_iff)
  let ?n = "case map_of es c of Some n \<Rightarrow> n | None \<Rightarrow> DirNode []"
  have "lookup ?n q = None \<or> is_dir ?n q" if "prefix q p" for q
  proof (cases "map_of es c")
    case None
    then show ?thesis by (cases q) (simp_all add: is_dir_iff)
  next
    case (Some n)
    with Cons.prems [of "c # q"] that show ?thesis by (simp add: t is_dir_iff)
  qed
  from Cons.IH [OF this] show ?case by (simp add: t AList.update_conv')
qed simp

lemma create_dir_all_makes_dir: "fs_create_dir_all (tree_ops dev) t p = (t', Inr ()) \<Longrightarrow> is_dir t' p"
  using lookup_put_created [of p t "DirNode []"]
  by (auto simp: tree_sel tree_create_dir_all_def is_dir_iff split: if_splits)

lemma then_walk_ok: "then_walk r k = Some (t', Inr x) \<longleftrightarrow> (\<exists>t y. r = Some (t, Inr y) \<and> k t y = Some (t', Inr x))"
  by (auto simp: then_walk_def split: option.splits sum.splits)

lemma map_err_ok: "map_err f r = (t, Inr x) \<longleftrightarrow> r = (t, Inr x)"
  by (auto simp: map_err_def split: prod.splits sum.splits)

lemma copy_items_inside:
  assumes "Inr (d, Inr FtDirectory) \<in> set items"
    and rec: "\<And>t k t' k'. is_dir t (dst @ [d]) \<Longrightarrow> rec t (src @ [d]) (dst @ [d]) k \<noteq> Some (t', Inr k')"
  shows "copy_items (tree_ops dev) rec t src dst items k \<noteq> Some (t', Inr k')"
  using assms(1)
proof (induction items arbitrary: t k)
  case (Cons item items)
  show ?case
  proof (cases "item = Inr (d, Inr FtDirectory)")
    case True
    then show ?thesis using rec create_dir_all_makes_dir [of dev t "dst @ [d]"] by (auto simp: then_walk_ok map_err_ok Let_def)
  next
    case False
    with Cons.prems have "Inr (d, Inr FtDirectory) \<in> set items" by simp
    note IH = Cons.IH [OF this]
    show ?thesis
    proof (cases item)
      case (Inr x)
      obtain name r where x: "x = (name, r)" by (cases x)
      show ?thesis
      proof (cases r)
        case (Inr ty)
        then show ?thesis using \<open>item = Inr x\<close> x IH by (cases ty) (auto simp: then_walk_ok map_err_ok Let_def)
      qed (simp add: \<open>item = Inr x\<close> x)
    qed simp
  qed
qed simp

lemma copy_dir_sync_inside:
  "is_dir t (src @ d # ds) \<Longrightarrow> copy_dir_sync (tree_ops dev) fuel t src (src @ d # ds) k \<noteq> Some (t', Inr k')"
proof (induction fuel arbitrary: t src d ds k t' k')
  case (Suc fuel)
  have "is_dir t (src @ [d])" using Suc.prems lookup_prefixes [of t "src @ [d]" ds] by (cases "ds = []") (auto simp: is_dir_iff)
  moreover from this have "is_dir t src" using lookup_prefixes [of t src "[d]"] by (auto simp: is_dir_iff)
  ultimately obtain es sub where es: "lookup t src = Some (DirNode es)" "map_of es d = Some (DirNode sub)"
    by (auto simp: is_dir_iff lookup_append split: Option.bind_splits)
  from es(2) have "(d, DirNode sub) \<in> set es" by (rule map_of_SomeD)
  then have item: "Inr (d, Inr FtDirectory) \<in> set (tree_items es)" by (force simp: tree_items_def)
  have "copy_dir_sync (tree_ops dev) fuel t (src @ [d]) ((src @ d # ds) @ [d]) k \<noteq> Some (t', Inr k')"
    if "is_dir t ((src @ d # ds) @ [d])" for t k t' k'
  proof -
    obtain e es where "ds @ [d] = e # es" by (cases "ds @ [d]") simp
    then have "(src @ d # ds) @ [d] = (src @ [d]) @ e # es" by simp
    with Suc.IH [of t "src @ [d]" e es] that show ?thesis by simp
  qed
  from copy_items_inside [of d _ "src @ d # ds" "copy_dir_sync (tree_ops dev) fuel" src, OF item this] es(1) show ?case
    by (auto simp: then_walk_ok map_err_ok tree_sel tree_read_dir_def)
qed simp

section \<open>Counting and removing\<close>

lemma count_walk_tree:
  "lookup t p = Some (DirNode es) \<Longrightarrow> wf_node (DirNode es) \<Longrightarrow> depths es < fuel \<Longrightarrow>
     count_walk (tree_ops dev) fuel t p k = Some (k + word_of_nat (node_count (DirNode es)))"
proof (induction fuel arbitrary: p es k)
  case (Suc fuel)
  have items: "count_items (count_walk (tree_ops dev) fuel t) p (tree_items xs) k = Some (k + word_of_nat (node_counts xs))"
    if "set xs \<subseteq> set es" for xs k
    using that
  proof (induction xs arbitrary: k)
    case (Cons x xs)
    obtain c n where x: "x = (c, n)" by (cases x)
    have sub: "wf_node n" "depth n \<le> depths es" "lookup t (p @ [c]) = Some n"
      using Suc.prems Cons.prems x depths_ge [of c n es] by (auto simp: wf_list_iff lookup_append)
    show ?case
    proof (cases "node_type n = FtDirectory")
      case True
      then obtain ys where n: "n = DirNode ys" by (cases n) auto
      with sub Suc.prems(3) have "depths ys < fuel" by simp
      from Suc.IH [OF sub(3) [unfolded n] sub(1) [unfolded n] this] Cons x n show ?thesis
        by (simp add: tree_items_def add.assoc)
    next
      case False
      with Cons x show ?thesis by (cases n) (simp_all add: tree_items_def add.assoc)
    qed
  qed (simp add: tree_items_def)
  from Suc.prems(1) items [of es "k + 1"] show ?case by (simp add: tree_sel tree_read_dir_def add.assoc)
qed simp

lemma lookup_remove_at: "lookup t p = Some n \<Longrightarrow> p \<noteq> [] \<Longrightarrow> lookup (remove_at t p) p = None"
  by (induction t p rule: remove_at.induct) (auto simp: AList.delete_conv' AList.update_conv' split: option.splits elim: lookup.elims)

lemma missing_not_prefix: "lookup t p = None \<Longrightarrow> lookup t q = Some n \<Longrightarrow> \<not> prefix p q"
  by (auto simp: prefix_def lookup_append)

lemma unat_of_nat_u32: "n < 2 ^ 32 \<Longrightarrow> unat (word_of_nat n :: u32) = n"
  by (simp add: unat_of_nat)

lemma lookup_remove_parallel: "\<not> prefix p q \<Longrightarrow> \<not> prefix q p \<Longrightarrow> lookup (remove_at t p) q = lookup t q"
proof (induction t p arbitrary: q rule: remove_at.induct)
  case (1 es c)
  then obtain d q' where "q = d # q'" by (cases q) auto
  with 1 show ?case by (auto simp: AList.delete_conv')
next
  case (2 es c d p)
  then obtain e q' where q: "q = e # q'" by (cases q) auto
  show ?case
  proof (cases "c = e")
    case True
    with 2(2,3) q have "\<not> prefix (d # p) q'" "\<not> prefix q' (d # p)" by auto
    with 2(1) True q show ?thesis by (auto simp: AList.update_conv' split: option.splits)
  qed (simp add: q AList.update_conv' split: option.splits)
qed simp_all

lemma copied_list_names: "map_of (copied_list es) c = Some n \<Longrightarrow> \<exists>m. (c, m) \<in> set es \<and> m \<noteq> OtherNode"
  by (induction es) (auto split: if_splits)

lemma copied_list_other: "distinct (map fst es) \<Longrightarrow> (c, OtherNode) \<in> set es \<Longrightarrow> map_of (copied_list es) c = None"
  using copied_list_names [of es c] eq_key_imp_eq_value [of es c OtherNode] by (cases "map_of (copied_list es) c") auto

lemma node_counts_0: "node_counts es = 0 \<longleftrightarrow> es = []"
proof (cases es)
  case (Cons e es)
  then show ?thesis by (cases e; cases "snd e") auto
qed simp

lemma handle_copy_tree:
  assumes "wf_node t" and "lookup t src = Some (DirNode es)" and "is_dir t pd" and "lookup t (pd @ [dn]) = None"
    and "\<not> prefix src (pd @ [dn])" and "depths es < fuel" and "fc_recursive req"
  shows "handle_copy (tree_ops dev) fuel t req src (pd @ [dn]) =
    Some (with_dir t pd dn (copied_list es), Inr (path_str src, path_str (pd @ [dn]), word_of_nat (copied_counts es)))"
proof -
  from copy_dir_sync_tree [OF assms(3,5) missing_not_prefix [OF assms(4,2)] assms(2) wf_lookup [OF assms(1,2)] assms(6), of dev 0]
  have "copy_dir_recursive (tree_ops dev) fuel t src (pd @ [dn]) =
      Some (with_dir t pd dn (copied_list es), Inr (word_of_nat (copied_counts es)))"
    by (simp add: copy_dir_recursive_def safe_mkdirp_tree [OF assms(3,4)] then_walk_def map_err_def)
  then show ?thesis
    using assms(2,4,7)
    by (simp add: handle_copy_def exists_at_def then_walk_def map_err_def tree_sel tree_stat_def node_metadata_def)
qed

section \<open>Properties\<close>

text \<open>
  C25. Copying a directory copies it completely and nothing else. If the destination does not exist,
  its parent does and it is not inside the source, the walk ends, and in the result the destination is
  the whole source tree (files with their contents, links with their targets, directories; only special
  files are left out), the number of copied items is right, and no path outside the destination changed.
\<close>

theorem copy_exact:
  assumes "wf_node t" and "lookup t src = Some (DirNode es)" and "is_dir t pd" and "lookup t (pd @ [dn]) = None"
    and "\<not> prefix src (pd @ [dn])" and "depths es < fuel" and "fc_recursive req"
  shows "\<exists>t'. handle_copy (tree_ops dev) fuel t req src (pd @ [dn]) =
      Some (t', Inr (path_str src, path_str (pd @ [dn]), word_of_nat (copied_counts es))) \<and>
    lookup t' (pd @ [dn]) = Some (copied (DirNode es)) \<and>
    (\<forall>q. \<not> prefix (pd @ [dn]) q \<and> \<not> prefix q (pd @ [dn]) \<longrightarrow> lookup t' q = lookup t q)"
  using handle_copy_tree [OF assms] with_dir_lookup(1) [OF assms(3)] lookup_put_frame by auto

definition sample_tree :: node where
  "sample_tree = DirNode [(''a'', DirNode [(''f'', FileNode [1, 2]), (''l'', LinkNode ''f''), (''p'', OtherNode)]), (''b'', DirNode [])]"

definition sample_copy :: FileCopy where
  "sample_copy = \<lparr> fc_source = ''/a'', fc_destination = ''/b/c'', fc_recursive = True, fc_overwrite = False \<rparr>"

theorem copy_exact_witness:
  "\<exists>t'. handle_copy (tree_ops (\<lambda>_. 0)) 1 sample_tree sample_copy [''a''] [''b'', ''c''] = Some (t', Inr (''/a'', ''/b/c'', 2)) \<and>
     lookup t' [''b'', ''c''] = Some (DirNode [(''f'', FileNode [1, 2]), (''l'', LinkNode ''f'')])"
  using copy_exact [of sample_tree "[''a'']" "[(''f'', FileNode [1, 2]), (''l'', LinkNode ''f''), (''p'', OtherNode)]" "[''b'']" "''c''" 1 sample_copy "\<lambda>_. 0"]
  by (auto simp: sample_tree_def sample_copy_def is_dir_def path_str_def)

text \<open>
  C26. Copying a directory into itself never succeeds. If the destination lies inside the source, the
  walk meets the directory it is creating, and no amount of recursion lets it finish: for every bound
  it is still running or has failed, and until then it keeps nesting new directories.
\<close>

theorem copy_into_itself_never_succeeds:
  assumes "is_dir t pd" and "lookup t (pd @ [dn]) = None" and "pd = src @ r"
  shows "\<not> (\<exists>t' n. copy_dir_recursive (tree_ops dev) fuel t src (pd @ [dn]) = Some (t', Inr n))"
proof -
  obtain d ds where d: "r @ [dn] = d # ds" by (cases "r @ [dn]") simp
  then have dst: "pd @ [dn] = src @ d # ds" using assms(3) by simp
  from copy_dir_sync_inside [of "with_dir t pd dn []" src d ds dev fuel] with_dir_lookup(3) [OF assms(1), of dn "[]"]
  show ?thesis
    unfolding copy_dir_recursive_def safe_mkdirp_tree [OF assms(1,2)] unfolding dst by (simp add: then_walk_def map_err_def)
qed

theorem copy_into_itself_never_succeeds_witness:
  "\<not> (\<exists>t' n. copy_dir_recursive (tree_ops (\<lambda>_. 0)) 1000 sample_tree [''a''] [''a'', ''c''] = Some (t', Inr n))"
  using copy_into_itself_never_succeeds [of sample_tree "[''a'']" "''c''" "[''a'']" "[]" "\<lambda>_. 0" 1000]
  by (simp add: is_dir_def sample_tree_def)

text \<open>
  A move to another device ends with the source gone and the destination in its place, and drops
  special files: named pipes, sockets and device nodes below the source are in neither place afterwards,
  although the move is reported as done.
\<close>

theorem cross_device_move_drops_special_files:
  assumes "wf_node t" and "lookup t src = Some (DirNode es)" and "src \<noteq> []" and "is_dir t pd" and "lookup t (pd @ [dn]) = None"
    and "\<not> prefix src (pd @ [dn])" and "depths es < fuel" and "dev (butlast src) \<noteq> dev pd"
  shows "\<exists>t'. handle_move (tree_ops dev) fuel t req src (pd @ [dn]) = Some (t', Inr (path_str src, path_str (pd @ [dn]))) \<and>
    lookup t' src = None \<and> lookup t' (pd @ [dn]) = Some (DirNode (copied_list es)) \<and>
    (\<forall>c. (c, OtherNode) \<in> set es \<longrightarrow> lookup t' (pd @ [dn, c]) = None)"
proof -
  let ?req = "\<lparr> fc_source = mv_source req, fc_destination = mv_destination req, fc_recursive = True, fc_overwrite = mv_overwrite req \<rparr>"
  have npre: "\<not> prefix (pd @ [dn]) src" using assms(5,2) by (rule missing_not_prefix)
  have lsrc: "lookup t (butlast src @ [last src]) = Some (DirNode es)" using assms(2,3) by simp
  then have psrc: "is_dir t (butlast src)" using lookup_prefixes [of t "butlast src" "[last src]"] by simp
  define t1 where "t1 = with_dir t pd dn (copied_list es)"
  have t1: "handle_copy (tree_ops dev) fuel t ?req src (pd @ [dn]) = Some (t1, Inr (path_str src, path_str (pd @ [dn]), word_of_nat (copied_counts es)))"
      "lookup t1 (pd @ [dn]) = Some (DirNode (copied_list es))" "lookup t1 src = Some (DirNode es)"
    using handle_copy_tree [OF assms(1,2,4,5,6,7), of ?req dev] with_dir_lookup(1) [OF assms(4)]
      lookup_put_frame [OF npre assms(6)] assms(2) by (simp_all add: t1_def)
  let ?t' = "remove_at t1 src"
  have "fs_renameat (tree_ops dev) t src (pd @ [dn]) = (t, Inl EXDEV)"
    using assms(2,8) by (simp add: tree_sel tree_rename_def)
  then have "rename_safely (tree_ops dev) t src (pd @ [dn]) = (t, Inr CrossDevice)"
    using psrc assms(3,4)
    by (auto simp: rename_safely_def and_then_def safe_open_parent_dirfd_for_def map_err_def is_cross_device_error_def os_error_def
        tree_sel tree_open_dir_def is_dir_iff)
  moreover have "cross_device_move_fallback (tree_ops dev) fuel t req src (pd @ [dn]) = Some (?t', Inr ())"
    using t1 assms(3)
    by (simp add: cross_device_move_fallback_def then_walk_def map_err_def tree_sel tree_stat_def node_metadata_def tree_remove_def)
  ultimately have "handle_move (tree_ops dev) fuel t req src (pd @ [dn]) = Some (?t', Inr (path_str src, path_str (pd @ [dn])))"
    using assms(5) by (simp add: handle_move_def exists_at_def then_walk_def tree_sel)
  moreover have "lookup ?t' src = None" using lookup_remove_at [OF t1(3) assms(3)] .
  moreover have dst: "lookup ?t' (pd @ [dn]) = Some (DirNode (copied_list es))"
    using lookup_remove_parallel [OF assms(6) npre] t1(2) by simp
  moreover have "lookup ?t' (pd @ [dn, c]) = None" if "(c, OtherNode) \<in> set es" for c
  proof -
    have "distinct (map fst es)" using wf_lookup [OF assms(1,2)] by simp
    then have "map_of (copied_list es) c = None" using that copied_list_other by blast
    then show ?thesis using dst lookup_append [of ?t' "pd @ [dn]" "[c]"] by simp
  qed
  ultimately show ?thesis by blast
qed

theorem cross_device_move_drops_special_files_witness:
  "\<exists>t'. handle_move (tree_ops length) 1 sample_tree \<lparr> mv_source = ''/a'', mv_destination = ''/b/c'', mv_overwrite = False \<rparr> [''a''] [''b'', ''c''] =
      Some (t', Inr (''/a'', ''/b/c'')) \<and> lookup t' [''a''] = None \<and> lookup t' [''b'', ''c'', ''p''] = None"
  using cross_device_move_drops_special_files [of sample_tree "[''a'']" "[(''f'', FileNode [1, 2]), (''l'', LinkNode ''f''), (''p'', OtherNode)]"
      "[''b'']" "''c''" 1 length "\<lparr> mv_source = ''/a'', mv_destination = ''/b/c'', mv_overwrite = False \<rparr>"]
  by (auto simp: sample_tree_def is_dir_def path_str_def)



end
