(* ===== verification/File_Policy.thy ===== *)
theory File_Policy
  imports Fs_Tree
begin

text \<open>
  Which files a request may touch: \<^verbatim>\<open>FilePolicyChecker\<close> (\<^verbatim>\<open>ahandd/src/file_manager/policy.rs\<close>) and the
  textual handling of paths (\<^verbatim>\<open>std::path\<close>, \<^verbatim>\<open>lexically_normalize\<close> of \<^verbatim>\<open>file_manager/mod.rs\<close>).

  The parameters (\<open>PolicyEnv\<close>) are \<^verbatim>\<open>std::fs::canonicalize\<close> in a state of the file system, the patterns of
  the glob crate and its search. A resolved path is the list of its components below the root. The
  platform is Unix, where \<^verbatim>\<open>simplify\<close> is the identity; file names are valid UTF-8. Where the walk up
  an absent path shortens it, the model asks for the path spelled with single slashes.
\<close>

section \<open>Definitions\<close>

subsection \<open>Paths\<close>

datatype component = RootDir | CurDir | ParentDir | Normal string

text \<open>\<^verbatim>\<open>str::split\<close> at characters that satisfy a test, and \<^verbatim>\<open>Path::components\<close>.\<close>

fun split_at :: "(char \<Rightarrow> bool) \<Rightarrow> string \<Rightarrow> string list" where
  "split_at f [] = [[]]"
| "split_at f (c # s) = (if f c then [] # split_at f s else (case split_at f s of x # xs \<Rightarrow> (c # x) # xs | [] \<Rightarrow> [[c]]))"

abbreviation split_slash :: "string \<Rightarrow> string list" where
  "split_slash \<equiv> split_at (\<lambda>c. c = CHR ''/'')"

definition component_of :: "string \<Rightarrow> component option" where
  "component_of s = (if s = [] \<or> s = ''.'' then None else if s = ''..'' then Some ParentDir else Some (Normal s))"

definition is_absolute :: "string \<Rightarrow> bool" where
  "is_absolute s = (take 1 s = ''/'')"

definition components :: "string \<Rightarrow> component list" where
  "components s =
     (if is_absolute s then [RootDir] else if hd (split_slash s) = ''.'' then [CurDir] else []) @
     List.map_filter component_of (split_slash s)"

fun normal_name :: "component \<Rightarrow> string option" where
  "normal_name (Normal s) = Some s"
| "normal_name _ = None"

text \<open>The part of an absolute path without \<^verbatim>\<open>..\<close> below the root.\<close>

definition below_root :: "string \<Rightarrow> path" where
  "below_root s = List.map_filter normal_name (components s)"

fun render_component :: "component \<Rightarrow> string" where
  "render_component RootDir = []"
| "render_component CurDir = ''.''"
| "render_component ParentDir = ''..''"
| "render_component (Normal s) = s"

fun join_slash :: "string list \<Rightarrow> string" where
  "join_slash [] = []"
| "join_slash [s] = s"
| "join_slash (s # ss) = s @ ''/'' @ join_slash ss"

definition render :: "component list \<Rightarrow> string" where
  "render cs = (if cs = [RootDir] then ''/'' else join_slash (map render_component cs))"

definition parent_of :: "component list \<Rightarrow> component list option" where
  "parent_of cs = (if cs = [] \<or> last cs = RootDir then None else Some (butlast cs))"

definition path_join :: "component list \<Rightarrow> string \<Rightarrow> component list" where
  "path_join base s =
     (if is_absolute s then components s else if base = [] then components s else base @ filter (\<lambda>c. c \<noteq> CurDir) (components s))"

fun normalize_onto :: "component list \<Rightarrow> component list \<Rightarrow> component list" where
  "normalize_onto out [] = out"
| "normalize_onto out (ParentDir # cs) = normalize_onto (if out = [] \<or> last out = RootDir then out else butlast out) cs"
| "normalize_onto out (CurDir # cs) = normalize_onto out cs"
| "normalize_onto out (RootDir # cs) = normalize_onto [RootDir] cs"
| "normalize_onto out (Normal s # cs) = normalize_onto (out @ [Normal s]) cs"

definition lexically_normalize :: "component list \<Rightarrow> component list" where
  "lexically_normalize cs = normalize_onto [] cs"

subsection \<open>The policy\<close>

record FilePolicyChecker =
  pc_enabled :: bool
  pc_allowlist :: "string list"
  pc_denylist :: "string list"
  pc_dangerous_paths :: "string list"
  pc_max_read_bytes :: u64
  pc_max_write_bytes :: u64

record PolicyResult =
  pr_resolved_path :: path
  pr_needs_approval :: bool

text \<open>
  \<open>pe_glob\<close> compiles a pattern, if it is valid, to its test; \<open>pe_search\<close> lists what \<^verbatim>\<open>glob::glob\<close> yields
  for a pattern, entries that cannot be read as \<open>None\<close>.
\<close>

record 's PolicyEnv =
  pe_canonicalize :: "'s \<Rightarrow> string \<Rightarrow> IoError + path"
  pe_glob :: "string \<Rightarrow> (string \<Rightarrow> bool) option"
  pe_search :: "'s \<Rightarrow> string \<Rightarrow> string option list option"

definition glob_match :: "'s PolicyEnv \<Rightarrow> string \<Rightarrow> string \<Rightarrow> bool" where
  "glob_match env pattern path = (case pe_glob env pattern of Some matches \<Rightarrow> matches path | None \<Rightarrow> pattern = path)"

definition no_ancestor :: IoError where
  "no_ancestor = \<lparr> io_kind = KNotFound, io_raw_os_error = None, io_text = ''no existing ancestor found'' \<rparr>"

function walk_up :: "(string \<Rightarrow> IoError + path) \<Rightarrow> path \<Rightarrow> path \<Rightarrow> IoError + path" where
  "walk_up canon current rest =
     (if current = [] then Inl no_ancestor
      else
        (case canon (path_str (butlast current)) of
           Inr canonical \<Rightarrow> Inr (canonical @ last current # rest)
         | Inl e \<Rightarrow> if io_kind e = KNotFound then walk_up canon (butlast current) (last current # rest) else Inl e))"
  by pat_completeness auto
termination by (relation "measure (\<lambda>(canon, current, rest). length current)") auto

declare walk_up.simps [simp del]

definition canonicalize_or_parent :: "(string \<Rightarrow> IoError + path) \<Rightarrow> string \<Rightarrow> IoError + path" where
  "canonicalize_or_parent canon path =
     (case canon path of
        Inr p \<Rightarrow> Inr p
      | Inl e \<Rightarrow> if io_kind e \<noteq> KNotFound then Inl e else walk_up canon (below_root path) [])"

definition canonicalize_no_follow :: "(string \<Rightarrow> IoError + path) \<Rightarrow> string \<Rightarrow> IoError + path" where
  "canonicalize_no_follow canon path =
     (let p = below_root path
      in if p = [] then Inl \<lparr> io_kind = KInvalidInput, io_raw_os_error = None, io_text = ''path has no final component'' \<rparr>
         else (case canonicalize_or_parent canon (path_str (butlast p)) of
                 Inl e \<Rightarrow> Inl e
               | Inr canonical_parent \<Rightarrow> Inr (canonical_parent @ [last p])))"

definition check_path :: "'s PolicyEnv \<Rightarrow> FilePolicyChecker \<Rightarrow> 's \<Rightarrow> string \<Rightarrow> bool \<Rightarrow> bool \<Rightarrow> FileError + PolicyResult" where
  "check_path env pc s path is_write no_follow_symlink =
     (if \<not> pc_enabled pc then Inl (file_error PolicyDenied path ''file operations are disabled in config'')
      else if path = [] then Inl (file_error InvalidPath path ''path is empty'')
      else if ParentDir \<in> set (components path) then Inl (file_error InvalidPath path ''path traversal (..) is not allowed'')
      else if \<not> is_absolute path then Inl (file_error InvalidPath path ''only absolute paths are allowed'')
      else
        (case (if no_follow_symlink then canonicalize_no_follow (pe_canonicalize env s) path
               else canonicalize_or_parent (pe_canonicalize env s) path) of
           Inl e \<Rightarrow> Inl (file_error InvalidPath path (''failed to resolve path: '' @ io_text e))
         | Inr resolved \<Rightarrow>
             (let resolved_str = path_str resolved
              in if \<exists>pattern \<in> set (pc_denylist pc). glob_match env pattern resolved_str
                 then Inl (file_error PolicyDenied path ''path is in the deny list'')
                 else if pc_allowlist pc = [] then Inl (file_error PolicyDenied path ''allowlist is empty; no paths permitted'')
                 else if \<not> (\<exists>pattern \<in> set (pc_allowlist pc). glob_match env pattern resolved_str)
                 then Inl (file_error PolicyDenied path ''path is not in the allow list'')
                 else Inr \<lparr> pr_resolved_path = resolved,
                            pr_needs_approval = (\<exists>pattern \<in> set (pc_dangerous_paths pc). glob_match env pattern resolved_str) \<rparr>)))"

subsection \<open>Links\<close>

text \<open>
  \<^verbatim>\<open>canonicalize\<close> on a tree with symbolic links: it follows at most so many links and returns the real path,
  here with the number of links it may still follow.
\<close>

function resolve_in :: "nat \<Rightarrow> node \<Rightarrow> path \<Rightarrow> component list \<Rightarrow> IoError + path \<times> nat" where
  "resolve_in n t done [] = Inr (done, n)"
| "resolve_in n t done (RootDir # cs) = resolve_in n t [] cs"
| "resolve_in n t done (CurDir # cs) = resolve_in n t done cs"
| "resolve_in n t done (ParentDir # cs) = resolve_in n t (butlast done) cs"
| "resolve_in n t done (Normal c # cs) =
     (case lookup t (done @ [c]) of
        None \<Rightarrow> Inl (if is_dir t done then ENOENT else ENOTDIR)
      | Some m \<Rightarrow>
          (case m of
             LinkNode l \<Rightarrow> (case n of 0 \<Rightarrow> Inl ELOOP | Suc k \<Rightarrow> resolve_in k t done (components l @ cs))
           | _ \<Rightarrow> resolve_in n t (done @ [c]) cs))"
  by pat_completeness auto
termination by (relation "inv_image (less_than <*lex*> less_than) (\<lambda>(n, t, done, cs). (n, length cs))") auto

definition tree_canonicalize :: "node \<Rightarrow> string \<Rightarrow> IoError + path" where
  "tree_canonicalize t s = map_sum id fst (resolve_in 40 t [] (components s))"

definition real :: "node \<Rightarrow> path \<Rightarrow> bool" where
  "real t p \<longleftrightarrow> (\<exists>n. lookup t p = Some n \<and> node_type n \<noteq> FtSymlink)"

section \<open>Paths as text\<close>

definition file_name_ok :: "string \<Rightarrow> bool" where
  "file_name_ok c \<longleftrightarrow> c \<noteq> [] \<and> c \<noteq> ''.'' \<and> c \<noteq> ''..'' \<and> CHR ''/'' \<notin> set c"

lemma split_at_ne: "split_at f s \<noteq> []"
  by (cases s) (auto split: list.splits)

lemma split_at_parts: "\<forall>x \<in> set (split_at f s). \<forall>c \<in> set x. \<not> f c"
  by (induction s) (auto split: list.splits)

lemma split_at_append: "\<forall>c \<in> set s. \<not> f c \<Longrightarrow> f d \<Longrightarrow> split_at f (s @ d # r) = s # split_at f r"
  by (induction s) auto

lemma split_at_none: "\<forall>c \<in> set s. \<not> f c \<Longrightarrow> split_at f s = [s]"
  by (induction s) auto

lemma split_slash_path: "\<forall>c \<in> set p. CHR ''/'' \<notin> set c \<Longrightarrow> p \<noteq> [] \<Longrightarrow> split_slash (concat (map (\<lambda>c. CHR ''/'' # c) p)) = [] # p"
proof (induction p)
  case (Cons c p)
  show ?case
  proof (cases "p = []")
    case True
    with Cons.prems split_at_none [of c "\<lambda>c. c = CHR ''/''"] show ?thesis by auto
  next
    case False
    then obtain r where r: "concat (map (\<lambda>c. CHR ''/'' # c) p) = CHR ''/'' # r" by (cases p) auto
    have "split_slash r = p"
      using Cons False r by simp
    moreover have "split_slash (c @ CHR ''/'' # r) = c # split_slash r"
      using Cons.prems by (intro split_at_append) auto
    ultimately show ?thesis by (simp add: r)
  qed
qed simp

lemma map_filter_component: "\<forall>c \<in> set p. file_name_ok c \<Longrightarrow> List.map_filter component_of p = map Normal p"
  by (induction p) (auto simp: List.map_filter_simps component_of_def file_name_ok_def)

text \<open>The components of a printed path are the path.\<close>

lemma components_path_str: "\<forall>c \<in> set p. file_name_ok c \<Longrightarrow> components (path_str p) = RootDir # map Normal p"
proof (cases "p = []")
  case True
  then show ?thesis by (simp add: path_str_def components_def is_absolute_def component_of_def List.map_filter_simps)
next
  case False
  assume ok: "\<forall>c \<in> set p. file_name_ok c"
  then have "split_slash (path_str p) = [] # p" using False split_slash_path [of p] by (simp add: path_str_def file_name_ok_def)
  moreover have "is_absolute (path_str p)" using False by (cases p) (simp_all add: path_str_def is_absolute_def)
  ultimately show ?thesis using map_filter_component [OF ok] by (simp add: components_def component_of_def List.map_filter_simps)
qed

lemma absolute_components:
  assumes "is_absolute s" and "ParentDir \<notin> set (components s)"
  shows "components s = RootDir # map Normal (below_root s) \<and> (\<forall>c \<in> set (below_root s). file_name_ok c)"
proof -
  define xs where "xs = split_slash s"
  have abs: "components s = RootDir # List.map_filter component_of xs" using assms(1) by (simp add: components_def xs_def)
  have "\<forall>x \<in> set xs. CHR ''/'' \<notin> set x" using split_at_parts [of "\<lambda>c. c = CHR ''/''" s] by (auto simp: xs_def)
  then have "ParentDir \<notin> set (List.map_filter component_of xs) \<Longrightarrow>
      List.map_filter component_of xs = map Normal (List.map_filter normal_name (List.map_filter component_of xs)) \<and>
      (\<forall>c \<in> set (List.map_filter normal_name (List.map_filter component_of xs)). file_name_ok c)"
    by (induction xs) (auto simp: List.map_filter_simps component_of_def file_name_ok_def)
  then show ?thesis using assms(2) by (simp add: abs below_root_def List.map_filter_simps)
qed

section \<open>Resolving\<close>

lemma resolve_append:
  "resolve_in n t done (cs @ ds) = (case resolve_in n t done cs of Inl e \<Rightarrow> Inl e | Inr (p, k) \<Rightarrow> resolve_in k t p ds)"
  by (induction n t "done" cs rule: resolve_in.induct) (auto split: option.splits node.splits nat.splits)

lemma real_butlast: "real t p \<Longrightarrow> real t (butlast p)"
proof (cases "p = []")
  case False
  assume "real t p"
  then have "lookup t (butlast p @ [last p]) \<noteq> None" using False by (auto simp: real_def)
  from lookup_prefixes [OF this] show ?thesis by (auto simp: real_def is_dir_iff)
qed simp

lemma resolve_real: "resolve_in n t done cs = Inr (p, k) \<Longrightarrow> real t done \<Longrightarrow> real t [] \<Longrightarrow> real t p"
proof (induction n t "done" cs rule: resolve_in.induct)
  case (5 n t "done" c cs)
  then show ?case
    by (cases "lookup t (done @ [c])"; cases "the (lookup t (done @ [c]))"; cases n) (auto simp: real_def)
qed (auto dest: real_butlast)

lemma real_no_links: "real t p \<Longrightarrow> prefix q p \<Longrightarrow> lookup t q \<noteq> Some (LinkNode l)"
proof
  assume "real t p" "prefix q p" and link: "lookup t q = Some (LinkNode l)"
  then obtain r where "p = q @ r" by (auto simp: prefix_def)
  with \<open>real t p\<close> link show False by (cases r) (auto simp: real_def lookup_append)
qed

lemma tree_canonicalize_real: "tree_canonicalize t s = Inr p \<Longrightarrow> is_dir t [] \<Longrightarrow> real t p"
  using resolve_real [of 40 t "[]" "components s" p]
  by (auto simp: tree_canonicalize_def real_def is_dir_iff map_sum_def split: sum.splits)

lemma canonicalize_missing:
  assumes "\<forall>c \<in> set (cur @ [c]). file_name_ok c" and "tree_canonicalize t (path_str cur) = Inr q"
    and "tree_canonicalize t (path_str (cur @ [c])) = Inl e" and "io_kind e = KNotFound"
  shows "lookup t (q @ [c]) = None \<or> (\<exists>l. lookup t (q @ [c]) = Some (LinkNode l))"
proof -
  have cs: "components (path_str (cur @ [c])) = components (path_str cur) @ [Normal c]"
    using assms(1) components_path_str [of cur] components_path_str [of "cur @ [c]"] by simp
  from assms(2) obtain k where k: "resolve_in 40 t [] (components (path_str cur)) = Inr (q, k)"
    by (auto simp: tree_canonicalize_def map_sum_def split: sum.splits)
  have "resolve_in 40 t [] (components (path_str (cur @ [c]))) = resolve_in k t q [Normal c]"
    by (simp only: cs resolve_append k sum.case prod.case)
  with assms(3) show ?thesis
    by (cases "lookup t (q @ [c])"; cases "the (lookup t (q @ [c]))") (auto simp: tree_canonicalize_def)
qed

text \<open>What the walk up finds: the deepest existing ancestor, and the first component below it that leads nowhere.\<close>

lemma walk_up_found:
  assumes "\<forall>c \<in> set cur. file_name_ok c" and "walk_up (tree_canonicalize t) cur rest = Inr p"
    and "\<exists>e. tree_canonicalize t (path_str cur) = Inl e \<and> io_kind e = KNotFound" and "is_dir t []"
  shows "\<exists>q c more. p = q @ c # more \<and> real t q \<and> (lookup t (q @ [c]) = None \<or> (\<exists>l. lookup t (q @ [c]) = Some (LinkNode l)))"
  using assms(1,2,3)
proof (induction "tree_canonicalize t" cur rest rule: walk_up.induct)
  case (1 cur rest)
  have ne: "cur \<noteq> []" using 1(3) by (auto simp: walk_up.simps)
  then have ok: "\<forall>c \<in> set (butlast cur @ [last cur]). file_name_ok c" using 1(2) by simp
  show ?case
  proof (cases "tree_canonicalize t (path_str (butlast cur))")
    case (Inr q)
    then have "p = q @ last cur # rest" using 1(3) ne by (simp add: walk_up.simps)
    moreover have "real t q" using tree_canonicalize_real [OF Inr assms(4)] .
    moreover have "lookup t (q @ [last cur]) = None \<or> (\<exists>l. lookup t (q @ [last cur]) = Some (LinkNode l))"
      using canonicalize_missing [OF ok Inr] 1(4) ne by auto
    ultimately show ?thesis by blast
  next
    case (Inl e)
    have kind: "io_kind e = KNotFound" using 1(3) ne Inl by (auto simp: walk_up.simps [of _ cur] split: if_splits)
    then have "walk_up (tree_canonicalize t) (butlast cur) (last cur # rest) = Inr p"
      using 1(3) ne Inl by (simp add: walk_up.simps [of _ cur])
    with 1(1) [OF ne Inl kind] ok Inl kind show ?thesis by (auto dest: in_set_butlastD)
  qed
qed

section \<open>Properties\<close>


definition literal_env :: "node PolicyEnv" where
  "literal_env = \<lparr> pe_canonicalize = tree_canonicalize, pe_glob = (\<lambda>pattern. Some (\<lambda>s. s = pattern)), pe_search = (\<lambda>t pattern. Some []) \<rparr>"

definition allow_only :: "string list \<Rightarrow> FilePolicyChecker" where
  "allow_only ps = \<lparr> pc_enabled = True, pc_allowlist = ps, pc_denylist = [], pc_dangerous_paths = [], pc_max_read_bytes = 100, pc_max_write_bytes = 100 \<rparr>"

definition link_tree :: node where
  "link_tree = DirNode [(''a'', DirNode [(''l'', LinkNode ''/b'')]), (''b'', DirNode [(''x'', FileNode [])])]"

lemmas policy_eval = check_path_def literal_env_def allow_only_def canonicalize_or_parent_def canonicalize_no_follow_def tree_canonicalize_def
  components_def component_of_def is_absolute_def below_root_def path_str_def List.map_filter_simps glob_match_def walk_up.simps is_dir_def
  os_error_def eval_nat_numeral Let_def


lemma normalize_onto_absolute:
  "\<exists>p. normalize_onto (RootDir # map Normal q) cs = RootDir # map Normal p \<and> set p \<subseteq> set q \<union> {c. Normal c \<in> set cs}"
proof (induction cs arbitrary: q)
  case (Cons c cs)
  show ?case
  proof (cases c)
    case RootDir
    with Cons [of "[]"] show ?thesis by auto
  next
    case CurDir
    with Cons [of q] show ?thesis by auto
  next
    case ParentDir
    have "(if last (RootDir # map Normal q) = RootDir then RootDir # map Normal q else butlast (RootDir # map Normal q)) = RootDir # map Normal (butlast q)"
      by (cases q rule: rev_cases) auto
    with Cons [of "butlast q"] ParentDir show ?thesis by (fastforce dest: in_set_butlastD)
  next
    case (Normal s)
    with Cons [of "q @ [s]"] show ?thesis by fastforce
  qed
qed auto

lemma join_slash_Normal: "p \<noteq> [] \<Longrightarrow> join_slash ([] # map (render_component \<circ> Normal) p) = concat (map ((#) (CHR ''/'')) p)"
proof (induction p)
  case (Cons c p)
  then show ?case by (cases p) simp_all
qed simp

lemma render_absolute: "render (RootDir # map Normal p) = path_str p"
  using join_slash_Normal [of p] by (cases "p = []") (simp_all add: render_def path_str_def)



end
