(* ===== verification/Dir_List.thy ===== *)
theory Dir_List
  imports Files_Core "HOL-Library.Multiset"
begin

text \<open>
  Listing a directory, \<^verbatim>\<open>handle_list\<close> in \<^verbatim>\<open>ahandd/src/file_manager/fs_ops.rs\<close>: the entries are read one by
  one into a heap that keeps only as many as the requested page needs, then sorted and cut.

  The heap of the source is a \<^verbatim>\<open>BinaryHeap\<close> of reversed keys. Only its least key is ever looked at or
  removed, so it is an ascending list here. The directory is given by the answers of the
  operating system.
\<close>

section \<open>Definitions\<close>

record FileEntry =
  en_name :: string
  en_type :: FileType
  en_size :: u64
  en_modified_ms :: u64
  en_symlink_target :: "string option"

record FileList =
  fl_path :: string
  fl_max_results :: "u32 option"
  fl_offset :: "u32 option"
  fl_include_hidden :: bool

record FileListResult =
  flr_entries :: "FileEntry list"
  flr_total_count :: u32
  flr_has_more :: bool

text \<open>An entry of a directory: its name, its own metadata, if that can be read, and what it links to.\<close>

record DirEntry =
  de_name :: string
  de_metadata :: "Metadata option"
  de_link :: "string option"

definition DEFAULT_LIST_MAX :: nat where
  "DEFAULT_LIST_MAX = 1000"

definition LIST_HEAP_SAFETY_MARGIN :: nat where
  "LIST_HEAP_SAFETY_MARGIN = 64"

definition LIST_HEAP_RETAIN_CAP :: nat where
  "LIST_HEAP_RETAIN_CAP = 100000"

text \<open>The heap, the entries with evicted ones blanked out, and the count.\<close>

record ListState =
  ls_heap :: "(u64 \<times> string \<times> nat) list"
  ls_payload :: "FileEntry option list"
  ls_total :: u32

definition list_state_new :: ListState where
  "list_state_new = \<lparr> ls_heap = [], ls_payload = [], ls_total = 0 \<rparr>"

definition saturating_inc :: "u32 \<Rightarrow> u32" where
  "saturating_inc n = (if n = - 1 then n else n + 1)"

definition file_entry :: "DirEntry \<Rightarrow> Metadata \<Rightarrow> FileEntry" where
  "file_entry entry metadata =
     \<lparr> en_name = de_name entry, en_type = md_type metadata, en_size = md_len metadata,
       en_modified_ms = system_time_to_ms (md_modified metadata),
       en_symlink_target = (if md_type metadata = FtSymlink then de_link entry else None) \<rparr>"

definition heap_push :: "nat \<Rightarrow> ListState \<Rightarrow> FileEntry \<Rightarrow> ListState" where
  "heap_push retain st e =
     (let key = (en_modified_ms e, en_name e)
      in if length (ls_heap st) < retain
         then st\<lparr>ls_payload := ls_payload st @ [Some e],
                 ls_heap := insort (fst key, snd key, length (ls_payload st)) (ls_heap st)\<rparr>
         else (case ls_heap st of
                 [] \<Rightarrow> st
               | (top_mtime, top_name, evict_idx) # heap \<Rightarrow>
                   if (top_mtime, top_name) < key
                   then (let payload = (ls_payload st)[evict_idx := None]
                         in st\<lparr>ls_payload := payload @ [Some e],
                               ls_heap := insort (fst key, snd key, length payload) heap\<rparr>)
                   else st))"

definition list_entry :: "nat \<Rightarrow> bool \<Rightarrow> ListState \<Rightarrow> DirEntry \<Rightarrow> ListState" where
  "list_entry retain include_hidden st entry =
     (if \<not> include_hidden \<and> take 1 (de_name entry) = ''.'' then st
      else (case de_metadata entry of
              None \<Rightarrow> st
            | Some metadata \<Rightarrow> heap_push retain (st\<lparr>ls_total := saturating_inc (ls_total st)\<rparr>) (file_entry entry metadata)))"

fun list_entries :: "nat \<Rightarrow> bool \<Rightarrow> ListState \<Rightarrow> (IoError + DirEntry) list \<Rightarrow> IoError + ListState" where
  "list_entries retain include_hidden st [] = Inr st"
| "list_entries retain include_hidden st (Inl err # xs) = Inl err"
| "list_entries retain include_hidden st (Inr entry # xs) =
     list_entries retain include_hidden (list_entry retain include_hidden st entry) xs"

definition user_key :: "FileEntry \<Rightarrow> int \<times> string" where
  "user_key e = (- uint (en_modified_ms e), en_name e)"

definition list_page :: "nat \<Rightarrow> nat \<Rightarrow> ListState \<Rightarrow> FileListResult" where
  "list_page offset max_results st =
     (let sorted = sort_key user_key (List.map_filter id (ls_payload st));
          start = min offset (length sorted);
          stop = min (offset + max_results) (length sorted)
      in \<lparr> flr_entries = take (stop - start) (drop start sorted), flr_total_count = ls_total st,
           flr_has_more = (offset + max_results < unat (ls_total st)) \<rparr>)"

definition list_retain :: "nat \<Rightarrow> nat \<Rightarrow> nat" where
  "list_retain offset max_results = min (offset + max_results + LIST_HEAP_SAFETY_MARGIN) LIST_HEAP_RETAIN_CAP"

definition handle_list ::
  "IoError + FileType \<Rightarrow> IoError + (IoError + DirEntry) list \<Rightarrow> FileList \<Rightarrow> string \<Rightarrow> FileError + FileListResult" where
  "handle_list dir_type read_dir req resolved =
     (case dir_type of
        Inl err \<Rightarrow> Inl (io_to_file_error err resolved)
      | Inr file_type \<Rightarrow>
          if file_type \<noteq> FtDirectory then Inl (file_error NotADirectory (fl_path req) ''path is not a directory'')
          else
            (let max_results = (case fl_max_results req of Some n \<Rightarrow> unat n | None \<Rightarrow> DEFAULT_LIST_MAX);
                 offset = (case fl_offset req of Some n \<Rightarrow> unat n | None \<Rightarrow> 0)
             in if LIST_HEAP_RETAIN_CAP < offset + max_results
                then Inl (file_error InvalidPath (fl_path req)
                       (''offset+max_results exceeds the directory listing window of '' @ show_nat LIST_HEAP_RETAIN_CAP @
                        '' entries; narrow the listing or use FileGlob for deep pagination''))
                else (case read_dir of
                        Inl err \<Rightarrow> Inl (io_to_file_error err resolved)
                      | Inr entries \<Rightarrow>
                          (case list_entries (list_retain offset max_results) (fl_include_hidden req) list_state_new entries of
                             Inl err \<Rightarrow> Inl (io_to_file_error err resolved)
                           | Inr st \<Rightarrow> Inr (list_page offset max_results st)))))"

subsection \<open>Specification\<close>

text \<open>The entries a listing is about, in the order the directory has them.\<close>

definition visible :: "bool \<Rightarrow> DirEntry list \<Rightarrow> FileEntry list" where
  "visible include_hidden xs =
     List.map_filter (\<lambda>entry. if \<not> include_hidden \<and> take 1 (de_name entry) = ''.'' then None
                               else map_option (file_entry entry) (de_metadata entry)) xs"

abbreviation heap_key :: "FileEntry \<Rightarrow> u64 \<times> string" where
  "heap_key e \<equiv> (en_modified_ms e, en_name e)"

fun live_from :: "nat \<Rightarrow> FileEntry option list \<Rightarrow> (u64 \<times> string \<times> nat) list" where
  "live_from i [] = []"
| "live_from i (None # p) = live_from (Suc i) p"
| "live_from i (Some e # p) = (en_modified_ms e, en_name e, i) # live_from (Suc i) p"

abbreviation live :: "FileEntry option list \<Rightarrow> (u64 \<times> string \<times> nat) list" where
  "live p \<equiv> live_from 0 p"

abbreviation pair_of :: "u64 \<times> string \<times> nat \<Rightarrow> u64 \<times> string" where
  "pair_of x \<equiv> (fst x, fst (snd x))"

definition heap_inv :: "nat \<Rightarrow> FileEntry list \<Rightarrow> ListState \<Rightarrow> bool" where
  "heap_inv k es st \<longleftrightarrow>
     ls_heap st = sort (live (ls_payload st)) \<and>
     map pair_of (ls_heap st) = last_n k (sort (map heap_key es)) \<and>
     mset (List.map_filter id (ls_payload st)) \<subseteq># mset es \<and>
     unat (ls_total st) = min (length es) (2 ^ 32 - 1)"

section \<open>The heap\<close>

lemma last_n_insort:
  fixes S :: "'a :: linorder list"
  assumes "sorted S" and "0 < k" and "k \<le> length S"
  shows "last_n k (insort x S) = (if hd (last_n k S) < x then insort x (tl (last_n k S)) else last_n k S)"
proof -
  define A where "A = take (length S - k) S"
  define K where "K = last_n k S"
  have S: "S = A @ K" by (simp add: A_def K_def)
  have lA: "length A = length S - k" using assms by (simp add: A_def)
  obtain h t where K: "K = h # t" using assms by (cases K) (simp_all add: K_def)
  from assms(1) have so: "\<forall>a \<in> set A. a \<le> h" "\<forall>b \<in> set t. h \<le> b" by (auto simp: S K sorted_append)
  have le: "x \<le> h \<Longrightarrow> insort x (A @ K) = insort x A @ K"
    by (induction A) (auto simp: K)
  have gt: "h < x \<Longrightarrow> (\<forall>a \<in> set B. a < x) \<Longrightarrow> insort x (B @ K) = B @ h # insort x t" for B
    by (induction B) (auto simp: K not_le)
  show ?thesis
  proof (cases "h < x")
    case True
    with so(1) have "\<forall>a \<in> set A. a < x" by auto
    from gt [OF True this] have "insort x S = (A @ [h]) @ insort x t" by (simp add: S)
    moreover have "length (insort x S) - k = length (A @ [h])" using lA assms(3) by simp
    moreover have "last_n k S = h # t" using K by (simp add: K_def)
    ultimately show ?thesis using True by simp
  next
    case False
    with le have "insort x S = insort x A @ K" by (simp add: S)
    moreover have "length (insort x S) - k = length (insort x A)" using lA assms(3) by simp
    moreover have "last_n k S = h # t" using K by (simp add: K_def)
    ultimately show ?thesis using False K by simp
  qed
qed

lemma live_from_append: "live_from i (p @ q) = live_from i p @ live_from (i + length p) q"
  by (induction i p rule: live_from.induct) simp_all

lemma live_from_index: "x \<in> set (live_from i p) \<Longrightarrow> i \<le> snd (snd x) \<and> snd (snd x) < i + length p"
  by (induction i p rule: live_from.induct) auto

lemma distinct_live: "distinct (live_from i p)"
  by (induction i p rule: live_from.induct) (auto dest: live_from_index)

lemma live_evict: "x \<in> set (live_from i p) \<Longrightarrow> live_from i (p[snd (snd x) - i := None]) = remove1 x (live_from i p)"
proof (induction i p rule: live_from.induct)
  case (2 i p)
  then have "Suc i \<le> snd (snd x)" by (auto dest: live_from_index)
  then have "snd (snd x) - i = Suc (snd (snd x) - Suc i)" by simp
  with 2 show ?case by simp
next
  case (3 i e p)
  show ?case
  proof (cases "x = (en_modified_ms e, en_name e, i)")
    case False
    with 3(2) have x: "x \<in> set (live_from (Suc i) p)" by simp
    then have "Suc i \<le> snd (snd x)" by (auto dest: live_from_index)
    then have "snd (snd x) - i = Suc (snd (snd x) - Suc i)" by simp
    with 3(1) [OF x] False show ?thesis by simp
  qed simp
qed simp

lemma live_pairs: "map pair_of (live_from i p) = map heap_key (List.map_filter id p)"
  by (induction i p rule: live_from.induct) (simp_all add: List.map_filter_simps)

lemma mset_map_filter_evict:
  "i < length p \<Longrightarrow> mset (List.map_filter id (p[i := None])) \<subseteq># mset (List.map_filter id p)"
  by (induction p arbitrary: i)
    (auto simp: List.map_filter_simps less_Suc_eq_0_disj subset_mset.add_increasing2 split: option.splits intro: subset_mset.order_trans)

lemma sorted_pairs: "sorted (xs :: (u64 \<times> string \<times> nat) list) \<Longrightarrow> sorted (map pair_of xs)"
  by (induction xs) (fastforce simp: less_eq_prod_def)+

lemma sort_snoc: "sort (xs @ [x]) = insort x (sort xs)"
  by (simp add: properties_for_sort sorted_insort)

lemma sort_remove_hd: "sort xs = y # ys \<Longrightarrow> sort (remove1 y xs) = ys"
proof -
  assume y: "sort xs = y # ys"
  have "mset (remove1 y xs) = mset ys" using arg_cong [OF y, of mset] by simp
  moreover have "sorted ys" using sorted_sort [of xs] unfolding y by simp
  ultimately show ?thesis by (intro properties_for_sort) simp_all
qed

lemma pairs_insort: "sorted xs \<Longrightarrow> map pair_of (insort x xs) = insort (pair_of x) (map pair_of (xs :: (u64 \<times> string \<times> nat) list))"
proof -
  assume "sorted xs"
  then have "sorted (map pair_of (insort x xs))" by (intro sorted_pairs) (simp add: sorted_insort)
  moreover have "sorted (insort (pair_of x) (map pair_of xs))" using \<open>sorted xs\<close> by (simp add: sorted_insort sorted_pairs)
  moreover have "mset (map pair_of (insort x xs)) = mset (insort (pair_of x) (map pair_of xs))" by simp
  ultimately show ?thesis
    using properties_for_sort [of "map pair_of (insort x xs)" "insort (pair_of x) (map pair_of xs)"] by (simp only: sorted_sort_id)
qed

lemma heap_inv_new: "heap_inv k [] list_state_new"
  by (simp add: heap_inv_def list_state_new_def List.map_filter_simps)

lemma unat_Suc_word32: "(w :: u32) \<noteq> - 1 \<Longrightarrow> unat (w + 1) = Suc (unat w)"
  using unatSuc [of w] add_eq_0_iff [of 1 w] by (simp only: add.commute [of w]) blast

lemma unat_max_u32: "unat (- 1 :: u32) = 2 ^ 32 - 1"
  by (simp add: unsigned_minus_1_eq_mask mask_eq_exp_minus_1)

lemma unat_saturating_inc: "unat (saturating_inc n) = min (Suc (unat n)) (2 ^ 32 - 1)"
proof (cases "n = - 1")
  case False
  then have suc: "unat (n + 1) = Suc (unat n)" by (rule unat_Suc_word32)
  have "unat (n + 1) \<le> unat (- 1 :: u32)" using word_order.extremum [of "n + 1"] by (simp only: word_le_nat_alt)
  with suc False show ?thesis by (simp add: saturating_inc_def unat_max_u32)
qed (simp add: saturating_inc_def unat_max_u32)

lemma heap_inv_push:
  assumes inv: "heap_inv k es st" and k: "0 < k"
  shows "heap_inv k (es @ [e]) (heap_push k (st\<lparr>ls_total := saturating_inc (ls_total st)\<rparr>) e)"
proof -
  let ?p = "ls_payload st" and ?keys = "map heap_key es" and ?x = "(en_modified_ms e, en_name e, length (ls_payload st))"
  have heap: "ls_heap st = sort (live ?p)" and pairs: "map pair_of (ls_heap st) = last_n k (sort ?keys)"
    and sub: "mset (List.map_filter id ?p) \<subseteq># mset es" and tot: "unat (ls_total st) = min (length es) (2 ^ 32 - 1)"
    using inv unfolding heap_inv_def by blast+
  have len: "length (ls_heap st) = min k (length es)" using arg_cong [OF pairs, of length] by simp
  have total: "unat (saturating_inc (ls_total st)) = min (length (es @ [e])) (2 ^ 32 - 1)"
    using tot by (simp add: unat_saturating_inc min_def)
  have keys: "sort (map heap_key (es @ [e])) = insort (heap_key e) (sort ?keys)" by (simp add: sort_snoc)
  show ?thesis
  proof (cases "length (ls_heap st) < k")
    case True
    then have "length es < k" using len by simp
    then have "map pair_of (ls_heap st) = sort ?keys" using pairs by simp
    moreover have "mset (List.map_filter id (?p @ [Some e])) \<subseteq># mset (es @ [e])"
      using sub by (simp add: List.map_filter_def)
    ultimately show ?thesis using True heap total \<open>length es < k\<close>
      by (simp add: heap_inv_def heap_push_def keys live_from_append sort_snoc pairs_insort)
  next
    case False
    with len have full: "k \<le> length es" "length (ls_heap st) = k" by simp_all
    then obtain y ys where y: "ls_heap st = y # ys" using k by (cases "ls_heap st") auto
    have y1: "pair_of y = hd (last_n k (sort ?keys))" and ys1: "map pair_of ys = tl (last_n k (sort ?keys))"
      using arg_cong [OF pairs, of hd] arg_cong [OF pairs, of tl] by (simp_all add: y)
    have "k \<le> length (sort ?keys)" using full by simp
    then have top: "last_n k (sort (map heap_key (es @ [e]))) =
        (if pair_of y < heap_key e then insort (heap_key e) (map pair_of ys) else last_n k (sort ?keys))"
      by (simp only: keys y1 ys1 last_n_insort [OF sorted_sort k])
    show ?thesis
    proof (cases "pair_of y < heap_key e")
      case True
      have yin: "y \<in> set (live ?p)" using heap y by (metis list.set_intros(1) set_sort)
      then have i: "snd (snd y) < length ?p" using live_from_index by fastforce
      let ?q = "?p[snd (snd y) := None]"
      have "live ?q = remove1 y (live ?p)" using live_evict [OF yin] by simp
      then have ys: "sort (live ?q) = ys" using sort_remove_hd [of "live ?p" y ys] heap y by simp
      have "sorted ys" using ys by (metis sorted_sort)
      moreover have "mset (List.map_filter id (?q @ [Some e])) \<subseteq># mset (es @ [e])"
        using subset_mset.order_trans [OF mset_map_filter_evict [OF i] sub] by (simp add: List.map_filter_def)
      ultimately show ?thesis using True False y top total ys
        by (cases y) (simp add: heap_inv_def heap_push_def live_from_append sort_snoc pairs_insort)
    next
      case less: False
      let ?st = "st\<lparr>ls_total := saturating_inc (ls_total st)\<rparr>"
      have "heap_push k ?st e = ?st"
        using False less y by (cases y) (auto simp: heap_push_def Let_def)
      moreover have "mset (List.map_filter id ?p) \<subseteq># mset (es @ [e])"
        using subset_mset.order_trans [OF sub, of "mset (es @ [e])"] by simp
      moreover have "last_n k (sort (map heap_key (es @ [e]))) = map pair_of (ls_heap st)"
        unfolding top pairs using less by (rule if_not_P)
      ultimately show ?thesis unfolding heap_inv_def using total heap by simp
    qed
  qed
qed

lemma list_entries_inv:
  assumes "0 < k" and "heap_inv k es st"
  shows "\<exists>st'. list_entries k h st (map Inr xs) = Inr st' \<and> heap_inv k (es @ visible h xs) st'"
  using assms(2)
proof (induction xs arbitrary: es st)
  case (Cons x xs)
  show ?case
  proof (cases "(\<not> h \<and> take 1 (de_name x) = ''.'') \<or> de_metadata x = None")
    case True
    then have "list_entry k h st x = st" "visible h (x # xs) = visible h xs"
      by (auto simp: list_entry_def visible_def List.map_filter_simps)
    with Cons show ?thesis by simp
  next
    case False
    then obtain md where md: "de_metadata x = Some md" by auto
    from heap_inv_push [OF Cons.prems assms(1), of "file_entry x md"]
    have "heap_inv k (es @ [file_entry x md]) (list_entry k h st x)" using False md by (auto simp: list_entry_def)
    from Cons.IH [OF this] False md show ?thesis by (auto simp: visible_def List.map_filter_simps)
  qed
qed (simp add: visible_def List.map_filter_simps)

section \<open>Properties\<close>

lemma list_retain_bounds: "0 < list_retain offset mx" "offset + mx \<le> LIST_HEAP_RETAIN_CAP \<Longrightarrow> offset + mx \<le> list_retain offset mx"
  by (simp_all add: list_retain_def LIST_HEAP_SAFETY_MARGIN_def LIST_HEAP_RETAIN_CAP_def)

lemma distinct_names_inj: "distinct (map en_name es) \<Longrightarrow> inj_on user_key (set es) \<and> inj_on heap_key (set es)"
  by (simp add: inj_on_def user_key_def distinct_map)

lemma retained_keys:
  assumes "heap_inv k es st"
  shows "image_mset heap_key (mset (List.map_filter id (ls_payload st))) = mset (last_n k (sort (map heap_key es)))"
proof -
  have "mset (map pair_of (live (ls_payload st))) = mset (map pair_of (ls_heap st))"
    using assms by (simp add: heap_inv_def)
  moreover have "map pair_of (ls_heap st) = last_n k (sort (map heap_key es))" using assms unfolding heap_inv_def by blast
  ultimately show ?thesis by (simp only: live_pairs mset_map)
qed

text \<open>Sorted for the user, the retained entries are the first ones of the whole listing.\<close>

lemma retained_sorted:
  assumes inv: "heap_inv k es st" and names: "distinct (map en_name es)"
    and ties: "distinct (map en_modified_ms es) \<or> length es \<le> k"
  shows "sort_key user_key (List.map_filter id (ls_payload st)) = take k (sort_key user_key es)"
proof -
  let ?R = "List.map_filter id (ls_payload st)" and ?S = "sort_key user_key es"
  have sub: "mset ?R \<subseteq># mset es" using inv by (simp add: heap_inv_def)
  have "image_mset heap_key (mset ?R) = image_mset heap_key (mset (take k ?S))"
    using ties
  proof
    assume "distinct (map en_modified_ms es)"
    then have inj: "inj_on en_modified_ms (set es)" by (simp add: distinct_map)
    have "sorted (map user_key ?S)" by simp
    then have "sorted_wrt (\<lambda>a b. user_key a \<le> user_key b) ?S" by (simp add: sorted_map)
    then have "sorted_wrt (\<lambda>a b. heap_key b \<le> heap_key a) ?S"
    proof (rule sorted_wrt_mono_rel [rotated])
      fix a b assume "a \<in> set ?S" "b \<in> set ?S" "user_key a \<le> user_key b"
      with inj show "heap_key b \<le> heap_key a"
        by (auto simp: user_key_def less_eq_prod_def word_le_def word_less_def inj_on_def word_uint_eq_iff)
    qed
    then have "sorted (rev (map heap_key ?S))" by (simp add: sorted_wrt_rev sorted_wrt_map)
    then have "sort (map heap_key es) = rev (map heap_key ?S)" by (intro properties_for_sort) simp_all
    then have "last_n k (sort (map heap_key es)) = rev (map heap_key (take k ?S))"
      by (simp add: rev_map rev_take drop_map)
    with retained_keys [OF inv] show ?thesis by simp
  next
    assume "length es \<le> k"
    with retained_keys [OF inv] show ?thesis by simp
  qed
  moreover have "set_mset (mset ?R) \<subseteq> set es" "set (take k ?S) \<subseteq> set es"
    using set_mset_mono [OF sub] set_take_subset [of k ?S] by simp_all
  moreover have "inj_on heap_key (set es)" using names by (simp add: distinct_names_inj)
  ultimately have "mset ?R = mset (take k ?S)"
    by (intro multiset.inj_map_strong [of "mset ?R" "mset (take k ?S)" heap_key heap_key]) (auto simp: inj_on_def)
  moreover have "inj_on user_key (set ?R)"
    using distinct_names_inj [OF names] \<open>set_mset (mset ?R) \<subseteq> set es\<close> by (auto intro: inj_on_subset)
  moreover have "sorted (map user_key (take k ?S))" by (simp add: sorted_wrt_take flip: take_map)
  ultimately show ?thesis by (intro sort_key_inj_key_eq)
qed

lemma page_of_prefix:
  assumes "offset + mx \<le> k"
  shows "(let s = take k S; start = min offset (length s); stop = min (offset + mx) (length s) in take (stop - start) (drop start s)) =
    take mx (drop offset S)"
proof (cases "offset \<le> length (take k S)")
  case True
  have "take (min (offset + mx) (length (take k S)) - offset) (drop offset (take k S)) = take mx (drop offset (take k S))"
    by (simp add: min_def take_drop)
  also have "\<dots> = take mx (drop offset S)" using assms by (simp add: drop_take min_def)
  finally show ?thesis using True by (simp add: Let_def min_absorb1)
next
  case False
  then have "length S < offset" using assms by simp
  with False show ?thesis by (simp add: Let_def)
qed

lemma first_not_in_last_n:
  fixes xs :: "'a :: linorder list"
  assumes "x \<in> set (last_n k xs)" and "k < length xs" and "sorted xs" and "distinct xs"
  shows "\<not> (\<forall>y \<in> set xs. x \<le> y)"
proof -
  from assms(1) obtain i where i: "i < length xs" "length xs - k \<le> i" "x = xs ! i"
    by (auto simp: in_set_conv_nth) (metis add.commute le_add2 less_diff_conv)
  with assms(2) have "0 < i" by simp
  have ne: "xs \<noteq> []" using assms(2) by auto
  with \<open>0 < i\<close> have "xs ! 0 \<le> x" "xs ! 0 \<noteq> x"
    using i assms(3,4) nth_eq_iff_index_eq [of xs 0 i] by (auto simp: sorted_nth_mono)
  moreover have "xs ! 0 \<in> set xs" using ne by simp
  ultimately show ?thesis by (meson order.antisym)
qed

text \<open>
  C28. A page of a listing is the right part of the whole listing. For a directory whose visible
  entries have different modification times, or one that fits the window the code keeps, the answer
  to a request is exactly the requested part of all visible entries sorted newest first and by name,
  with the right total and the right \<^verbatim>\<open>has_more\<close>, although the code never holds more entries than the
  page needs.
\<close>

theorem list_page_exact:
  fixes off mx :: u32
  assumes es_def: "es = visible hidden xs" and "distinct (map en_name es)" and "length es < 2 ^ 32" and "unat off + unat mx \<le> LIST_HEAP_RETAIN_CAP"
    and "distinct (map en_modified_ms es) \<or> length es \<le> unat off + unat mx + LIST_HEAP_SAFETY_MARGIN \<and> length es \<le> LIST_HEAP_RETAIN_CAP"
  shows "handle_list (Inr FtDirectory) (Inr (map Inr xs))
      \<lparr> fl_path = path, fl_max_results = Some mx, fl_offset = Some off, fl_include_hidden = hidden \<rparr> resolved =
    Inr \<lparr> flr_entries = take (unat mx) (drop (unat off) (sort_key user_key es)), flr_total_count = word_of_nat (length es),
          flr_has_more = (unat off + unat mx < length es) \<rparr>"
proof -
  let ?k = "list_retain (unat off) (unat mx)"
  from list_entries_inv [OF list_retain_bounds(1) heap_inv_new, of "unat off" "unat mx" hidden xs] obtain st where
    st: "list_entries ?k hidden list_state_new (map Inr xs) = Inr st" "heap_inv ?k es st" by (auto simp: es_def)
  have "distinct (map en_modified_ms es) \<or> length es \<le> ?k" using assms(5) by (auto simp: list_retain_def)
  from retained_sorted [OF st(2) assms(2) this]
  have page: "sort_key user_key (List.map_filter id (ls_payload st)) = take ?k (sort_key user_key es)" .
  have tot: "unat (ls_total st) = length es" using st(2) assms(3) by (simp add: heap_inv_def)
  then have "ls_total st = word_of_nat (length es)" by (simp flip: tot)
  moreover from page_of_prefix [OF list_retain_bounds(2) [OF assms(4)], of "sort_key user_key es"]
  have "flr_entries (list_page (unat off) (unat mx) st) = take (unat mx) (drop (unat off) (sort_key user_key es))"
    by (simp add: list_page_def page Let_def)
  ultimately show ?thesis using st(1) assms(4) tot
    by (simp add: handle_list_def list_page_def not_less Let_def)
qed

definition sample_dir :: "DirEntry list" where
  "sample_dir =
     map (\<lambda>(n, t). \<lparr> de_name = n, de_metadata = Some \<lparr> md_type = FtFile, md_len = 0, md_modified = Some t, md_created = None, md_accessed = None, md_mode = 420 \<rparr>, de_link = None \<rparr>)
       [(''a'', 1), (''b'', 3), (''.c'', 4), (''d'', 2)]"

lemma visible_sample_dir:
  "map en_name (visible False sample_dir) = [''a'', ''b'', ''d'']" "map en_modified_ms (visible False sample_dir) = [1, 3, 2]"
  by (simp_all add: visible_def sample_dir_def List.map_filter_simps file_entry_def system_time_to_ms_def)

theorem list_page_exact_witness:
  "\<exists>r. handle_list (Inr FtDirectory) (Inr (map Inr sample_dir))
      \<lparr> fl_path = ''/d'', fl_max_results = Some 1, fl_offset = Some 1, fl_include_hidden = False \<rparr> ''/d'' = Inr r \<and>
     flr_total_count r = 3 \<and> flr_has_more r"
proof -
  have "length (visible False sample_dir) = 3" using arg_cong [OF visible_sample_dir(1), of length] by simp
  then show ?thesis
    using list_page_exact [OF refl, of False sample_dir 1 1 "''/d''" "''/d''"]
    by (simp add: visible_sample_dir LIST_HEAP_RETAIN_CAP_def)
qed

text \<open>
  Entries with one modification time can be left out of every page. The window keeps the entries
  with the greatest names, while a page starts with the least names: in a directory of more entries
  than the window, all modified at the same time, the entry that belongs first is on no page.
\<close>

theorem list_page_skips_ties:
  fixes off mx :: u32
  assumes es_def: "es = visible hidden xs" and "distinct (map en_name es)" and "\<forall>e \<in> set es. en_modified_ms e = m"
    and "e0 \<in> set es" and "\<forall>e \<in> set es. en_name e0 \<le> en_name e"
    and "unat off + unat mx + LIST_HEAP_SAFETY_MARGIN < length es" and "unat off + unat mx \<le> LIST_HEAP_RETAIN_CAP"
  shows "hd (sort_key user_key es) = e0 \<and>
    (\<exists>r. handle_list (Inr FtDirectory) (Inr (map Inr xs))
      \<lparr> fl_path = path, fl_max_results = Some mx, fl_offset = Some off, fl_include_hidden = hidden \<rparr> resolved = Inr r \<and>
      e0 \<notin> set (flr_entries r))"
proof
  let ?k = "list_retain (unat off) (unat mx)" and ?key = "map heap_key es"
  have first: "user_key e0 \<le> user_key e" if "e \<in> set es" for e
    using assms(3,4,5) that by (simp add: user_key_def less_eq_prod_def)
  obtain h t where h: "sort_key user_key es = h # t"
    using assms(4) by (cases "sort_key user_key es") (metis empty_iff list.set(1) set_sort, blast)
  then have hin: "h \<in> set es" by (metis list.set_intros(1) set_sort)
  have "sorted (map user_key (h # t))" by (metis h sorted_sort_key)
  moreover have "e0 \<in> set (h # t)" using assms(4) by (metis h set_sort)
  ultimately have "user_key h \<le> user_key e0" by auto
  with first [OF hin] distinct_names_inj [OF assms(2)] hin assms(4) show "hd (sort_key user_key es) = e0"
    by (auto simp: h inj_on_def)
  from list_entries_inv [OF list_retain_bounds(1) heap_inv_new, of "unat off" "unat mx" hidden xs] obtain st where
    st: "list_entries ?k hidden list_state_new (map Inr xs) = Inr st" "heap_inv ?k es st" by (auto simp: es_def)
  have key0: "heap_key e0 \<le> x" if "x \<in> set (sort ?key)" for x
    using assms(3,4,5) that by (auto simp: less_eq_prod_def)
  have "e0 \<notin> set (List.map_filter id (ls_payload st))"
  proof
    assume "e0 \<in> set (List.map_filter id (ls_payload st))"
    then have "heap_key e0 \<in># image_mset heap_key (mset (List.map_filter id (ls_payload st)))" by simp
    then have "heap_key e0 \<in> set (last_n ?k (sort ?key))" by (simp only: retained_keys [OF st(2)] set_mset_mset)
    moreover have "?k < length (sort ?key)" using assms(6) by (simp add: list_retain_def)
    moreover have "sorted (sort ?key)" "distinct (sort ?key)"
      using distinct_names_inj [OF assms(2)] assms(2) by (simp_all add: distinct_map)
    ultimately show False using key0 first_not_in_last_n by blast
  qed
  then have "e0 \<notin> set (flr_entries (list_page (unat off) (unat mx) st))"
    by (auto simp: list_page_def Let_def dest!: in_set_takeD in_set_dropD)
  then show "\<exists>r. handle_list (Inr FtDirectory) (Inr (map Inr xs))
      \<lparr> fl_path = path, fl_max_results = Some mx, fl_offset = Some off, fl_include_hidden = hidden \<rparr> resolved = Inr r \<and>
      e0 \<notin> set (flr_entries r)"
    using st(1) assms(7) by (simp add: handle_list_def not_less)
qed

definition sample_ties :: "DirEntry list" where
  "sample_ties =
     map (\<lambda>i. \<lparr> de_name = replicate (Suc i) (CHR ''a''), de_metadata = Some \<lparr> md_type = FtFile, md_len = 0, md_modified = Some 5, md_created = None, md_accessed = None, md_mode = 420 \<rparr>,
               de_link = None \<rparr>) [0..<66]"

definition sample_tie :: "nat \<Rightarrow> FileEntry" where
  "sample_tie i = \<lparr> en_name = replicate (Suc i) (CHR ''a''), en_type = FtFile, en_size = 0, en_modified_ms = 5, en_symlink_target = None \<rparr>"

lemma visible_sample_ties: "visible True sample_ties = map sample_tie [0..<66]"
  by (simp only: visible_def sample_ties_def List.map_filter_def filter_map map_map o_def)
    (simp add: file_entry_def system_time_to_ms_def sample_tie_def o_def)

lemma replicate_le: "m \<le> n \<Longrightarrow> replicate m c \<le> replicate n (c :: char)"
  by (induction m n rule: diff_induct) simp_all

theorem list_page_skips_ties_witness:
  "\<exists>r. handle_list (Inr FtDirectory) (Inr (map Inr sample_ties))
      \<lparr> fl_path = ''/d'', fl_max_results = Some 1, fl_offset = Some 0, fl_include_hidden = True \<rparr> ''/d'' = Inr r \<and>
      sample_tie 0 \<notin> set (flr_entries r)"
proof -
  have "distinct (map en_name (map sample_tie [0..<66]))"
    by (auto simp: distinct_map inj_on_def sample_tie_def dest: arg_cong [where f = length])
  moreover have "\<forall>e \<in> set (map sample_tie [0..<66]). en_name (sample_tie 0) \<le> en_name e"
    using replicate_le [of 1] by (auto simp: sample_tie_def)
  moreover have "\<forall>e \<in> set (map sample_tie [0..<66]). en_modified_ms e = 5" by (simp add: sample_tie_def)
  moreover have "sample_tie 0 \<in> set (map sample_tie [0..<66])" by simp
  ultimately show ?thesis
    using list_page_skips_ties [OF visible_sample_ties [symmetric], of 5 "sample_tie 0" 0 1 "''/d''" "''/d''"]
    by (simp add: LIST_HEAP_SAFETY_MARGIN_def LIST_HEAP_RETAIN_CAP_def del: upt_Suc)
qed

end
