(* ===== verification/File_Read.thy ===== *)
theory File_Read
  imports Fs_Tree
begin

text \<open>
  Reading files: pages of text lines (\<^verbatim>\<open>ahandd/src/file_manager/text_read.rs\<close>) and ranges of bytes
  (\<^verbatim>\<open>handle_read_binary\<close> in \<^verbatim>\<open>binary_read.rs\<close>).

  The file system is that of \<open>Fs_Ops\<close>. The character encodings (\<^verbatim>\<open>encoding_rs\<close>, \<^verbatim>\<open>chardetng\<close>) are a
  parameter (\<open>Encodings\<close>). A position in a buffer is a number below \<open>2 ^ 64\<close>: where the source adds or
  subtracts positions without a check, the operation wraps as in a release build (\<open>usize_add\<close>, \<open>usize_sub\<close>).
\<close>

unbundle bit_operations_syntax

section \<open>Definitions\<close>

subsection \<open>Requests and results\<close>

datatype Start = StartLine u64 | StartByte u64 | StartLineCol u64 u64

datatype Position = PosLine u64 | PosByteOffset u64 | PosLineCol u64 u64

record FileReadText =
  rq_path :: string
  rq_start :: "Start option"
  rq_max_lines :: "u32 option"
  rq_max_bytes :: "u64 option"
  rq_target_end :: "Position option option"
  rq_max_line_width :: "u32 option"
  rq_encoding :: "string option"
  rq_no_follow_symlink :: bool

datatype StopReason = MaxLines | MaxBytes | TargetEnd | FileEnd

record TextLine =
  tl_content :: string
  tl_line_number :: u64
  tl_truncated :: bool
  tl_remaining_bytes :: u32

record PositionInfo =
  po_line :: u64
  po_byte_in_file :: u64
  po_byte_in_line :: u64

record FileReadTextResult =
  rr_lines :: "TextLine list"
  rr_stop_reason :: StopReason
  rr_start_pos :: PositionInfo
  rr_end_pos :: PositionInfo
  rr_remaining_bytes :: u64
  rr_total_file_bytes :: u64
  rr_total_lines :: u64
  rr_detected_encoding :: string

record 'e Encodings =
  en_utf8 :: 'e
  en_enc_name :: "'e \<Rightarrow> string"
  en_for_label :: "string \<Rightarrow> 'e option"
  en_guess :: "bytes \<Rightarrow> 'e"
  en_decode :: "'e \<Rightarrow> bytes \<Rightarrow> string"

definition DEFAULT_MAX_LINES :: u32 where
  "DEFAULT_MAX_LINES = 200"

definition DEFAULT_MAX_BYTES :: u64 where
  "DEFAULT_MAX_BYTES = 65536"

definition DEFAULT_MAX_LINE_WIDTH :: u32 where
  "DEFAULT_MAX_LINE_WIDTH = 500"

subsection \<open>The standard library\<close>

definition usize_add :: "nat \<Rightarrow> nat \<Rightarrow> nat" where
  "usize_add a b = (a + b) mod 2 ^ 64"

definition usize_sub :: "nat \<Rightarrow> nat \<Rightarrow> nat" where
  "usize_sub a b = nat ((int a - int b) mod 2 ^ 64)"

definition saturating_pred :: "u64 \<Rightarrow> nat" where
  "saturating_pred n = unat n - 1"

definition get_or :: "nat list \<Rightarrow> nat \<Rightarrow> nat \<Rightarrow> nat" where
  "get_or xs i d = (if i < length xs then xs ! i else d)"

text \<open>\<^verbatim>\<open>str::from_utf8\<close>: the well-formed sequences of the Unicode standard, by their first byte.\<close>

definition between :: "u8 \<Rightarrow> u8 \<Rightarrow> u8 \<Rightarrow> bool" where
  "between lo hi b \<longleftrightarrow> lo \<le> b \<and> b \<le> hi"

definition utf8_tail :: "u8 \<Rightarrow> (u8 \<Rightarrow> bool) list option" where
  "utf8_tail b =
     (let cont = between 0x80 0xBF
      in if b \<le> 0x7F then Some []
         else if between 0xC2 0xDF b then Some [cont]
         else if b = 0xE0 then Some [between 0xA0 0xBF, cont]
         else if b = 0xED then Some [between 0x80 0x9F, cont]
         else if between 0xE1 0xEF b then Some [cont, cont]
         else if b = 0xF0 then Some [between 0x90 0xBF, cont, cont]
         else if between 0xF1 0xF3 b then Some [cont, cont, cont]
         else if b = 0xF4 then Some [between 0x80 0x8F, cont, cont]
         else None)"

function from_utf8_ok :: "bytes \<Rightarrow> bool" where
  "from_utf8_ok [] = True"
| "from_utf8_ok (b # bs) =
     (case utf8_tail b of
        None \<Rightarrow> False
      | Some tests \<Rightarrow>
          length tests \<le> length bs \<and> list_all2 (\<lambda>t x. t x) tests (take (length tests) bs) \<and> from_utf8_ok (drop (length tests) bs))"
  by pat_completeness auto
termination by (relation "measure length") auto

definition ascii_lower :: "char \<Rightarrow> char" where
  "ascii_lower c = (if CHR ''A'' \<le> c \<and> c \<le> CHR ''Z'' then char_of (of_char c + 32 :: nat) else c)"

definition eq_ignore_ascii_case :: "string \<Rightarrow> string \<Rightarrow> bool" where
  "eq_ignore_ascii_case a b \<longleftrightarrow> map ascii_lower a = map ascii_lower b"

subsection \<open>Lines and positions\<close>

definition resolve_encoding :: "'e Encodings \<Rightarrow> bytes \<Rightarrow> string option \<Rightarrow> string \<Rightarrow> FileError + 'e" where
  "resolve_encoding encs raw encoding_hint req_path =
     (let detect = (if from_utf8_ok raw then Inr (en_utf8 encs) else Inr (en_guess encs raw))
      in case encoding_hint of
           None \<Rightarrow> detect
         | Some name \<Rightarrow>
             if name = [] then detect
             else if eq_ignore_ascii_case name ''utf-8'' \<or> eq_ignore_ascii_case name ''utf8'' then Inr (en_utf8 encs)
             else (case en_for_label encs name of
                     Some e \<Rightarrow> Inr e
                   | None \<Rightarrow> Inl (file_error Encoding req_path (''unknown encoding: '' @ name))))"

abbreviation LF :: u8 where "LF \<equiv> 10"
abbreviation CR :: u8 where "CR \<equiv> 13"

definition compute_line_offsets_raw :: "bytes \<Rightarrow> nat list" where
  "compute_line_offsets_raw bytes =
     (if bytes = [] then []
      else 0 # map Suc (filter (\<lambda>i. bytes ! i = LF \<and> i + 1 < length bytes) [0 ..< length bytes]))"

text \<open>\<^verbatim>\<open>binary_search\<close> on the strictly increasing offsets finds the only equal entry or the place to insert it.\<close>

definition line_index_for_byte :: "nat list \<Rightarrow> nat \<Rightarrow> nat" where
  "line_index_for_byte offsets byte =
     (if byte \<in> set offsets then length (filter (\<lambda>x. x < byte) offsets) else length (filter (\<lambda>x. x < byte) offsets) - 1)"

definition resolve_line_col :: "nat list \<Rightarrow> nat \<Rightarrow> u64 \<Rightarrow> u64 \<Rightarrow> nat \<times> nat" where
  "resolve_line_col offsets raw_len line col =
     (let line_idx = min (saturating_pred line) (length offsets);
          line_start = get_or offsets line_idx raw_len;
          next_start = get_or offsets (line_idx + 1) raw_len
      in (min (usize_add line_start (unat col)) next_start, line_idx))"

definition resolve_start_raw :: "Start option \<Rightarrow> nat list \<Rightarrow> nat \<Rightarrow> nat \<times> nat" where
  "resolve_start_raw start offsets raw_len =
     (case start of
        None \<Rightarrow> (0, 0)
      | Some (StartLine line) \<Rightarrow>
          (let idx = min (saturating_pred line) (length offsets) in (get_or offsets idx raw_len, idx))
      | Some (StartByte byte) \<Rightarrow>
          (let byte = min (unat byte) raw_len in (byte, line_index_for_byte offsets byte))
      | Some (StartLineCol line col) \<Rightarrow> resolve_line_col offsets raw_len line col)"

definition resolve_position_raw :: "Position option \<Rightarrow> nat list \<Rightarrow> nat \<Rightarrow> nat" where
  "resolve_position_raw pos offsets raw_len =
     (case pos of
        Some (PosLine line) \<Rightarrow> get_or offsets (min (saturating_pred line) (length offsets)) raw_len
      | Some (PosByteOffset b) \<Rightarrow> min (unat b) raw_len
      | Some (PosLineCol line col) \<Rightarrow> fst (resolve_line_col offsets raw_len line col)
      | None \<Rightarrow> raw_len)"

fun back_up :: "bytes \<Rightarrow> nat \<Rightarrow> nat" where
  "back_up raw_line 0 = 0"
| "back_up raw_line (Suc n) = (if raw_line ! Suc n AND 0xC0 = 0x80 then back_up raw_line n else Suc n)"

definition truncate_line :: "'e Encodings \<Rightarrow> bytes \<Rightarrow> 'e \<Rightarrow> u32 \<Rightarrow> string \<times> bool \<times> u32" where
  "truncate_line encs raw_line encoding max_width =
     (if max_width = 0 \<or> length raw_line \<le> unat max_width then (en_decode encs encoding raw_line, False, 0)
      else
        (let n = (if encoding = en_utf8 encs then back_up raw_line (unat max_width) else unat max_width)
         in (en_decode encs encoding (take n raw_line), True, word_of_nat (length raw_line - n))))"

subsection \<open>Reading a page of lines\<close>

text \<open>What stays fixed while the lines of a page are read, and the state of the loop.\<close>

record 'e PageEnv =
  pg_raw :: bytes
  pg_offsets :: "nat list"
  pg_start_line_idx :: nat
  pg_start_byte :: nat
  pg_max_lines :: nat
  pg_max_bytes :: nat
  pg_target :: "nat option"
  pg_line :: "bytes \<Rightarrow> string \<times> bool \<times> u32"

record PageState =
  ps_lines :: "TextLine list"
  ps_bytes :: nat
  ps_stop :: StopReason
  ps_end_byte :: nat
  ps_end_line :: nat

definition strip_newline :: "bytes \<Rightarrow> nat \<Rightarrow> nat \<Rightarrow> nat" where
  "strip_newline raw start stop =
     (if start < stop \<and> raw ! (stop - 1) = LF
      then if start < stop - 1 \<and> raw ! (stop - 2) = CR then stop - 2 else stop - 1
      else stop)"

text \<open>One round: \<open>Inr\<close> continues with the next line, \<open>Inl\<close> breaks.\<close>

definition page_line :: "'e PageEnv \<Rightarrow> nat \<Rightarrow> PageState \<Rightarrow> PageState + PageState" where
  "page_line env idx st =
     (if pg_max_bytes env = 0 \<or> pg_max_bytes env \<le> ps_bytes st then Inl (st\<lparr>ps_stop := MaxBytes\<rparr>)
      else if pg_max_lines env \<le> length (ps_lines st) then Inl (st\<lparr>ps_stop := MaxLines\<rparr>)
      else
        (let line_start = pg_offsets env ! idx;
             line_end = get_or (pg_offsets env) (idx + 1) (length (pg_raw env));
             effective_start = (if idx = pg_start_line_idx env then max (pg_start_byte env) line_start else line_start);
             line_bytes_remaining = line_end - effective_start;
             budget_remaining = pg_max_bytes env - ps_bytes st;
             max_bytes_cut = effective_start + min budget_remaining line_bytes_remaining;
             target_end_cut = (case pg_target env of Some t \<Rightarrow> min (max t effective_start) line_end | None \<Rightarrow> line_end);
             consume_end_raw = min max_bytes_cut target_end_cut;
             cut_short_by_max_bytes = max_bytes_cut < line_end;
             cut_short_by_target = target_end_cut < line_end;
             cut_short = cut_short_by_max_bytes \<or> cut_short_by_target
         in if consume_end_raw = effective_start \<and> cut_short_by_target then Inl (st\<lparr>ps_stop := TargetEnd\<rparr>)
            else
              (let display_end_raw = (if cut_short then consume_end_raw else strip_newline (pg_raw env) effective_start consume_end_raw);
                   raw_line = take (display_end_raw - effective_start) (drop effective_start (pg_raw env));
                   (content, truncated, remaining_bytes) = pg_line env raw_line;
                   st = st\<lparr>ps_lines := ps_lines st @ [\<lparr> tl_content = content, tl_line_number = word_of_nat idx + 1,
                            tl_truncated = truncated, tl_remaining_bytes = remaining_bytes \<rparr>],
                          ps_bytes := ps_bytes st + (consume_end_raw - effective_start),
                          ps_end_byte := consume_end_raw, ps_end_line := idx\<rparr>
               in if cut_short_by_target then Inl (st\<lparr>ps_stop := TargetEnd\<rparr>)
                  else if cut_short_by_max_bytes then Inl (st\<lparr>ps_stop := MaxBytes\<rparr>)
                  else Inr st)))"

fun page_loop :: "'e PageEnv \<Rightarrow> nat list \<Rightarrow> PageState \<Rightarrow> PageState" where
  "page_loop env [] st = st"
| "page_loop env (idx # idxs) st = (case page_line env idx st of Inl st \<Rightarrow> st | Inr st \<Rightarrow> page_loop env idxs st)"

definition read_page :: "'e PageEnv \<Rightarrow> PageState" where
  "read_page env =
     (let st = page_loop env [pg_start_line_idx env ..< length (pg_offsets env)]
            \<lparr> ps_lines = [], ps_bytes = 0, ps_stop = FileEnd, ps_end_byte = pg_start_byte env, ps_end_line = pg_start_line_idx env \<rparr>
      in if pg_max_lines env \<le> length (ps_lines st) \<and> ps_stop st = FileEnd then st\<lparr>ps_stop := MaxLines\<rparr> else st)"

definition page_env :: "'e Encodings \<Rightarrow> 'e \<Rightarrow> FileReadText \<Rightarrow> bytes \<Rightarrow> u64 \<Rightarrow> 'e PageEnv" where
  "page_env encs encoding req raw max_read_bytes =
     (let line_offsets = compute_line_offsets_raw raw;
          (start_byte, start_line_idx) = resolve_start_raw (rq_start req) line_offsets (length raw);
          max_line_width = (case rq_max_line_width req of Some w \<Rightarrow> w | None \<Rightarrow> DEFAULT_MAX_LINE_WIDTH)
      in \<lparr> pg_raw = raw, pg_offsets = line_offsets, pg_start_line_idx = start_line_idx, pg_start_byte = start_byte,
           pg_max_lines = unat (case rq_max_lines req of Some n \<Rightarrow> n | None \<Rightarrow> DEFAULT_MAX_LINES),
           pg_max_bytes = unat (min (case rq_max_bytes req of Some n \<Rightarrow> n | None \<Rightarrow> DEFAULT_MAX_BYTES) max_read_bytes),
           pg_target = map_option (\<lambda>t. resolve_position_raw t line_offsets (length raw)) (rq_target_end req),
           pg_line = (\<lambda>raw_line. truncate_line encs raw_line encoding max_line_width) \<rparr>)"

definition page_result :: "'e Encodings \<Rightarrow> 'e \<Rightarrow> 'e PageEnv \<Rightarrow> u64 \<Rightarrow> FileReadTextResult" where
  "page_result encs encoding env total_file_bytes =
     (let st = read_page env;
          raw_len = length (pg_raw env);
          start_line_byte_raw = get_or (pg_offsets env) (pg_start_line_idx env) raw_len;
          end_line_start_raw = get_or (pg_offsets env) (ps_end_line st) raw_len
      in \<lparr> rr_lines = ps_lines st, rr_stop_reason = ps_stop st,
           rr_start_pos = \<lparr> po_line = word_of_nat (pg_start_line_idx env) + 1, po_byte_in_file = word_of_nat (pg_start_byte env),
                            po_byte_in_line = word_of_nat (usize_sub (pg_start_byte env) start_line_byte_raw) \<rparr>,
           rr_end_pos = \<lparr> po_line = word_of_nat (ps_end_line st) + 1, po_byte_in_file = word_of_nat (ps_end_byte st),
                          po_byte_in_line = word_of_nat (ps_end_byte st - end_line_start_raw) \<rparr>,
           rr_remaining_bytes = word_of_nat (raw_len - ps_end_byte st), rr_total_file_bytes = total_file_bytes,
           rr_total_lines = word_of_nat (length (pg_offsets env)), rr_detected_encoding = en_enc_name encs encoding \<rparr>)"

definition stat_regular :: "'s FsOps \<Rightarrow> 's \<Rightarrow> path \<Rightarrow> string \<Rightarrow> bool \<Rightarrow> FileError + u64" where
  "stat_regular ops s resolved req_path no_follow_symlink =
     (case (if no_follow_symlink then fs_symlink_metadata ops s resolved else fs_metadata ops s resolved) of
        Inl e \<Rightarrow> Inl (io_err resolved e)
      | Inr metadata \<Rightarrow>
          if md_type metadata \<noteq> FtFile then Inl (file_error IsADirectory req_path ''path is not a regular file'')
          else Inr (md_len metadata))"

definition handle_read_text ::
  "'e Encodings \<Rightarrow> 's FsOps \<Rightarrow> 's \<Rightarrow> FileReadText \<Rightarrow> path \<Rightarrow> u64 \<Rightarrow> FileError + FileReadTextResult" where
  "handle_read_text encs ops s req resolved max_read_bytes =
     (case stat_regular ops s resolved (rq_path req) (rq_no_follow_symlink req) of
        Inl e \<Rightarrow> Inl e
      | Inr total_file_bytes \<Rightarrow>
          if max_read_bytes < total_file_bytes
          then Inl (file_error TooLarge (rq_path req)
                 (''file size '' @ show_nat (unat total_file_bytes) @ '' exceeds max_read_bytes ('' @ show_nat (unat max_read_bytes) @ '')''))
          else (case fs_read ops s resolved of
                  Inl e \<Rightarrow> Inl (io_err resolved e)
                | Inr raw \<Rightarrow>
                    (case resolve_encoding encs raw (rq_encoding req) (rq_path req) of
                       Inl e \<Rightarrow> Inl e
                     | Inr encoding \<Rightarrow>
                         Inr (page_result encs encoding (page_env encs encoding req raw max_read_bytes) total_file_bytes))))"

subsection \<open>Reading a range of bytes\<close>

record FileReadBinary =
  rb_path :: string
  rb_byte_offset :: u64
  rb_byte_length :: u64
  rb_max_bytes :: "u64 option"
  rb_no_follow_symlink :: bool

record FileReadBinaryResult =
  br_content :: bytes
  br_byte_offset :: u64
  br_bytes_read :: u64
  br_total_file_bytes :: u64
  br_remaining_bytes :: u64

definition DEFAULT_BINARY_MAX :: u64 where
  "DEFAULT_BINARY_MAX = 1048576"

function fill :: "(nat \<Rightarrow> nat \<Rightarrow> IoError + bytes) \<Rightarrow> nat \<Rightarrow> nat \<Rightarrow> bytes \<Rightarrow> IoError + bytes" where
  "fill read_at offset len buf =
     (if length buf < len
      then (case read_at (offset + length buf) (len - length buf) of
              Inl e \<Rightarrow> Inl e
            | Inr chunk \<Rightarrow> if chunk = [] then Inr buf else fill read_at offset len (buf @ chunk))
      else Inr buf)"
  by pat_completeness auto
termination
proof (relation "measure (\<lambda>(read_at, offset, len, buf). len - length buf)")
  fix read_at :: "nat \<Rightarrow> nat \<Rightarrow> IoError + bytes" and offset len :: nat and buf chunk :: bytes
  assume "length buf < len" and "chunk \<noteq> []"
  then show "((read_at, offset, len, buf @ chunk), read_at, offset, len, buf) \<in> measure (\<lambda>(read_at, offset, len, buf). len - length buf)"
    by (cases chunk) auto
qed simp

declare fill.simps [simp del]

definition handle_read_binary :: "'s FsOps \<Rightarrow> 's \<Rightarrow> FileReadBinary \<Rightarrow> path \<Rightarrow> u64 \<Rightarrow> FileError + FileReadBinaryResult" where
  "handle_read_binary ops s req resolved max_read_bytes =
     (case stat_regular ops s resolved (rb_path req) (rb_no_follow_symlink req) of
        Inl e \<Rightarrow> Inl e
      | Inr total_file_bytes \<Rightarrow>
          (let max = min (case rb_max_bytes req of Some n \<Rightarrow> n | None \<Rightarrow> DEFAULT_BINARY_MAX) max_read_bytes;
               byte_offset = rb_byte_offset req
           in if total_file_bytes \<le> byte_offset
              then Inr \<lparr> br_content = [], br_byte_offset = byte_offset, br_bytes_read = 0, br_total_file_bytes = total_file_bytes,
                         br_remaining_bytes = 0 \<rparr>
              else
                (let available = total_file_bytes - byte_offset;
                     requested = (if rb_byte_length req = 0 then available else min (rb_byte_length req) available);
                     length' = min requested max
                 in case fill (fs_read_at ops s resolved) (unat byte_offset) (unat length') [] of
                      Inl e \<Rightarrow> Inl (io_err resolved e)
                    | Inr buf \<Rightarrow>
                        (let bytes_read = word_of_nat (length buf);
                             position = byte_offset + bytes_read
                         in Inr \<lparr> br_content = buf, br_byte_offset = byte_offset, br_bytes_read = bytes_read,
                                  br_total_file_bytes = total_file_bytes,
                                  br_remaining_bytes = (if position \<le> total_file_bytes then total_file_bytes - position else 0) \<rparr>))))"

subsection \<open>Specification\<close>

definition segment :: "'a list \<Rightarrow> nat \<Rightarrow> nat \<Rightarrow> 'a list" where
  "segment xs a b = take (b - a) (drop a xs)"

text \<open>The lines of a text, each with its terminator, and a line without it.\<close>

fun split_lines :: "bytes \<Rightarrow> bytes list" where
  "split_lines [] = []"
| "split_lines (b # bs) = (if b = LF then [b] # split_lines bs else (case split_lines bs of [] \<Rightarrow> [[b]] | l # ls \<Rightarrow> (b # l) # ls))"

definition strip_eol :: "bytes \<Rightarrow> bytes" where
  "strip_eol l =
     (if l \<noteq> [] \<and> last l = LF
      then if butlast l \<noteq> [] \<and> last (butlast l) = CR then butlast (butlast l) else butlast l
      else l)"

section \<open>Lines\<close>

lemma concat_split_lines: "concat (split_lines xs) = xs"
  by (induction xs) (auto split: list.splits)

lemma split_lines_eq_Nil: "split_lines xs = [] \<longleftrightarrow> xs = []"
  by (cases xs) (auto split: list.splits)

lemma split_lines_append: "xs \<noteq> [] \<Longrightarrow> last xs = LF \<Longrightarrow> split_lines (xs @ ys) = split_lines xs @ split_lines ys"
proof (induction xs)
  case (Cons x xs)
  show ?case
  proof (cases "xs = []")
    case False
    with Cons have IH: "split_lines (xs @ ys) = split_lines xs @ split_lines ys" by simp
    moreover obtain l ls where "split_lines xs = l # ls" using False split_lines_eq_Nil [of xs] by (cases "split_lines xs") auto
    ultimately show ?thesis by simp
  qed (use Cons in simp)
qed simp

lemma split_lines_single: "l \<noteq> [] \<Longrightarrow> LF \<notin> set (butlast l) \<Longrightarrow> split_lines l = [l]"
proof (induction l)
  case (Cons x l)
  show ?case
  proof (cases "l = []")
    case False
    with Cons show ?thesis by auto
  qed simp
qed simp

lemma segment_append: "a \<le> b \<Longrightarrow> b \<le> c \<Longrightarrow> segment xs a b @ segment xs b c = segment xs a c"
proof -
  assume "a \<le> b" "b \<le> c"
  then have "take (c - a) (drop a xs) = take (b - a) (drop a xs) @ take (c - a - (b - a)) (drop (b - a) (drop a xs))"
    by (metis diff_le_mono le_add_diff_inverse take_add)
  with \<open>a \<le> b\<close> \<open>b \<le> c\<close> show ?thesis by (simp add: segment_def)
qed

lemma segment_same [simp]: "segment xs a a = []"
  by (simp add: segment_def)

lemma length_segment: "b \<le> length xs \<Longrightarrow> length (segment xs a b) = b - a"
  by (simp add: segment_def)

lemma nth_segment: "i < b - a \<Longrightarrow> b \<le> length xs \<Longrightarrow> segment xs a b ! i = xs ! (a + i)"
  by (simp add: segment_def)

lemma last_segment: "a < b \<Longrightarrow> b \<le> length xs \<Longrightarrow> last (segment xs a b) = xs ! (b - 1)"
  using length_segment [of b xs a] nth_segment [of "b - a - 1" b a xs]
  by (cases "segment xs a b = []") (simp_all add: last_conv_nth)

lemma butlast_segment: "b \<le> length xs \<Longrightarrow> butlast (segment xs a b) = segment xs a (b - 1)"
  by (simp add: segment_def butlast_take)

lemma segment_eq_Nil: "b \<le> length xs \<Longrightarrow> segment xs a b = [] \<longleftrightarrow> b \<le> a"
  using length_segment [of b xs a] by (cases "segment xs a b") simp_all

lemma set_segment: "b \<le> length xs \<Longrightarrow> set (segment xs a b) = {xs ! k |k. a \<le> k \<and> k < b}"
proof -
  assume b: "b \<le> length xs"
  have "set (segment xs a b) = {xs ! (a + i) |i. i < b - a}"
    by (auto simp: set_conv_nth length_segment [OF b] nth_segment [OF _ b]) (use nth_segment [OF _ b] in metis)
  also have "\<dots> = {xs ! k |k. a \<le> k \<and> k < b}"
  proof -
    have "\<exists>i. xs ! k = xs ! (a + i) \<and> i < b - a" if "a \<le> k" "k < b" for k
      using that by (intro exI [of _ "k - a"]) auto
    then show ?thesis by fastforce
  qed
  finally show ?thesis .
qed

lemma strip_newline_segment:
  "b \<le> length xs \<Longrightarrow> a \<le> b \<Longrightarrow> segment xs a (strip_newline xs a b) = strip_eol (segment xs a b)"
  by (auto simp: strip_newline_def strip_eol_def segment_eq_Nil last_segment butlast_segment numeral_2_eq_2)

subsection \<open>Line offsets\<close>

lemma offsets_set:
  "set (compute_line_offsets_raw raw) = (if raw = [] then {} else {0} \<union> {Suc j |j. raw ! j = LF \<and> Suc j < length raw})"
  by (auto simp: compute_line_offsets_raw_def)

lemma offsets_sorted: "sorted_wrt (<) (compute_line_offsets_raw raw)"
proof -
  have "sorted_wrt (\<lambda>x y. Suc x < Suc y) (filter (\<lambda>i. raw ! i = LF \<and> i + 1 < length raw) [0 ..< length raw])"
    by (intro sorted_wrt_filter) simp
  then show ?thesis by (auto simp: compute_line_offsets_raw_def sorted_wrt_map)
qed

lemma offsets_0: "raw \<noteq> [] \<Longrightarrow> compute_line_offsets_raw raw ! 0 = 0 \<and> 0 < length (compute_line_offsets_raw raw)"
  by (simp add: compute_line_offsets_raw_def)

lemma sorted_index: "sorted_wrt (<) (xs :: nat list) \<Longrightarrow> i < length xs \<Longrightarrow> xs ! i < b \<longleftrightarrow> i < length (filter (\<lambda>x. x < b) xs)"
proof (induction xs arbitrary: i)
  case (Cons x xs)
  show ?case
  proof (cases "x < b")
    case True
    with Cons show ?thesis by (cases i) auto
  next
    case False
    then have "filter (\<lambda>y. y < b) xs = []" "\<not> (x # xs) ! i < b"
      using Cons.prems by (auto simp: filter_empty_conv nth_Cons split: nat.splits dest!: nth_mem)
    with False show ?thesis by simp
  qed
qed simp

definition line_end :: "bytes \<Rightarrow> nat \<Rightarrow> nat" where
  "line_end raw i = get_or (compute_line_offsets_raw raw) (i + 1) (length raw)"

lemma offset_less: "x \<in> set (compute_line_offsets_raw raw) \<Longrightarrow> x < length raw"
  by (auto simp: offsets_set split: if_splits)

lemma line_end_bounds:
  assumes "i < length (compute_line_offsets_raw raw)"
  shows "compute_line_offsets_raw raw ! i < line_end raw i" and "line_end raw i \<le> length raw"
proof -
  define xs where "xs = compute_line_offsets_raw raw"
  have less: "xs ! j < length raw" if "j < length xs" for j
    using offset_less nth_mem [OF that] by (simp add: xs_def)
  have next_less: "xs ! i < xs ! (i + 1)" if "i + 1 < length xs"
    using sorted_wrt_nth_less [of "(<)" xs i "i + 1"] offsets_sorted [of raw] that by (simp add: xs_def)
  show "compute_line_offsets_raw raw ! i < line_end raw i"
    using less [of i] next_less assms by (simp add: line_end_def get_or_def flip: xs_def)
  show "line_end raw i \<le> length raw"
    using less [of "i + 1"] by (auto simp: line_end_def get_or_def simp flip: xs_def)
qed

lemma no_newline_inside:
  assumes "i < length (compute_line_offsets_raw raw)" and "compute_line_offsets_raw raw ! i \<le> k" and "Suc k < line_end raw i"
  shows "raw ! k \<noteq> LF"
proof
  define xs where "xs = compute_line_offsets_raw raw"
  have less: "xs ! a < xs ! b" if "a < b" "b < length xs" for a b
    using sorted_wrt_nth_less [of "(<)" xs a b] offsets_sorted [of raw] that by (simp add: xs_def)
  assume "raw ! k = LF"
  moreover have "Suc k < length raw" using assms(3) line_end_bounds(2) [OF assms(1)] by simp
  ultimately have "Suc k \<in> set xs" by (auto simp: xs_def offsets_set)
  then obtain j where j: "j < length xs" "xs ! j = Suc k" by (auto simp: in_set_conv_nth)
  have "\<not> j < i" using less [of j i] assms(1,2) j(2) by (auto simp: xs_def)
  moreover have "j \<noteq> i" using assms(2) j(2) by (auto simp: xs_def)
  ultimately have "i < j" by simp
  then have "line_end raw i = xs ! (i + 1)" using j(1) by (simp add: line_end_def get_or_def xs_def)
  moreover have "xs ! (i + 1) \<le> xs ! j" using less [of "i + 1" j] \<open>i < j\<close> j(1) by (cases "j = i + 1") auto
  ultimately show False using j(2) assms(3) by simp
qed

lemma newline_at_end:
  assumes "Suc i < length (compute_line_offsets_raw raw)"
  shows "raw ! (line_end raw i - 1) = LF"
proof -
  obtain e where e: "line_end raw i = e" by simp
  have "e \<in> set (compute_line_offsets_raw raw)" using e nth_mem [OF assms] by (simp add: assms line_end_def get_or_def)
  moreover have "0 < e" using e line_end_bounds(1) [of i raw] assms by simp
  ultimately obtain j where "e = Suc j" "raw ! j = LF" unfolding offsets_set by (auto split: if_splits)
  with e show ?thesis by simp
qed

lemma line_index_for_byte:
  assumes "b < length raw" and i: "i = line_index_for_byte (compute_line_offsets_raw raw) b"
  shows "i < length (compute_line_offsets_raw raw) \<and> compute_line_offsets_raw raw ! i \<le> b \<and> b < line_end raw i"
proof -
  define xs where "xs = compute_line_offsets_raw raw"
  define m where "m = length (filter (\<lambda>x. x < b) xs)"
  have sorted: "sorted_wrt (<) xs" unfolding xs_def by (rule offsets_sorted)
  have index: "xs ! j < b \<longleftrightarrow> j < m" if "j < length xs" for j
    unfolding m_def using sorted that by (rule sorted_index)
  have m: "m \<le> length xs" unfolding m_def by (rule length_filter_le)
  have raw: "raw \<noteq> []" using assms(1) by auto
  have xs0: "xs ! 0 = 0" "0 < length xs" using offsets_0 [OF raw] by (simp_all add: xs_def)
  have i: "i = (if b \<in> set xs then m else m - 1)" by (simp add: i line_index_for_byte_def xs_def m_def)
  have "i < length xs \<and> xs ! i \<le> b \<and> b < line_end raw i"
  proof (cases "b \<in> set xs")
    case True
    then obtain j where j: "j < length xs" "xs ! j = b" by (auto simp: in_set_conv_nth)
    have "m \<le> j" using index [OF j(1)] j(2) by simp
    moreover have "\<not> m < j" using index [of m] sorted_wrt_nth_less [OF sorted, of m j] j by auto
    ultimately have "i = j" using True i by simp
    with j line_end_bounds(1) [of j raw] show ?thesis by (simp add: xs_def)
  next
    case False
    then have "0 < b" using xs0 nth_mem [of 0 xs] by (cases b) auto
    then have m0: "0 < m" using index [OF xs0(2)] xs0(1) by simp
    have i': "i = m - 1" using False i by simp
    then have "i < length xs" using m m0 by linarith
    moreover from this have "xs ! i < b" using index [of i] i' m0 by simp
    moreover have "b < line_end raw i"
    proof (cases "m < length xs")
      case True
      have "xs ! m \<noteq> b" using False nth_mem [OF True] by metis
      then have "b < xs ! m" using index [OF True] by simp
      moreover have "line_end raw i = xs ! m" using True i' m0 by (simp add: line_end_def get_or_def xs_def)
      ultimately show ?thesis by simp
    next
      case False
      then have "line_end raw i = length raw" using i' m0 by (simp add: line_end_def get_or_def xs_def)
      then show ?thesis using assms(1) by simp
    qed
    ultimately show ?thesis by simp
  qed
  then show ?thesis by (simp add: xs_def)
qed

section \<open>A page\<close>

definition line_parts :: "TextLine \<Rightarrow> string \<times> bool \<times> u32" where
  "line_parts l = (tl_content l, tl_truncated l, tl_remaining_bytes l)"

text \<open>A page that starts inside its first line.\<close>

definition page_wf :: "'e PageEnv \<Rightarrow> bool" where
  "page_wf env \<longleftrightarrow> pg_offsets env = compute_line_offsets_raw (pg_raw env) \<and> pg_start_line_idx env < length (pg_offsets env) \<and>
     pg_offsets env ! pg_start_line_idx env \<le> pg_start_byte env \<and> pg_start_byte env < line_end (pg_raw env) (pg_start_line_idx env)"

text \<open>The lines of a state show exactly the bytes from the start up to its end, within the limits.\<close>

definition page_ok :: "'e PageEnv \<Rightarrow> PageState \<Rightarrow> bool" where
  "page_ok env st \<longleftrightarrow>
     pg_start_byte env \<le> ps_end_byte st \<and> ps_end_byte st \<le> length (pg_raw env) \<and>
     ps_bytes st = ps_end_byte st - pg_start_byte env \<and> ps_bytes st \<le> pg_max_bytes env \<and>
     length (ps_lines st) \<le> pg_max_lines env \<and>
     map line_parts (ps_lines st) = map (pg_line env \<circ> strip_eol) (split_lines (segment (pg_raw env) (pg_start_byte env) (ps_end_byte st))) \<and>
     map tl_line_number (ps_lines st) =
       map (\<lambda>i. word_of_nat i + 1) [pg_start_line_idx env ..< pg_start_line_idx env + length (ps_lines st)] \<and>
     (\<forall>t. pg_target env = Some t \<longrightarrow> ps_end_byte st \<le> max t (pg_start_byte env))"

definition stop_ok :: "'e PageEnv \<Rightarrow> PageState \<Rightarrow> bool" where
  "stop_ok env st \<longleftrightarrow>
     (case ps_stop st of
        FileEnd \<Rightarrow> ps_end_byte st = length (pg_raw env)
      | MaxBytes \<Rightarrow> ps_bytes st = pg_max_bytes env
      | MaxLines \<Rightarrow> length (ps_lines st) = pg_max_lines env
      | TargetEnd \<Rightarrow> \<exists>t. pg_target env = Some t \<and> (ps_end_byte st = max t (pg_start_byte env) \<or> ps_bytes st = pg_max_bytes env))"

definition page_pos :: "'e PageEnv \<Rightarrow> nat \<Rightarrow> nat" where
  "page_pos env idx = (if idx = pg_start_line_idx env then pg_start_byte env else get_or (pg_offsets env) idx (length (pg_raw env)))"

definition at_line :: "'e PageEnv \<Rightarrow> nat \<Rightarrow> PageState \<Rightarrow> bool" where
  "at_line env idx st \<longleftrightarrow> page_ok env st \<and> ps_stop st = FileEnd \<and> ps_end_byte st = page_pos env idx \<and>
     pg_start_line_idx env + length (ps_lines st) = idx"

lemma page_pos_bounds:
  assumes "page_wf env" and "pg_start_line_idx env \<le> idx" and "idx < length (pg_offsets env)"
  shows "pg_offsets env ! idx \<le> page_pos env idx" and "page_pos env idx < line_end (pg_raw env) idx"
    and "page_pos env (Suc idx) = line_end (pg_raw env) idx" and "line_end (pg_raw env) idx \<le> length (pg_raw env)"
    and "idx \<noteq> pg_start_line_idx env \<Longrightarrow> page_pos env idx = pg_offsets env ! idx"
  using assms line_end_bounds [of idx "pg_raw env"]
  by (auto simp: page_wf_def page_pos_def get_or_def line_end_def)

lemma at_line_extend:
  assumes wf: "page_wf env" and idx: "pg_start_line_idx env \<le> idx" "idx < length (pg_offsets env)"
    and at: "at_line env idx st" and e: "page_pos env idx < e" "e \<le> line_end (pg_raw env) idx"
    and limits: "e - page_pos env idx \<le> pg_max_bytes env - ps_bytes st" "length (ps_lines st) < pg_max_lines env"
    and target: "\<forall>t. pg_target env = Some t \<longrightarrow> e \<le> max t (page_pos env idx)"
    and parts: "line_parts l = pg_line env (strip_eol (segment (pg_raw env) (page_pos env idx) e))"
    and number: "tl_line_number l = word_of_nat idx + 1"
  shows "page_ok env (st\<lparr>ps_lines := ps_lines st @ [l], ps_bytes := ps_bytes st + (e - page_pos env idx), ps_end_byte := e, ps_end_line := idx, ps_stop := r\<rparr>)"
proof -
  let ?raw = "pg_raw env" and ?s = "pg_start_byte env" and ?p = "page_pos env idx"
  note bounds = page_pos_bounds [OF wf idx]
  from at have ok: "page_ok env st" and pos: "ps_end_byte st = ?p" and len: "pg_start_line_idx env + length (ps_lines st) = idx"
    by (simp_all add: at_line_def)
  from ok pos have sp: "?s \<le> ?p" by (simp add: page_ok_def)
  have le: "e \<le> length ?raw" using e(2) bounds(4) by simp
  have "LF \<notin> set (butlast (segment ?raw ?p e))"
  proof
    assume "LF \<in> set (butlast (segment ?raw ?p e))"
    then obtain k where k: "?p \<le> k" "k < e - 1" "?raw ! k = LF" using le by (auto simp: butlast_segment set_segment)
    from k(2) e(2) have "Suc k < line_end ?raw idx" by simp
    with no_newline_inside [of idx ?raw k] k(1,3) bounds(1) idx(2) wf show False by (simp add: page_wf_def)
  qed
  then have single: "split_lines (segment ?raw ?p e) = [segment ?raw ?p e]"
    using e(1) le by (intro split_lines_single) (simp_all add: segment_eq_Nil)
  have "split_lines (segment ?raw ?s e) = split_lines (segment ?raw ?s ?p) @ [segment ?raw ?p e]"
  proof (cases "?s = ?p")
    case True
    then show ?thesis by (simp add: single)
  next
    case False
    with sp have lt: "?s < ?p" by simp
    then have ne: "idx \<noteq> pg_start_line_idx env" by (auto simp: page_pos_def)
    then obtain j where j: "idx = Suc j" "pg_start_line_idx env \<le> j" using idx(1) by (cases idx) auto
    then have "?p = line_end ?raw j" using page_pos_bounds(3) [OF wf j(2)] idx(2) by simp
    then have "?raw ! (?p - 1) = LF" using newline_at_end [of j ?raw] idx(2) wf j(1) by (simp add: page_wf_def)
    then have "last (segment ?raw ?s ?p) = LF" using lt e(1) le by (simp add: last_segment)
    then show ?thesis
      using split_lines_append [of "segment ?raw ?s ?p" "segment ?raw ?p e"] lt e(1) le single
      by (simp add: segment_append segment_eq_Nil)
  qed
  moreover have "e \<le> max t ?s" if "pg_target env = Some t" for t
    using target that e(1) by (cases "t \<le> ?p") (auto simp: max_def split: if_splits)
  moreover have "[pg_start_line_idx env ..< Suc idx] = [pg_start_line_idx env ..< idx] @ [idx]" using idx(1) by simp
  ultimately show ?thesis
    using ok pos len sp e le limits parts number by (auto simp: page_ok_def)
qed

lemma page_line_step:
  assumes wf: "page_wf env" and idx: "pg_start_line_idx env \<le> idx" "idx < length (pg_offsets env)" and at: "at_line env idx st"
  shows "case page_line env idx st of Inr st' \<Rightarrow> at_line env (Suc idx) st' | Inl st' \<Rightarrow> page_ok env st' \<and> stop_ok env st'"
proof -
  let ?raw = "pg_raw env" and ?p = "page_pos env idx" and ?E = "line_end (pg_raw env) idx"
  note bounds = page_pos_bounds [OF wf idx]
  from at have ok: "page_ok env st" and pos: "ps_end_byte st = ?p" and stop: "ps_stop st = FileEnd"
    and len: "pg_start_line_idx env + length (ps_lines st) = idx"
    by (simp_all add: at_line_def)
  have eff: "(if idx = pg_start_line_idx env then max (pg_start_byte env) (pg_offsets env ! idx) else pg_offsets env ! idx) = ?p"
    using bounds(1,5) by (auto simp: page_pos_def max_def)
  have E: "get_or (pg_offsets env) (idx + 1) (length ?raw) = ?E" using wf by (simp add: page_wf_def line_end_def)
  define mc where "mc = ?p + min (pg_max_bytes env - ps_bytes st) (?E - ?p)"
  define tc where "tc = (case pg_target env of Some t \<Rightarrow> min (max t ?p) ?E | None \<Rightarrow> ?E)"
  define e where "e = min mc tc"
  define d where "d = (if mc < ?E \<or> tc < ?E then e else strip_newline ?raw ?p e)"
  define l where "l = (case pg_line env (take (d - ?p) (drop ?p ?raw)) of (c, tr, rem) \<Rightarrow>
    \<lparr> tl_content = c, tl_line_number = word_of_nat idx + 1, tl_truncated = tr, tl_remaining_bytes = rem \<rparr>)"
  define st' where "st' = st\<lparr>ps_lines := ps_lines st @ [l], ps_bytes := ps_bytes st + (e - ?p), ps_end_byte := e, ps_end_line := idx\<rparr>"
  have line: "page_line env idx st =
      (if pg_max_bytes env = 0 \<or> pg_max_bytes env \<le> ps_bytes st then Inl (st\<lparr>ps_stop := MaxBytes\<rparr>)
       else if pg_max_lines env \<le> length (ps_lines st) then Inl (st\<lparr>ps_stop := MaxLines\<rparr>)
       else if e = ?p \<and> tc < ?E then Inl (st\<lparr>ps_stop := TargetEnd\<rparr>)
       else if tc < ?E then Inl (st'\<lparr>ps_stop := TargetEnd\<rparr>)
       else if mc < ?E then Inl (st'\<lparr>ps_stop := MaxBytes\<rparr>)
       else Inr st')"
    unfolding page_line_def Let_def eff E mc_def [symmetric] tc_def [symmetric] e_def [symmetric] d_def [symmetric]
    by (simp add: st'_def l_def split: prod.split)
  show ?thesis
  proof (cases "pg_max_bytes env \<le> ps_bytes st \<or> pg_max_lines env \<le> length (ps_lines st)")
    case True
    then show ?thesis using ok by (auto simp: line page_ok_def stop_ok_def)
  next
    case False
    then have budget: "ps_bytes st < pg_max_bytes env" and room: "length (ps_lines st) < pg_max_lines env" by auto
    have mc: "?p < mc" "mc \<le> ?E" using budget bounds(2) by (auto simp: mc_def)
    have tc: "?p \<le> tc" "tc \<le> ?E" using bounds(2) by (auto simp: tc_def split: option.splits)
    have le: "e \<le> ?E" "?E \<le> length ?raw" using mc(2) bounds(4) by (auto simp: e_def)
    have at_target: "\<exists>t. pg_target env = Some t \<and> tc = max t (pg_start_byte env)" if "tc < ?E"
    proof -
      from that obtain t where t: "pg_target env = Some t" "tc = max t ?p" by (auto simp: tc_def min_def split: option.splits if_splits)
      have "?p \<le> max t (pg_start_byte env)" "pg_start_byte env \<le> ?p" using ok pos t(1) by (auto simp: page_ok_def)
      with t show ?thesis by (auto simp: max_def split: if_splits)
    qed
    show ?thesis
    proof (cases "e = ?p")
      case True
      with mc(1) have "tc = ?p" by (auto simp: e_def min_def split: if_splits)
      with bounds(2) at_target True budget room ok pos show ?thesis by (auto simp: line page_ok_def stop_ok_def)
    next
      case False
      then have pe: "?p < e" using mc(1) tc(1) by (auto simp: e_def)
      have "strip_eol (segment ?raw ?p e) = segment ?raw ?p d"
      proof (cases "mc < ?E \<or> tc < ?E")
        case True
        then have "Suc (e - 1) < ?E" using pe by (auto simp: e_def)
        moreover have "pg_offsets env ! idx \<le> e - 1" using bounds(1) pe by simp
        ultimately have "?raw ! (e - 1) \<noteq> LF" using no_newline_inside [of idx ?raw "e - 1"] idx(2) wf by (simp add: page_wf_def)
        with True pe le show ?thesis by (simp add: d_def strip_eol_def last_segment)
      next
        case False
        with strip_newline_segment [of e ?raw ?p] pe le show ?thesis by (simp add: d_def)
      qed
      then have parts: "line_parts l = pg_line env (strip_eol (segment ?raw ?p e))"
        by (simp add: l_def line_parts_def segment_def split: prod.splits)
      have number: "tl_line_number l = word_of_nat idx + 1" by (simp add: l_def split: prod.splits)
      have "e - ?p \<le> pg_max_bytes env - ps_bytes st" by (auto simp: e_def mc_def)
      moreover have "\<forall>t. pg_target env = Some t \<longrightarrow> e \<le> max t ?p" by (auto simp: e_def tc_def)
      ultimately have ok': "page_ok env (st'\<lparr>ps_stop := r\<rparr>)" for r
        using at_line_extend [OF wf idx at pe le(1) _ room _ parts number, of r] by (simp add: st'_def)
      from ok' [of FileEnd] have "at_line env (Suc idx) st'" if "e = ?E"
        using that bounds(3) len stop by (simp add: at_line_def st'_def page_ok_def)
      moreover have "stop_ok env (st'\<lparr>ps_stop := TargetEnd\<rparr>)" if "tc < ?E"
        using at_target [OF that] that budget ok by (auto simp: stop_ok_def st'_def e_def mc_def min_def split: if_splits)
      moreover have "stop_ok env (st'\<lparr>ps_stop := MaxBytes\<rparr>)" if "mc < ?E" "\<not> tc < ?E"
        using that budget tc(2) by (auto simp: stop_ok_def st'_def e_def mc_def min_def split: if_splits)
      moreover have "e = ?E" if "\<not> mc < ?E" "\<not> tc < ?E" using that mc(2) tc(2) by (simp add: e_def)
      ultimately show ?thesis using budget room False ok' by (auto simp: line)
    qed
  qed
qed

lemma page_loop_ok:
  assumes "page_wf env" and "pg_start_line_idx env \<le> idx" and "idx \<le> length (pg_offsets env)" and "at_line env idx st"
  shows "page_ok env (page_loop env [idx ..< length (pg_offsets env)] st) \<and> stop_ok env (page_loop env [idx ..< length (pg_offsets env)] st)"
  using assms(2,3,4)
proof (induction "length (pg_offsets env) - idx" arbitrary: idx st)
  case 0
  then have idx: "idx = length (pg_offsets env)" by simp
  with assms(1) have "page_pos env idx = length (pg_raw env)" by (auto simp: page_pos_def page_wf_def get_or_def)
  with idx 0 show ?case by (simp add: at_line_def stop_ok_def)
next
  case (Suc n)
  then have idx: "idx < length (pg_offsets env)" by simp
  have IH: "at_line env (Suc idx) st' \<Longrightarrow> page_ok env (page_loop env [Suc idx ..< length (pg_offsets env)] st') \<and>
      stop_ok env (page_loop env [Suc idx ..< length (pg_offsets env)] st')" for st'
    using Suc.hyps(1) [of "Suc idx" st'] Suc.hyps(2) Suc.prems(1) idx by simp
  from page_line_step [OF assms(1) Suc.prems(1) idx Suc.prems(3)] IH show ?case
    by (auto simp: upt_conv_Cons [OF idx] split: sum.splits)
qed

lemma read_page_ok: "page_wf env \<Longrightarrow> page_ok env (read_page env) \<and> stop_ok env (read_page env)"
proof -
  assume wf: "page_wf env"
  let ?st = "\<lparr> ps_lines = [], ps_bytes = 0, ps_stop = FileEnd, ps_end_byte = pg_start_byte env, ps_end_line = pg_start_line_idx env \<rparr>"
  from wf have idx: "pg_start_line_idx env < length (pg_offsets env)" unfolding page_wf_def by blast
  have "pg_start_byte env \<le> length (pg_raw env)" using page_pos_bounds [OF wf order.refl idx] by (simp add: page_pos_def)
  then have "at_line env (pg_start_line_idx env) ?st" by (simp add: at_line_def page_ok_def page_pos_def)
  from page_loop_ok [OF wf order.refl less_imp_le [OF idx] this] show ?thesis
    by (auto simp: read_page_def Let_def page_ok_def stop_ok_def)
qed

subsection \<open>Requests\<close>

text \<open>A start inside the file, and inside the line it names.\<close>

definition starts_inside :: "Start option \<Rightarrow> bytes \<Rightarrow> bool" where
  "starts_inside start raw \<longleftrightarrow>
     (let offsets = compute_line_offsets_raw raw
      in case start of
           None \<Rightarrow> raw \<noteq> []
         | Some (StartLine line) \<Rightarrow> saturating_pred line < length offsets
         | Some (StartByte byte) \<Rightarrow> unat byte < length raw
         | Some (StartLineCol line col) \<Rightarrow>
             saturating_pred line < length offsets \<and> offsets ! saturating_pred line + unat col < line_end raw (saturating_pred line))"

lemma starts_inside_page:
  assumes "starts_inside start raw" and "length raw < 2 ^ 64"
  shows "\<exists>b i. resolve_start_raw start (compute_line_offsets_raw raw) (length raw) = (b, i) \<and>
    i < length (compute_line_offsets_raw raw) \<and> compute_line_offsets_raw raw ! i \<le> b \<and> b < line_end raw i"
proof (cases start)
  case None
  with assms(1) have "raw \<noteq> []" by (simp add: starts_inside_def)
  with None offsets_0 [of raw] line_end_bounds(1) [of 0 raw] show ?thesis by (simp add: resolve_start_raw_def)
next
  case (Some st)
  show ?thesis
  proof (cases st)
    case (StartLine line)
    with Some assms(1) line_end_bounds(1) [of "saturating_pred line" raw] show ?thesis
      by (simp add: starts_inside_def resolve_start_raw_def get_or_def Let_def)
  next
    case (StartByte byte)
    with Some assms(1) have "unat byte < length raw" by (simp add: starts_inside_def)
    with Some StartByte line_index_for_byte [OF this refl] show ?thesis by (simp add: resolve_start_raw_def Let_def)
  next
    case (StartLineCol line col)
    let ?i = "saturating_pred line"
    from Some StartLineCol assms(1) have i: "?i < length (compute_line_offsets_raw raw)"
      "compute_line_offsets_raw raw ! ?i + unat col < line_end raw ?i"
      by (simp_all add: starts_inside_def Let_def)
    then have "compute_line_offsets_raw raw ! ?i + unat col < 2 ^ 64" using line_end_bounds(2) [OF i(1)] assms(2) by simp
    with i Some StartLineCol show ?thesis
      by (simp add: resolve_start_raw_def resolve_line_col_def get_or_def usize_add_def line_end_def Let_def)
  qed
qed

lemma page_env_wf:
  assumes "starts_inside (rq_start req) raw" and "length raw < 2 ^ 64"
  shows "page_wf (page_env encs encoding req raw max_read_bytes)"
  using starts_inside_page [OF assms] by (auto simp: page_env_def page_wf_def Let_def)

lemma page_env_sel:
  "pg_raw (page_env encs encoding req raw m) = raw"
  "pg_offsets (page_env encs encoding req raw m) = compute_line_offsets_raw raw"
  "pg_start_byte (page_env encs encoding req raw m) = fst (resolve_start_raw (rq_start req) (compute_line_offsets_raw raw) (length raw))"
  "pg_start_line_idx (page_env encs encoding req raw m) = snd (resolve_start_raw (rq_start req) (compute_line_offsets_raw raw) (length raw))"
  "pg_max_lines (page_env encs encoding req raw m) = unat (case rq_max_lines req of Some n \<Rightarrow> n | None \<Rightarrow> DEFAULT_MAX_LINES)"
  "pg_max_bytes (page_env encs encoding req raw m) =
     unat (min (case rq_max_bytes req of Some n \<Rightarrow> n | None \<Rightarrow> DEFAULT_MAX_BYTES) m)"
  "pg_target (page_env encs encoding req raw m) =
     map_option (\<lambda>t. resolve_position_raw t (compute_line_offsets_raw raw) (length raw)) (rq_target_end req)"
  "pg_line (page_env encs encoding req raw m) =
     (\<lambda>l. truncate_line encs l encoding (case rq_max_line_width req of Some w \<Rightarrow> w | None \<Rightarrow> DEFAULT_MAX_LINE_WIDTH))"
  by (simp_all add: page_env_def Let_def split: prod.splits)

lemma handle_read_text_ok:
  assumes "handle_read_text encs ops s req p m = Inr r" and "fs_read ops s p = Inr raw"
  obtains encoding n where "resolve_encoding encs raw (rq_encoding req) (rq_path req) = Inr encoding"
    "r = page_result encs encoding (page_env encs encoding req raw m) n"
  using assms by (auto simp: handle_read_text_def split: sum.splits if_splits)

lemma page_result_sel:
  assumes "page_wf env" and "length (pg_raw env) < 2 ^ 64"
  shows "unat (po_byte_in_file (rr_start_pos (page_result encs encoding env n))) = pg_start_byte env"
    and "unat (po_byte_in_file (rr_end_pos (page_result encs encoding env n))) = ps_end_byte (read_page env)"
    and "unat (rr_remaining_bytes (page_result encs encoding env n)) = length (pg_raw env) - ps_end_byte (read_page env)"
    and "rr_lines (page_result encs encoding env n) = ps_lines (read_page env)"
    and "rr_stop_reason (page_result encs encoding env n) = ps_stop (read_page env)"
proof -
  have "pg_start_byte env \<le> ps_end_byte (read_page env)" "ps_end_byte (read_page env) \<le> length (pg_raw env)"
    using read_page_ok [OF assms(1)] unfolding page_ok_def by blast+
  with assms(2) show "unat (po_byte_in_file (rr_start_pos (page_result encs encoding env n))) = pg_start_byte env"
    "unat (po_byte_in_file (rr_end_pos (page_result encs encoding env n))) = ps_end_byte (read_page env)"
    "unat (rr_remaining_bytes (page_result encs encoding env n)) = length (pg_raw env) - ps_end_byte (read_page env)"
    by (simp_all add: page_result_def Let_def unat_of_nat_u64 del: of_nat_diff)
qed (simp_all add: page_result_def Let_def)

lemma truncate_line_none: "truncate_line encs l encoding 0 = (en_decode encs encoding l, False, 0)"
  by (simp add: truncate_line_def)

lemma page_progress:
  assumes "page_wf env" and "pg_target env = None" and "0 < pg_max_lines env" and "0 < pg_max_bytes env"
  shows "pg_start_byte env < ps_end_byte (read_page env)"
proof (rule ccontr)
  assume "\<not> ?thesis"
  with read_page_ok [OF assms(1)] have eq: "ps_end_byte (read_page env) = pg_start_byte env"
    and ok: "page_ok env (read_page env)" "stop_ok env (read_page env)" by (auto simp: page_ok_def)
  then have "ps_lines (read_page env) = []" "ps_bytes (read_page env) = 0" by (auto simp: page_ok_def)
  with ok(2) assms(2,3,4) eq have "pg_start_byte env = length (pg_raw env)" by (auto simp: stop_ok_def split: StopReason.splits)
  with assms(1) line_end_bounds(2) [of "pg_start_line_idx env" "pg_raw env"] show False by (auto simp: page_wf_def)
qed

section \<open>Properties\<close>


definition ascii :: "unit Encodings" where
  "ascii = \<lparr> en_utf8 = (), en_enc_name = (\<lambda>_. ''UTF-8''), en_for_label = (\<lambda>_. None), en_guess = (\<lambda>_. ()),
             en_decode = (\<lambda>_. map (\<lambda>b. char_of (unat b))) \<rparr>"

definition text_request :: FileReadText where
  "text_request = \<lparr> rq_path = ''/f'', rq_start = Some (StartByte 1), rq_max_lines = Some 2, rq_max_bytes = None, rq_target_end = None,
     rq_max_line_width = Some 0, rq_encoding = None, rq_no_follow_symlink = False \<rparr>"

text \<open>The text \<^verbatim>\<open>ab\r\n\nc\<close>.\<close>

definition text_file :: bytes where
  "text_file = [97, 98, 13, 10, 10, 99]"

definition text_tree :: node where
  "text_tree = DirNode [(''f'', FileNode text_file)]"

lemmas read_eval = handle_read_text_def stat_regular_def tree_sel tree_stat_def tree_read_def node_metadata_def text_tree_def text_file_def
  resolve_encoding_def utf8_tail_def between_def page_result_def page_env_def compute_line_offsets_raw_def resolve_start_raw_def
  line_index_for_byte_def saturating_pred_def get_or_def read_page_def page_line_def upt_rec strip_newline_def truncate_line_def
  usize_add_def usize_sub_def resolve_line_col_def resolve_position_raw_def DEFAULT_MAX_BYTES_def DEFAULT_MAX_LINES_def
  DEFAULT_MAX_LINE_WIDTH_def ascii_def Let_def

lemma text_tree_read: "fs_read (tree_ops (\<lambda>_. 0)) text_tree [''f''] = Inr text_file"
  by (simp add: tree_sel tree_read_def text_tree_def)

lemma text_request_answer:
  "\<exists>r. handle_read_text ascii (tree_ops (\<lambda>_. 0)) text_tree text_request [''f''] 100 = Inr r \<and> map tl_content (rr_lines r) = [''b'', []]"
  by (simp add: read_eval text_request_def) code_simp


text \<open>Reading a file page by page: each request starts where the page before ended.\<close>

fun read_pages :: "'e Encodings \<Rightarrow> 's FsOps \<Rightarrow> 's \<Rightarrow> FileReadText \<Rightarrow> path \<Rightarrow> u64 \<Rightarrow> nat \<Rightarrow> u64 \<Rightarrow> TextLine list option" where
  "read_pages encs ops s req p m 0 b = None"
| "read_pages encs ops s req p m (Suc n) b =
     (case handle_read_text encs ops s (req\<lparr>rq_start := Some (StartByte b)\<rparr>) p m of
        Inl _ \<Rightarrow> None
      | Inr r \<Rightarrow>
          if rr_remaining_bytes r = 0 then Some (rr_lines r)
          else map_option ((@) (rr_lines r)) (read_pages encs ops s req p m n (po_byte_in_file (rr_end_pos r))))"

lemma segment_drop: "a \<le> b \<Longrightarrow> b \<le> length xs \<Longrightarrow> segment xs a b @ drop b xs = drop a xs"
proof -
  assume "a \<le> b" "b \<le> length xs"
  then have "drop (b - a) (drop a xs) = drop b xs" by simp
  then show ?thesis unfolding segment_def by (metis append_take_drop_id)
qed

lemma page_of_file:
  fixes b :: u64
  assumes raw: "fs_read ops s p = Inr raw" "length raw < 2 ^ 64"
    and ok: "stat_regular ops s p (rq_path req) (rq_no_follow_symlink req) = Inr total_bytes" "total_bytes \<le> m"
    and enc: "resolve_encoding encs raw (rq_encoding req) (rq_path req) = Inr encoding"
    and limits: "rq_target_end req = None" "rq_max_line_width req = Some 0" "rq_max_lines req \<noteq> Some 0" "rq_max_bytes req \<noteq> Some 0" "m \<noteq> 0"
    and b: "unat b < length raw"
  obtains r e where "handle_read_text encs ops s (req\<lparr>rq_start := Some (StartByte b)\<rparr>) p m = Inr r"
    "po_byte_in_file (rr_end_pos r) = word_of_nat e" "unat b < e" "e \<le> length raw" "unat (rr_remaining_bytes r) = length raw - e"
    "map tl_content (rr_lines r) = map (en_decode encs encoding \<circ> strip_eol) (split_lines (segment raw (unat b) e))"
proof -
  let ?req = "req\<lparr>rq_start := Some (StartByte b)\<rparr>"
  define env where "env = page_env encs encoding ?req raw m"
  define e where "e = ps_end_byte (read_page env)"
  let ?r = "page_result encs encoding env total_bytes"
  note env = page_env_sel [of encs encoding ?req raw m, folded env_def]
  have wf: "page_wf env" unfolding env_def using b raw(2) by (intro page_env_wf) (simp_all add: starts_inside_def)
  have start: "pg_start_byte env = unat b" using b by (simp add: env resolve_start_raw_def Let_def)
  note result = page_result_sel [OF wf, unfolded env, OF raw(2), of encs encoding total_bytes, folded e_def]
  have "handle_read_text encs ops s ?req p m = Inr ?r"
    using ok raw(1) enc by (simp add: handle_read_text_def env_def)
  moreover have "po_byte_in_file (rr_end_pos ?r) = word_of_nat e" by (simp add: page_result_def Let_def e_def)
  moreover have "unat b < e"
  proof -
    have "0 < pg_max_lines env" using limits(3) by (auto simp: env DEFAULT_MAX_LINES_def unat_gt_0 split: option.splits)
    moreover have "0 < pg_max_bytes env"
      using limits(4,5) by (auto simp: env DEFAULT_MAX_BYTES_def unat_gt_0 min_def split: option.splits)
    ultimately show ?thesis using page_progress [OF wf] limits(1) by (simp add: env e_def flip: start)
  qed
  moreover have contents: "map tl_content ls = map fst (map line_parts ls)" for ls by (simp add: line_parts_def)
  moreover have "e \<le> length raw" and "map line_parts (ps_lines (read_page env)) = map (pg_line env \<circ> strip_eol) (split_lines (segment raw (unat b) e))"
    using read_page_ok [OF wf] unfolding page_ok_def e_def [symmetric] start [symmetric] env(1) by blast+
  moreover from this(2) have "map tl_content (ps_lines (read_page env)) = map (en_decode encs encoding \<circ> strip_eol) (split_lines (segment raw (unat b) e))"
    using contents [of "ps_lines (read_page env)"] by (simp add: env limits(2) truncate_line_none comp_def)
  ultimately show ?thesis using that [of ?r e] result by simp
qed



text \<open>
  A page may be reported as having reached its requested end although it has not: if the byte limit
  and the requested end both fall inside a line, the stop reason is the requested end even when the byte
  limit cut the page before it.
\<close>

theorem target_reported_too_early:
  assumes "page_wf env" and "pg_target env = Some t" and "t < line_end (pg_raw env) (pg_start_line_idx env)"
    and "0 < pg_max_bytes env" and "pg_start_byte env + pg_max_bytes env < t" and "0 < pg_max_lines env"
  shows "ps_stop (read_page env) = TargetEnd \<and> ps_end_byte (read_page env) = pg_start_byte env + pg_max_bytes env \<and>
    ps_end_byte (read_page env) < t"
proof -
  let ?i = "pg_start_line_idx env" and ?b = "pg_start_byte env"
  have idx: "?i < length (pg_offsets env)" and E: "get_or (pg_offsets env) (?i + 1) (length (pg_raw env)) = line_end (pg_raw env) ?i"
    and start: "max ?b (pg_offsets env ! ?i) = ?b"
    using assms(1) unfolding page_wf_def line_end_def by (auto simp: max_def)
  have cuts: "min (max t ?b) (line_end (pg_raw env) ?i) = t" "min (pg_max_bytes env) (line_end (pg_raw env) ?i - ?b) = pg_max_bytes env"
    using assms(3,5) by auto
  have "\<exists>st. page_line env ?i \<lparr> ps_lines = [], ps_bytes = 0, ps_stop = FileEnd, ps_end_byte = ?b, ps_end_line = ?i \<rparr> = Inl st \<and>
      ps_stop st = TargetEnd \<and> ps_end_byte st = ?b + pg_max_bytes env"
    using assms(3,4,5,6) unfolding page_line_def Let_def E
    by (simp add: start assms(2) cuts split: prod.split)
  with idx assms(5) show ?thesis by (auto simp: read_page_def Let_def upt_conv_Cons)
qed

definition long_line_env :: "unit PageEnv" where
  "long_line_env = \<lparr> pg_raw = replicate 9 97, pg_offsets = [0], pg_start_line_idx = 0, pg_start_byte = 0, pg_max_lines = 5,
     pg_max_bytes = 2, pg_target = Some 6, pg_line = (\<lambda>l. ([], False, 0)) \<rparr>"

theorem target_reported_too_early_witness:
  "ps_stop (read_page long_line_env) = TargetEnd \<and> ps_end_byte (read_page long_line_env) = 2 \<and> pg_target long_line_env = Some 6"
proof -
  have "page_wf long_line_env" by (simp add: page_wf_def long_line_env_def compute_line_offsets_raw_def line_end_def get_or_def)
  moreover have "line_end (pg_raw long_line_env) (pg_start_line_idx long_line_env) = 9"
    by (simp add: long_line_env_def compute_line_offsets_raw_def line_end_def get_or_def)
  ultimately show ?thesis using target_reported_too_early [of long_line_env 6] by (simp add: long_line_env_def)
qed

text \<open>
  A column so large that adding it to the start of its line exceeds the address space makes a page start
  before its line, and the reported column is the requested one.
\<close>

lemma start_column_wraps:
  assumes "i = saturating_pred line" and "i < length (compute_line_offsets_raw raw)" and "length raw < 2 ^ 64"
    and "2 ^ 64 \<le> compute_line_offsets_raw raw ! i + unat col"
  shows "\<exists>b. resolve_start_raw (Some (StartLineCol line col)) (compute_line_offsets_raw raw) (length raw) = (b, i) \<and>
    b < compute_line_offsets_raw raw ! i \<and> usize_sub b (compute_line_offsets_raw raw ! i) = unat col"
proof -
  let ?s = "compute_line_offsets_raw raw ! i"
  have col: "unat col < 2 ^ 64" using unsigned_less [of col] by simp
  have s: "?s < line_end raw i" "line_end raw i \<le> length raw" using line_end_bounds [OF assms(2)] by auto
  define b where "b = ?s + unat col - 2 ^ 64"
  have "(?s + unat col) mod 2 ^ 64 = b"
    using assms(3,4) col s by (simp add: b_def mod_if [of "?s + unat col"])
  moreover have "b < ?s" using col assms(4) by (simp add: b_def)
  moreover have "usize_sub b ?s = unat col"
  proof -
    have "int b - int ?s = int (unat col) - 2 ^ 64" using assms(4) by (simp add: b_def of_nat_diff)
    then have "(int b - int ?s) mod 2 ^ 64 = int (unat col) mod 2 ^ 64" by (simp add: mod_diff_right_eq [symmetric])
    also have "\<dots> = int (unat col)" using uint_lt2p [of col] by (intro mod_pos_pos_trivial) simp_all
    finally show ?thesis by (simp add: usize_sub_def)
  qed
  ultimately show ?thesis
    using assms(1,2) s by (simp add: resolve_start_raw_def resolve_line_col_def get_or_def usize_add_def Let_def line_end_def)
qed

text \<open>
  A page that starts at the end of a file that is not empty has one line: an empty one, numbered like the
  last line of the file.
\<close>

lemma phantom_line_at_end:
  assumes "raw \<noteq> []" and "length raw < 2 ^ 64" and "rq_start req = Some (StartByte (word_of_nat (length raw)))"
    and "rq_target_end req = None" and "rq_max_lines req \<noteq> Some 0" and "rq_max_bytes req \<noteq> Some 0" and "m \<noteq> 0"
  shows "map line_parts (ps_lines (read_page (page_env encs encoding req raw m))) = [(en_decode encs encoding [], False, 0)]"
proof -
  define env where "env = page_env encs encoding req raw m"
  note env = page_env_sel [of encs encoding req raw m, folded env_def]
  define i where "i = length (compute_line_offsets_raw raw) - 1"
  have n: "0 < length (compute_line_offsets_raw raw)" using offsets_0 [OF assms(1)] by simp
  have "filter (\<lambda>x. x < length raw) (compute_line_offsets_raw raw) = compute_line_offsets_raw raw"
    using offset_less [of _ raw] by (simp add: filter_id_conv)
  moreover have "length raw \<notin> set (compute_line_offsets_raw raw)" using offset_less [of "length raw" raw] by blast
  ultimately have start: "pg_start_byte env = length raw" "pg_start_line_idx env = i"
    using assms(2,3) by (simp_all add: env resolve_start_raw_def line_index_for_byte_def i_def Let_def unat_of_nat_u64)
  have last: "[i ..< length (pg_offsets env)] = [i]" using n by (simp add: env i_def upt_rec)
  have E: "get_or (pg_offsets env) (i + 1) (length raw) = length raw" using n by (simp add: env i_def get_or_def)
  have "compute_line_offsets_raw raw ! i < length raw" using n offset_less nth_mem by (simp add: i_def)
  then have eff: "max (length raw) (pg_offsets env ! i) = length raw" by (simp add: env)
  have limits: "0 < pg_max_lines env" "0 < pg_max_bytes env"
    using assms(5,6,7) by (auto simp: env DEFAULT_MAX_LINES_def DEFAULT_MAX_BYTES_def unat_gt_0 min_def split: option.splits)
  have target: "pg_target env = None" using assms(4) by (simp add: env)
  have line: "pg_line env [] = (en_decode encs encoding [], False, 0)" by (simp add: env truncate_line_def)
  let ?st = "\<lparr> ps_lines = [], ps_bytes = 0, ps_stop = FileEnd, ps_end_byte = length raw, ps_end_line = i \<rparr>"
  have "\<exists>st. page_line env i ?st = Inr st \<and> map line_parts (ps_lines st) = [(en_decode encs encoding [], False, 0)]"
    unfolding page_line_def Let_def start env(1) E eff target
    using limits by (simp add: strip_newline_def line line_parts_def)
  then show ?thesis unfolding env_def [symmetric] read_page_def Let_def start last by auto
qed

section \<open>Ranges of bytes\<close>

lemma trans_sym: "a = b \<Longrightarrow> c = b \<Longrightarrow> a = c"
  by simp

lemma take_length_eq: "xs = take n ys \<Longrightarrow> xs = take (length xs) ys"
  by (simp add: min_def)

lemma fill_chunk:
  "length buf < len \<Longrightarrow> read_at (offset + length buf) (len - length buf) = Inr chunk \<Longrightarrow> chunk \<noteq> [] \<Longrightarrow>
     fill read_at offset len buf = fill read_at offset len (buf @ chunk)"
  by (subst fill.simps) simp

text \<open>
  What \<^verbatim>\<open>read\<close> promises: it fails, or returns some of the bytes at the position, and none only if none
  were asked for or the position is at the end.
\<close>

locale byte_reader =
  fixes read :: "'s \<Rightarrow> path \<Rightarrow> IoError + bytes" and read_at :: "'s \<Rightarrow> path \<Rightarrow> nat \<Rightarrow> nat \<Rightarrow> IoError + bytes"
  assumes read_at_some: "read s p = Inr raw \<Longrightarrow>
    \<exists>n. read_at s p offset k = Inr (take n (drop offset raw)) \<and> n \<le> k \<and> (0 < k \<and> offset < length raw \<longrightarrow> 0 < n)"
begin

lemma fill_reads:
  assumes "read s p = Inr raw"
  shows "length buf \<le> len \<Longrightarrow> buf = take (length buf) (drop offset raw) \<Longrightarrow> fill (read_at s p) offset len buf = Inr (take len (drop offset raw))"
proof (induction "read_at s p" offset len buf rule: fill.induct)
  case (1 offset len buf)
  show ?case
  proof (cases "length buf < len")
    case False
    with 1(2) have len: "length buf = len" by simp
    then have "fill (read_at s p) offset len buf = Inr buf" by (subst fill.simps) simp
    also have "\<dots> = Inr (take len (drop offset raw))" using 1(3) [unfolded len] by (rule arg_cong)
    finally show ?thesis .
  next
    case True
    let ?o = "offset + length buf"
    from read_at_some [OF assms, of ?o "len - length buf"] obtain n where
      n: "read_at s p ?o (len - length buf) = Inr (take n (drop ?o raw))" "n \<le> len - length buf"
        "0 < len - length buf \<and> ?o < length raw \<Longrightarrow> 0 < n" by blast
    show ?thesis
    proof (cases "take n (drop ?o raw) = []")
      case empty: True
      with n(3) True have "length raw \<le> ?o" by (cases "?o < length raw") auto
      then have "take (length buf) (drop offset raw) = take len (drop offset raw)" using True by simp
      with 1(3) have "buf = take len (drop offset raw)" by (rule trans)
      moreover have "fill (read_at s p) offset len buf = Inr buf" using True n(1) empty by (subst fill.simps) simp
      ultimately show ?thesis by simp
    next
      case False
      let ?buf = "buf @ take n (drop ?o raw)"
      have "take (length buf + n) (drop offset raw) = take (length buf) (drop offset raw) @ take n (drop ?o raw)"
        unfolding take_add by (simp add: add.commute)
      with arg_cong [OF 1(3), of "\<lambda>x. x @ take n (drop ?o raw)"] have "?buf = take (length buf + n) (drop offset raw)" by (rule trans_sym)
      then have "?buf = take (length ?buf) (drop offset raw)" by (rule take_length_eq)
      moreover have "length ?buf \<le> len" using n(2) True by simp
      ultimately have "fill (read_at s p) offset len ?buf = Inr (take len (drop offset raw))" by (intro 1(1) [OF True n(1) False])
      then show ?thesis using fill_chunk [of buf len "read_at s p" offset, OF True n(1) False] by simp
    qed
  qed
qed

end

interpretation tree_reader: byte_reader "fs_read (tree_ops dev)" "fs_read_at (tree_ops dev)" for dev
proof
  fix s p raw offset k
  assume "fs_read (tree_ops dev) s p = Inr raw"
  then show "\<exists>n. fs_read_at (tree_ops dev) s p offset k = Inr (take n (drop offset raw)) \<and> n \<le> k \<and>
      (0 < k \<and> offset < length raw \<longrightarrow> 0 < n)"
    by (intro exI [of _ k]) (simp add: tree_sel)
qed

text \<open>
  C31. A read of a range of bytes returns exactly that range, cut to the end of the file, to the requested
  length, to the requested limit and to the read budget of the policy, and reports exactly how much
  follows; it never reads past the budget, and a position at or past the end gives an empty range.
\<close>

theorem read_binary_exact:
  assumes "lookup t p = Some (FileNode raw)" and "length raw < 2 ^ 64"
  shows "\<exists>r. handle_read_binary (tree_ops dev) t req p m = Inr r \<and>
    (let offset = unat (rb_byte_offset req);
         wanted = (if rb_byte_length req = 0 then length raw else unat (rb_byte_length req));
         limit = min (unat (case rb_max_bytes req of Some n \<Rightarrow> n | None \<Rightarrow> DEFAULT_BINARY_MAX)) (unat m);
         content = take (min wanted limit) (drop offset raw)
     in br_content r = content \<and> br_byte_offset r = rb_byte_offset req \<and> unat (br_bytes_read r) = length content \<and>
        unat (br_total_file_bytes r) = length raw \<and>
        (offset < length raw \<longrightarrow> unat (br_remaining_bytes r) = length raw - (offset + length content)) \<and>
        (length raw \<le> offset \<longrightarrow> br_remaining_bytes r = 0))"
proof -
  define offset where "offset = unat (rb_byte_offset req)"
  define wanted where "wanted = (if rb_byte_length req = 0 then length raw else unat (rb_byte_length req))"
  define mx where "mx = min (case rb_max_bytes req of Some n \<Rightarrow> n | None \<Rightarrow> DEFAULT_BINARY_MAX) m"
  define size :: u64 where "size = word_of_nat (length raw)"
  have size: "unat size = length raw" using assms(2) by (simp add: size_def unat_of_nat_u64)
  have limit: "unat mx = min (unat (case rb_max_bytes req of Some n \<Rightarrow> n | None \<Rightarrow> DEFAULT_BINARY_MAX)) (unat m)"
    unfolding mx_def by (rule unat_min)
  have stat: "stat_regular (tree_ops dev) t p (rb_path req) (rb_no_follow_symlink req) = Inr size"
    using assms(1) by (simp add: stat_regular_def tree_sel tree_stat_def node_metadata_def size_def)
  have read: "fs_read (tree_ops dev) t p = Inr raw" using assms(1) by (simp add: tree_sel tree_read_def)
  show ?thesis
  proof (cases "length raw \<le> offset")
    case True
    then have "size \<le> rb_byte_offset req" by (simp add: word_le_nat_alt size offset_def)
    with True show ?thesis using stat size by (simp add: handle_read_binary_def Let_def offset_def)
  next
    case False
    then have lt: "\<not> size \<le> rb_byte_offset req" by (simp add: word_le_nat_alt size offset_def)
    define len where "len = min (if rb_byte_length req = 0 then size - rb_byte_offset req else min (rb_byte_length req) (size - rb_byte_offset req)) mx"
    have avail: "unat (size - rb_byte_offset req) = length raw - offset"
      using lt by (simp add: unat_sub size offset_def)
    have len: "unat len = min (min wanted (length raw - offset)) (unat mx)"
      unfolding len_def wanted_def unat_min if_distrib [of unat] avail by (simp add: min.commute min.left_commute)
    have buf: "fill (fs_read_at (tree_ops dev) t p) offset (unat len) [] = Inr (take (unat len) (drop offset raw))"
      using tree_reader.fill_reads [OF read, of "[]" "unat len" offset] by simp
    have content: "take (unat len) (drop offset raw) = take (min wanted (unat mx)) (drop offset raw)"
      unfolding len by (simp add: min_def)
    define k where "k = length (take (unat len) (drop offset raw))"
    have k: "offset + k \<le> length raw" using False by (simp add: k_def)
    then have uk: "unat (word_of_nat k :: u64) = k" using assms(2) by (simp add: unat_of_nat_u64)
    have pos: "unat (rb_byte_offset req + word_of_nat k) = offset + k"
      using k assms(2) uk by (simp add: unat_word_ariths(1) offset_def)
    have rest: "rb_byte_offset req + word_of_nat k \<le> size" using pos k size by (simp add: word_le_nat_alt)
    have remaining: "unat (size - (rb_byte_offset req + word_of_nat k)) = length raw - (offset + k)"
      using unat_sub [OF rest] pos size by simp
    have "handle_read_binary (tree_ops dev) t req p m = Inr \<lparr> br_content = take (unat len) (drop offset raw), br_byte_offset = rb_byte_offset req,
        br_bytes_read = word_of_nat k, br_total_file_bytes = size, br_remaining_bytes = size - (rb_byte_offset req + word_of_nat k) \<rparr>"
      unfolding handle_read_binary_def stat sum.case Let_def if_not_P [OF lt] mx_def [symmetric] offset_def [symmetric]
        len_def [symmetric] buf k_def [symmetric] if_P [OF rest] ..
    then show ?thesis
      unfolding Let_def offset_def [symmetric] wanted_def [symmetric] limit [symmetric] content [symmetric] k_def [symmetric]
      using False by (simp add: uk size remaining)
  qed
qed

theorem read_binary_exact_witness:
  "\<exists>r. handle_read_binary (tree_ops (\<lambda>_. 0)) text_tree
      \<lparr> rb_path = ''/f'', rb_byte_offset = 2, rb_byte_length = 0, rb_max_bytes = Some 3, rb_no_follow_symlink = False \<rparr> [''f''] 100 = Inr r \<and>
     br_content r = [13, 10, 10] \<and> unat (br_remaining_bytes r) = 1"
  using read_binary_exact [of text_tree "[''f'']" text_file "\<lambda>_. 0"
      "\<lparr> rb_path = ''/f'', rb_byte_offset = 2, rb_byte_length = 0, rb_max_bytes = Some 3, rb_no_follow_symlink = False \<rparr>" 100]
  by (auto simp: text_tree_def text_file_def Let_def)

end
