(* ===== verification/Write_Ops.thy ===== *)
theory Write_Ops
  imports File_Read
begin

text \<open>
  Writing and editing files, \<^verbatim>\<open>ahandd/src/file_manager/write_ops.rs\<close>: whole files, from the request or
  downloaded, appending, and replacing strings, ranges of lines and ranges of bytes.

  The file system is that of \<open>Fs_Ops\<close>; texts are the bytes of their UTF-8 encoding. What the HTTP client
  and the URL parser answer is a parameter (\<open>HttpEnv\<close>).
\<close>

unbundle bit_operations_syntax

section \<open>Definitions\<close>

subsection \<open>Requests and results\<close>

datatype Source = Content bytes | S3ObjectKey string

record FullWrite =
  fw_source :: "Source option"
  fw_s3_download_url :: "string option"

record StringReplace =
  sr_old_string :: bytes
  sr_new_string :: bytes
  sr_replace_all :: bool

record LineRangeReplace =
  lr_start_line :: u64
  lr_end_line :: u64
  lr_new_content :: bytes

record ByteRangeReplace =
  by_byte_offset :: u64
  by_byte_length :: u64
  by_new_content :: bytes

datatype WriteMethod =
    WFullWrite FullWrite
  | WAppend bytes
  | WStringReplace StringReplace
  | WLineRangeReplace LineRangeReplace
  | WByteRangeReplace ByteRangeReplace

datatype EditMethod = EStringReplace StringReplace | ELineRangeReplace LineRangeReplace | EByteRangeReplace ByteRangeReplace

record FileWrite =
  wr_path :: string
  wr_create_parents :: bool
  wr_method :: "WriteMethod option"
  wr_encoding :: "string option"
  wr_no_follow_symlink :: bool

record FileEdit =
  ed_path :: string
  ed_method :: "EditMethod option"
  ed_encoding :: "string option"
  ed_no_follow_symlink :: bool

datatype WriteAction = Created | Overwritten | Appended | Edited

record FileWriteResult =
  wrr_path :: string
  wrr_action :: WriteAction
  wrr_bytes_written :: u64
  wrr_final_size :: u64
  wrr_replacements_made :: "u32 option"

record FileEditResult =
  edr_path :: string
  edr_final_size :: u64
  edr_replacements_made :: "u32 option"
  edr_match_error :: "string option"

text \<open>
  \<open>he_scheme\<close> parses a URL to its scheme or an error, \<open>he_client\<close> builds the client, \<open>he_get\<close> sends a request;
  a response has its status, the announced length and the chunks of its body, which may end in an error.
\<close>

record HttpResponse =
  hr_success :: bool
  hr_status :: string
  hr_content_length :: "u64 option"
  hr_chunks :: "(string + bytes) list"

record HttpEnv =
  he_scheme :: "string \<Rightarrow> string + string"
  he_client :: "string + unit"
  he_get :: "string \<Rightarrow> string + HttpResponse"

abbreviation len64 :: "'a list \<Rightarrow> u64" where
  "len64 xs \<equiv> word_of_nat (length xs)"

text \<open>The \<^verbatim>\<open>?\<close> operator on results without a state.\<close>

definition attempt :: "'e + 'a \<Rightarrow> ('a \<Rightarrow> 'e + 'b) \<Rightarrow> 'e + 'b" where
  "attempt r k = (case r of Inl e \<Rightarrow> Inl e | Inr x \<Rightarrow> k x)"

subsection \<open>The standard library\<close>

text \<open>
  \<^verbatim>\<open>str::split\<close> at a pattern: the parts between its matches, which are taken from left to right without
  overlap. The empty pattern matches at every boundary between characters.
\<close>

fun split_chars :: "bytes \<Rightarrow> bytes list" where
  "split_chars [] = []"
| "split_chars (b # bs) =
     (case split_chars bs of
        c # cs \<Rightarrow> if hd c AND 0xC0 = 0x80 then (b # c) # cs else [b] # c # cs
      | [] \<Rightarrow> [[b]])"

function split_str :: "bytes \<Rightarrow> bytes \<Rightarrow> bytes list" where
  "split_str pat s =
     (if pat = [] then [] # split_chars s @ [[]]
      else if take (length pat) s = pat then [] # split_str pat (drop (length pat) s)
      else (case s of
              [] \<Rightarrow> [[]]
            | b # bs \<Rightarrow> (case split_str pat bs of x # xs \<Rightarrow> (b # x) # xs | [] \<Rightarrow> [[b]])))"
  by pat_completeness auto
termination
proof (relation "measure (\<lambda>(pat, s). length s)")
  fix pat s :: bytes
  assume "pat \<noteq> []" and "take (length pat) s = pat"
  then show "((pat, drop (length pat) s), pat, s) \<in> measure (\<lambda>(pat, s). length s)" by (cases s) auto
qed simp_all

declare split_str.simps [simp del]

definition str_matches :: "bytes \<Rightarrow> bytes \<Rightarrow> u32" where
  "str_matches s pat = word_of_nat (length (split_str pat s) - 1)"

fun join_with :: "bytes \<Rightarrow> bytes list \<Rightarrow> bytes" where
  "join_with sep [] = []"
| "join_with sep [x] = x"
| "join_with sep (x # xs) = x @ sep @ join_with sep xs"

definition str_replace :: "bytes \<Rightarrow> bytes \<Rightarrow> bytes \<Rightarrow> bytes" where
  "str_replace s pat new = join_with new (split_str pat s)"

definition str_replace_first :: "bytes \<Rightarrow> bytes \<Rightarrow> bytes \<Rightarrow> bytes" where
  "str_replace_first s pat new =
     (case split_str pat s of
        x # y # xs \<Rightarrow> x @ new @ join_with pat (y # xs)
      | xs \<Rightarrow> join_with pat xs)"

definition invalid_utf8 :: IoError where
  "invalid_utf8 = \<lparr> io_kind = KOther, io_raw_os_error = None, io_text = ''stream did not contain valid UTF-8'' \<rparr>"

definition read_to_string :: "'s FsOps \<Rightarrow> 's \<Rightarrow> path \<Rightarrow> IoError + bytes" where
  "read_to_string ops s p = (case fs_read ops s p of Inl e \<Rightarrow> Inl e | Inr b \<Rightarrow> if from_utf8_ok b then Inr b else Inl invalid_utf8)"

subsection \<open>Limits\<close>

definition ensure_encoding_supported :: "string option \<Rightarrow> string \<Rightarrow> FileError + unit" where
  "ensure_encoding_supported encoding req_path =
     (case encoding of
        None \<Rightarrow> Inr ()
      | Some e \<Rightarrow>
          if e = [] \<or> eq_ignore_ascii_case e ''utf-8'' \<or> eq_ignore_ascii_case e ''utf8'' then Inr ()
          else Inl (file_error Encoding req_path
                 (''encoding '' @ [CHR 0x27] @ e @ [CHR 0x27] @ '' is not supported for writes (v1 only supports UTF-8)'')))"

definition enforce_size_limit :: "u64 \<Rightarrow> u64 \<Rightarrow> string \<Rightarrow> FileError + unit" where
  "enforce_size_limit n mx path =
     (if mx < n
      then Inl (file_error TooLarge path
             (''content '' @ show_nat (unat n) @ '' bytes exceeds max_write_bytes ('' @ show_nat (unat mx) @ '')''))
      else Inr ())"

definition enforce_existing_size_limit :: "'s FsOps \<Rightarrow> 's \<Rightarrow> path \<Rightarrow> u64 \<Rightarrow> string \<Rightarrow> FileError + unit" where
  "enforce_existing_size_limit ops s resolved mx req_path =
     (case fs_metadata ops s resolved of
        Inl _ \<Rightarrow> Inr ()
      | Inr meta \<Rightarrow>
          if mx < md_len meta
          then Inl (file_error TooLarge req_path
                 (''existing file is '' @ show_nat (unat (md_len meta)) @ '' bytes (> max_write_bytes '' @ show_nat (unat mx) @
                  ''); refusing to load it into memory for edit''))
          else Inr ())"

subsection \<open>Downloading\<close>

definition validate_download_url_scheme :: "HttpEnv \<Rightarrow> string \<Rightarrow> string \<Rightarrow> FileError + unit" where
  "validate_download_url_scheme http url req_path =
     (case he_scheme http url of
        Inl e \<Rightarrow> Inl (file_error InvalidPath req_path (''invalid s3_download_url: '' @ e))
      | Inr scheme \<Rightarrow>
          if scheme \<noteq> ''http'' \<and> scheme \<noteq> ''https''
          then Inl (file_error InvalidPath req_path
                 (''s3_download_url must use http(s); got scheme '' @ [CHR 0x27] @ scheme @ [CHR 0x27]))
          else Inr ())"

fun collect_chunks :: "u64 \<Rightarrow> string \<Rightarrow> bytes \<Rightarrow> (string + bytes) list \<Rightarrow> FileError + bytes" where
  "collect_chunks mx req_path buf [] = Inr buf"
| "collect_chunks mx req_path buf (Inl e # chunks) = Inl (file_error Io req_path (''S3 download body read failed: '' @ e))"
| "collect_chunks mx req_path buf (Inr chunk # chunks) =
     (if mx < saturating_add (len64 buf) (len64 chunk)
      then Inl (file_error TooLarge req_path
             (''S3 object size > max_write_bytes ('' @ show_nat (unat mx) @ ''); aborting partial download''))
      else collect_chunks mx req_path (buf @ chunk) chunks)"

definition fetch_full_write_bytes :: "HttpEnv \<Rightarrow> string \<Rightarrow> u64 \<Rightarrow> string \<Rightarrow> FileError + bytes" where
  "fetch_full_write_bytes http url mx req_path =
     attempt (validate_download_url_scheme http url req_path) (\<lambda>_.
     attempt (map_sum (\<lambda>e. file_error Io req_path (''failed to construct HTTP client: '' @ e)) id (he_client http)) (\<lambda>_.
     attempt (map_sum (\<lambda>e. file_error Io req_path (''S3 download failed: '' @ e)) id (he_get http url)) (\<lambda>resp.
       if \<not> hr_success resp then Inl (file_error Io req_path (''S3 download HTTP status '' @ hr_status resp))
       else (case hr_content_length resp of
               Some n \<Rightarrow>
                 if mx < n
                 then Inl (file_error TooLarge req_path
                        (''S3 object size '' @ show_nat (unat n) @ '' exceeds max_write_bytes ('' @ show_nat (unat mx) @ '')''))
                 else collect_chunks mx req_path [] (hr_chunks resp)
             | None \<Rightarrow> collect_chunks mx req_path [] (hr_chunks resp)))))"

subsection \<open>Replacing\<close>

definition apply_string_replace :: "'s FsOps \<Rightarrow> 's \<Rightarrow> string \<Rightarrow> path \<Rightarrow> StringReplace \<Rightarrow> u64 \<Rightarrow> FileError + bytes \<times> u32" where
  "apply_string_replace ops s req_path resolved sr mx =
     attempt (enforce_existing_size_limit ops s resolved mx req_path) (\<lambda>_.
     attempt (map_sum (io_err resolved) id (read_to_string ops s resolved)) (\<lambda>existing.
       let n = str_matches existing (sr_old_string sr)
       in if n = 0 then Inl (file_error NotFound req_path ''old_string not found'')
          else if 1 < n \<and> \<not> sr_replace_all sr
          then Inl (file_error MultipleMatches req_path (''multiple matches found ('' @ show_nat (unat n) @ '')''))
          else Inr (if sr_replace_all sr then str_replace existing (sr_old_string sr) (sr_new_string sr)
                    else str_replace_first existing (sr_old_string sr) (sr_new_string sr), n)))"

definition apply_line_range_replace :: "'s FsOps \<Rightarrow> 's \<Rightarrow> string \<Rightarrow> path \<Rightarrow> LineRangeReplace \<Rightarrow> u64 \<Rightarrow> FileError + bytes" where
  "apply_line_range_replace ops s req_path resolved lr mx =
     (if lr_start_line lr = 0 \<or> lr_end_line lr = 0 \<or> lr_end_line lr < lr_start_line lr
      then Inl (file_error Unspecified req_path ''invalid line range (start/end must be 1-based and start<=end)'')
      else
        attempt (enforce_existing_size_limit ops s resolved mx req_path) (\<lambda>_.
        attempt (map_sum (io_err resolved) id (read_to_string ops s resolved)) (\<lambda>existing.
          let lines = split_lines existing;
              start = unat (lr_start_line lr) - 1;
              stop = unat (lr_end_line lr) - 1
          in if length lines \<le> start
             then Inl (file_error Unspecified req_path (''start_line '' @ show_nat (unat (lr_start_line lr)) @ '' exceeds file length''))
             else
               (let stop = min stop (length lines - 1);
                    ends = (\<lambda>l. l \<noteq> [] \<and> last l = LF);
                    new_block = (if ends (lines ! stop) \<and> \<not> ends (lr_new_content lr) then lr_new_content lr @ [LF] else lr_new_content lr)
                in Inr (concat (take start lines @ [new_block] @ drop (stop + 1) lines))))))"

definition apply_byte_range_replace :: "'s FsOps \<Rightarrow> 's \<Rightarrow> string \<Rightarrow> path \<Rightarrow> ByteRangeReplace \<Rightarrow> u64 \<Rightarrow> FileError + bytes" where
  "apply_byte_range_replace ops s req_path resolved br mx =
     attempt (enforce_existing_size_limit ops s resolved mx req_path) (\<lambda>_.
     attempt (map_sum (io_err resolved) id (fs_read ops s resolved)) (\<lambda>existing.
       if 2 ^ 64 \<le> unat (by_byte_offset br) + unat (by_byte_length br)
       then Inl (file_error InvalidPath req_path ''byte range overflow (byte_offset + byte_length > u64::MAX)'')
       else
         (let end_u64 = by_byte_offset br + by_byte_length br;
              file_len = len64 existing
          in if file_len < by_byte_offset br \<or> file_len < end_u64
             then Inl (file_error Unspecified req_path ''byte range out of bounds'')
             else Inr (take (unat (by_byte_offset br)) existing @ by_new_content br @ drop (unat end_u64) existing))))"

subsection \<open>Write methods\<close>

definition write_file :: "'s FsOps \<Rightarrow> 's \<Rightarrow> path \<Rightarrow> bytes \<Rightarrow> ('s, FileError, unit) fs_result" where
  "write_file ops s resolved b = map_err (io_err resolved) (fs_write ops s resolved b)"

definition handle_full_write ::
  "HttpEnv \<Rightarrow> 's FsOps \<Rightarrow> 's \<Rightarrow> string \<Rightarrow> path \<Rightarrow> FullWrite \<Rightarrow> u64 \<Rightarrow> ('s, FileError, FileWriteResult) fs_result" where
  "handle_full_write http ops s req_path resolved fw mx =
     and_then
       (s, case fw_source fw of
             Some (Content c) \<Rightarrow> attempt (enforce_size_limit (len64 c) mx req_path) (\<lambda>_. Inr c)
           | Some (S3ObjectKey _) \<Rightarrow>
               (case fw_s3_download_url fw of
                  None \<Rightarrow> Inl (file_error Unspecified req_path ''FullWrite carries s3_object_key but hub did not inject s3_download_url'')
                | Some url \<Rightarrow> fetch_full_write_bytes http url mx req_path)
           | None \<Rightarrow> Inl (file_error Unspecified req_path ''full_write has no source''))
       (\<lambda>s bytes.
          and_then (s, enforce_size_limit (len64 bytes) mx req_path) (\<lambda>s _.
            let existed = exists_at ops s resolved
            in and_then (write_file ops s resolved bytes) (\<lambda>s _.
                 (s, Inr \<lparr> wrr_path = path_str resolved, wrr_action = (if existed then Overwritten else Created),
                           wrr_bytes_written = len64 bytes, wrr_final_size = len64 bytes, wrr_replacements_made = None \<rparr>))))"

definition handle_append :: "'s FsOps \<Rightarrow> 's \<Rightarrow> string \<Rightarrow> path \<Rightarrow> bytes \<Rightarrow> u64 \<Rightarrow> ('s, FileError, FileWriteResult) fs_result" where
  "handle_append ops s req_path resolved content mx =
     (let existing_size = (case fs_metadata ops s resolved of Inr m \<Rightarrow> md_len m | Inl _ \<Rightarrow> 0);
          total = saturating_add existing_size (len64 content)
      in and_then (s, enforce_size_limit total mx req_path) (\<lambda>s _.
         and_then (map_err (io_err resolved) (fs_append ops s resolved content)) (\<lambda>s _.
         and_then (map_err (io_err resolved) (s, fs_metadata ops s resolved)) (\<lambda>s metadata.
           (s, Inr \<lparr> wrr_path = path_str resolved, wrr_action = Appended, wrr_bytes_written = len64 content,
                     wrr_final_size = md_len metadata, wrr_replacements_made = None \<rparr>)))))"

definition edited_write ::
  "'s FsOps \<Rightarrow> 's \<Rightarrow> string \<Rightarrow> path \<Rightarrow> u64 \<Rightarrow> FileError + bytes \<times> u32 option \<Rightarrow> ('s, FileError, FileWriteResult) fs_result" where
  "edited_write ops s req_path resolved mx edit =
     and_then (s, edit) (\<lambda>s (bytes, count).
     and_then (s, enforce_size_limit (len64 bytes) mx req_path) (\<lambda>s _.
     and_then (write_file ops s resolved bytes) (\<lambda>s _.
       (s, Inr \<lparr> wrr_path = path_str resolved, wrr_action = Edited, wrr_bytes_written = len64 bytes,
                 wrr_final_size = len64 bytes, wrr_replacements_made = count \<rparr>))))"

definition handle_string_replace_write :: "'s FsOps \<Rightarrow> 's \<Rightarrow> string \<Rightarrow> path \<Rightarrow> StringReplace \<Rightarrow> u64 \<Rightarrow> ('s, FileError, FileWriteResult) fs_result" where
  "handle_string_replace_write ops s req_path resolved sr mx =
     edited_write ops s req_path resolved mx (map_sum id (\<lambda>(b, n). (b, Some n)) (apply_string_replace ops s req_path resolved sr mx))"

definition handle_line_range_replace_write :: "'s FsOps \<Rightarrow> 's \<Rightarrow> string \<Rightarrow> path \<Rightarrow> LineRangeReplace \<Rightarrow> u64 \<Rightarrow> ('s, FileError, FileWriteResult) fs_result" where
  "handle_line_range_replace_write ops s req_path resolved lr mx =
     edited_write ops s req_path resolved mx (map_sum id (\<lambda>b. (b, None)) (apply_line_range_replace ops s req_path resolved lr mx))"

definition handle_byte_range_replace_write :: "'s FsOps \<Rightarrow> 's \<Rightarrow> string \<Rightarrow> path \<Rightarrow> ByteRangeReplace \<Rightarrow> u64 \<Rightarrow> ('s, FileError, FileWriteResult) fs_result" where
  "handle_byte_range_replace_write ops s req_path resolved br mx =
     edited_write ops s req_path resolved mx (map_sum id (\<lambda>b. (b, None)) (apply_byte_range_replace ops s req_path resolved br mx))"

definition handle_write ::
  "HttpEnv \<Rightarrow> 's FsOps \<Rightarrow> 's \<Rightarrow> FileWrite \<Rightarrow> path \<Rightarrow> u64 \<Rightarrow> ('s, FileError, FileWriteResult) fs_result" where
  "handle_write http ops s req resolved mx =
     and_then (s, ensure_encoding_supported (wr_encoding req) (wr_path req)) (\<lambda>s _.
     and_then (reject_if_final_component_is_symlink ops s resolved (wr_path req) (wr_no_follow_symlink req)) (\<lambda>s _.
       case wr_method req of
         None \<Rightarrow> (s, Inl (file_error Unspecified (wr_path req) ''no write method specified''))
       | Some method \<Rightarrow>
           and_then
             (if wr_create_parents req \<and> resolved \<noteq> []
              then map_err (io_err (butlast resolved)) (fs_create_dir_all ops s (butlast resolved)) else (s, Inr ()))
             (\<lambda>s _.
                case method of
                  WFullWrite fw \<Rightarrow> handle_full_write http ops s (wr_path req) resolved fw mx
                | WAppend content \<Rightarrow> handle_append ops s (wr_path req) resolved content mx
                | WStringReplace sr \<Rightarrow> handle_string_replace_write ops s (wr_path req) resolved sr mx
                | WLineRangeReplace lr \<Rightarrow> handle_line_range_replace_write ops s (wr_path req) resolved lr mx
                | WByteRangeReplace br \<Rightarrow> handle_byte_range_replace_write ops s (wr_path req) resolved br mx)))"

subsection \<open>Edit methods\<close>

definition handle_string_replace_edit :: "'s FsOps \<Rightarrow> 's \<Rightarrow> string \<Rightarrow> path \<Rightarrow> StringReplace \<Rightarrow> u64 \<Rightarrow> ('s, FileError, FileEditResult) fs_result" where
  "handle_string_replace_edit ops s req_path resolved sr mx =
     and_then (s, enforce_existing_size_limit ops s resolved mx req_path) (\<lambda>s _.
     and_then (map_err (io_err resolved) (s, read_to_string ops s resolved)) (\<lambda>s existing.
       let n = str_matches existing (sr_old_string sr);
           unchanged = (\<lambda>message. (s, Inr \<lparr> edr_path = path_str resolved, edr_final_size = len64 existing,
                                             edr_replacements_made = Some 0, edr_match_error = Some message \<rparr>))
       in if n = 0 then unchanged (''old_string not found in '' @ req_path)
          else if 1 < n \<and> \<not> sr_replace_all sr then unchanged (''multiple matches found ('' @ show_nat (unat n) @ '')'')
          else
            (let updated = (if sr_replace_all sr then str_replace existing (sr_old_string sr) (sr_new_string sr)
                            else str_replace_first existing (sr_old_string sr) (sr_new_string sr))
             in and_then (s, enforce_size_limit (len64 updated) mx req_path) (\<lambda>s _.
                and_then (write_file ops s resolved updated) (\<lambda>s _.
                  (s, Inr \<lparr> edr_path = path_str resolved, edr_final_size = len64 updated,
                            edr_replacements_made = Some n, edr_match_error = None \<rparr>))))))"

definition edited_edit :: "'s FsOps \<Rightarrow> 's \<Rightarrow> string \<Rightarrow> path \<Rightarrow> u64 \<Rightarrow> FileError + bytes \<Rightarrow> ('s, FileError, FileEditResult) fs_result" where
  "edited_edit ops s req_path resolved mx edit =
     and_then (s, edit) (\<lambda>s bytes.
     and_then (s, enforce_size_limit (len64 bytes) mx req_path) (\<lambda>s _.
     and_then (write_file ops s resolved bytes) (\<lambda>s _.
       (s, Inr \<lparr> edr_path = path_str resolved, edr_final_size = len64 bytes, edr_replacements_made = None, edr_match_error = None \<rparr>))))"

definition handle_line_range_replace_edit :: "'s FsOps \<Rightarrow> 's \<Rightarrow> string \<Rightarrow> path \<Rightarrow> LineRangeReplace \<Rightarrow> u64 \<Rightarrow> ('s, FileError, FileEditResult) fs_result" where
  "handle_line_range_replace_edit ops s req_path resolved lr mx =
     edited_edit ops s req_path resolved mx (apply_line_range_replace ops s req_path resolved lr mx)"

definition handle_byte_range_replace_edit :: "'s FsOps \<Rightarrow> 's \<Rightarrow> string \<Rightarrow> path \<Rightarrow> ByteRangeReplace \<Rightarrow> u64 \<Rightarrow> ('s, FileError, FileEditResult) fs_result" where
  "handle_byte_range_replace_edit ops s req_path resolved br mx =
     edited_edit ops s req_path resolved mx (apply_byte_range_replace ops s req_path resolved br mx)"

definition handle_edit :: "'s FsOps \<Rightarrow> 's \<Rightarrow> FileEdit \<Rightarrow> path \<Rightarrow> u64 \<Rightarrow> ('s, FileError, FileEditResult) fs_result" where
  "handle_edit ops s req resolved mx =
     and_then (s, ensure_encoding_supported (ed_encoding req) (ed_path req)) (\<lambda>s _.
     and_then (reject_if_final_component_is_symlink ops s resolved (ed_path req) (ed_no_follow_symlink req)) (\<lambda>s _.
       if \<not> exists_at ops s resolved then (s, Inl (file_error NotFound (ed_path req) ''file not found''))
       else and_then (map_err (io_err resolved) (s, fs_metadata ops s resolved)) (\<lambda>s metadata.
         if md_type metadata = FtDirectory then (s, Inl (file_error IsADirectory (ed_path req) ''target is a directory''))
         else (case ed_method req of
                 None \<Rightarrow> (s, Inl (file_error Unspecified (ed_path req) ''no edit method specified''))
               | Some (EStringReplace sr) \<Rightarrow> handle_string_replace_edit ops s (ed_path req) resolved sr mx
               | Some (ELineRangeReplace lr) \<Rightarrow> handle_line_range_replace_edit ops s (ed_path req) resolved lr mx
               | Some (EByteRangeReplace br) \<Rightarrow> handle_byte_range_replace_edit ops s (ed_path req) resolved br mx))))"

section \<open>Splitting and joining\<close>

lemma split_str_ne: "split_str pat s \<noteq> []"
  by (subst split_str.simps) (auto split: list.splits)

lemma concat_split_chars: "concat (split_chars s) = s"
  by (induction s) (auto split: list.splits)

lemma join_with_Cons: "xs \<noteq> [] \<Longrightarrow> join_with sep (x # xs) = x @ sep @ join_with sep xs"
  by (cases xs) auto

lemma join_with_Nil: "join_with [] xs = concat xs"
  by (induction xs rule: induct_list012) simp_all

lemma join_with_Cons_hd: "join_with sep ((b # x) # xs) = b # join_with sep (x # xs)"
  by (cases xs) auto

lemma split_str_found: "pat \<noteq> [] \<Longrightarrow> take (length pat) s = pat \<Longrightarrow> split_str pat s = [] # split_str pat (drop (length pat) s)"
  by (subst split_str.simps) simp

lemma split_str_skip:
  "pat \<noteq> [] \<Longrightarrow> take (length pat) (b # bs) \<noteq> pat \<Longrightarrow>
     split_str pat (b # bs) = (b # hd (split_str pat bs)) # tl (split_str pat bs)"
  using split_str_ne [of pat bs] by (subst split_str.simps) (cases "split_str pat bs"; simp)

lemma split_str_empty: "pat \<noteq> [] \<Longrightarrow> split_str pat [] = [[]]"
  by (subst split_str.simps) simp

lemma split_str_induct [consumes 1, case_names found skip empty]:
  assumes "pat \<noteq> []"
    and "\<And>s. take (length pat) s = pat \<Longrightarrow> P (drop (length pat) s) \<Longrightarrow> P s"
    and "\<And>b bs. take (length pat) (b # bs) \<noteq> pat \<Longrightarrow> P bs \<Longrightarrow> P (b # bs)"
    and "P []"
  shows "P s"
proof (induction s rule: length_induct)
  case (1 s)
  show ?case
  proof (cases "take (length pat) s = pat")
    case True
    then have "length (drop (length pat) s) < length s" using assms(1) by (cases s) auto
    with 1 True assms(2) show ?thesis by blast
  next
    case False
    show ?thesis
    proof (cases s)
      case (Cons b bs)
      with 1 have "P bs" by simp
      with False Cons assms(3) show ?thesis by blast
    qed (use assms(4) in simp)
  qed
qed

lemma join_split: "join_with pat (split_str pat s) = s"
proof (cases "pat = []")
  case True
  then show ?thesis by (simp add: split_str.simps join_with_Nil concat_split_chars)
next
  case False
  then show ?thesis
  proof (induction s rule: split_str_induct)
    case (found s)
    have "join_with pat (split_str pat s) = pat @ drop (length pat) s"
      unfolding split_str_found [OF False found(1)] using found(2) split_str_ne by (simp add: join_with_Cons)
    also have "\<dots> = s" using found(1) append_take_drop_id [of "length pat" s] by simp
    finally show ?case .
  next
    case (skip b bs)
    then show ?case using split_str_skip [OF False skip(1)] split_str_ne [of pat bs]
      by (cases "split_str pat bs") (simp_all add: join_with_Cons_hd)
  qed (simp add: split_str_empty [OF False])
qed

lemma prefix_take_iff: "prefix pat s \<longleftrightarrow> take (length pat) s = pat"
  using take_is_prefix [of "length pat" s] by (auto simp: prefix_def)

lemma split_str_single:
  assumes "pat \<noteq> []"
  shows "length (split_str pat s) = 1 \<longleftrightarrow> \<not> sublist pat s"
  using assms
proof (induction s rule: split_str_induct)
  case (found s)
  have "sublist pat s" using found(1) prefix_take_iff [of pat s] prefix_imp_sublist by blast
  moreover have "length (split_str pat s) \<noteq> 1"
    unfolding split_str_found [OF assms found(1)] using split_str_ne [of pat "drop (length pat) s"] by simp
  ultimately show ?case by simp
next
  case (skip b bs)
  have "\<not> prefix pat (b # bs)" using skip(1) prefix_take_iff by blast
  moreover have "length (split_str pat (b # bs)) = length (split_str pat bs)"
    unfolding split_str_skip [OF assms skip(1)] using split_str_ne [of pat bs] by (cases "split_str pat bs") simp_all
  ultimately show ?case using skip(2) by (simp add: sublist_Cons_right)
qed (simp add: split_str_empty assms)

lemma split_str_parts:
  assumes "pat \<noteq> []"
  shows "x \<in> set (split_str pat s) \<Longrightarrow> \<not> sublist pat x"
  using assms
proof (induction s arbitrary: x rule: split_str_induct)
  case (found s)
  then show ?case unfolding split_str_found [OF assms found(1)] using assms by auto
next
  case (skip b bs)
  let ?u = "hd (split_str pat bs)"
  have "prefix ?u bs" using join_split [of pat bs] split_str_ne [of pat bs]
    by (cases "split_str pat bs"; cases "tl (split_str pat bs)") (auto simp: prefix_def)
  then have "prefix (b # ?u) (b # bs)" by simp
  moreover have "\<not> prefix pat (b # bs)" using skip(1) prefix_take_iff by blast
  ultimately have "\<not> prefix pat (b # ?u)" by (meson prefix_order.trans)
  moreover have "\<not> sublist pat ?u" using skip(2) [of ?u] split_str_ne [of pat bs] by simp
  ultimately have "\<not> sublist pat (b # ?u)" by (simp add: sublist_Cons_right)
  moreover have "x \<in> set (tl (split_str pat bs)) \<Longrightarrow> \<not> sublist pat x"
    using skip(2) split_str_ne [of pat bs] by (cases "split_str pat bs") auto
  ultimately show ?case using skip(3) unfolding split_str_skip [OF assms skip(1)] by auto
qed (simp add: split_str_empty assms)

lemma first_match:
  assumes "pat \<noteq> []"
  shows "s = x @ pat @ w \<Longrightarrow> \<exists>u rest. split_str pat s = u # split_str pat rest \<and> suffix w rest"
  using assms
proof (induction s arbitrary: x rule: split_str_induct)
  case (found s)
  have "suffix w (drop (length pat) s)"
    using found(3) by (intro exI [of _ "drop (length pat) (x @ pat)"] suffixI) simp
  then show ?case using split_str_found [OF assms found(1)] by blast
next
  case (skip b bs)
  have "x \<noteq> []" using skip(1,3) by auto
  then obtain x' where "x = b # x'" "bs = x' @ pat @ w" using skip(3) by (cases x) auto
  with skip(2) obtain u rest where "split_str pat bs = u # split_str pat rest" "suffix w rest" by blast
  then show ?case using split_str_skip [OF assms skip(1)] by auto
qed (use assms in simp)

definition occurs_twice :: "bytes \<Rightarrow> bytes \<Rightarrow> bool" where
  "occurs_twice pat s \<longleftrightarrow> (\<exists>x y z. s = x @ pat @ y @ pat @ z)"

lemma sublist_suffix: "suffix w rest \<Longrightarrow> sublist pat w \<Longrightarrow> sublist pat rest"
proof -
  assume "suffix w rest" "sublist pat w"
  then obtain zs a b where "rest = (zs @ a) @ pat @ b" by (auto simp: sublist_def suffix_def)
  then show "sublist pat rest" unfolding sublist_def by blast
qed

lemma split_str_twice:
  assumes "pat \<noteq> []"
  shows "2 < length (split_str pat s) \<longleftrightarrow> occurs_twice pat s"
proof
  assume "2 < length (split_str pat s)"
  then obtain a b c ds where "split_str pat s = a # b # c # ds"
    by (cases "split_str pat s"; cases "tl (split_str pat s)"; cases "tl (tl (split_str pat s))") auto
  with join_split [of pat s] have "s = a @ pat @ b @ pat @ join_with pat (c # ds)" by simp
  then show "occurs_twice pat s" unfolding occurs_twice_def by blast
next
  assume "occurs_twice pat s"
  then obtain x y z where "s = x @ pat @ (y @ pat @ z)" unfolding occurs_twice_def by auto
  from first_match [OF assms this] obtain u rest where split: "split_str pat s = u # split_str pat rest" "suffix (y @ pat @ z) rest" by blast
  have "sublist pat (y @ pat @ z)" by simp
  with split(2) have "length (split_str pat rest) \<noteq> 1" using split_str_single [OF assms] sublist_suffix by blast
  moreover have "0 < length (split_str pat rest)" using split_str_ne by simp
  ultimately have "1 < length (split_str pat rest)" by linarith
  then show "2 < length (split_str pat s)" by (simp add: split(1))
qed

section \<open>Writing into a tree\<close>

lemma lookup_put_at: "lookup t p = Some n \<Longrightarrow> lookup (put t p m) p = Some m"
  by (induction t p m rule: put.induct) (auto simp: AList.update_conv' split: Option.bind_splits elim: lookup.elims)

lemma tree_add_at: "tree_add t p n = (t', Inr ()) \<Longrightarrow> lookup t' p = Some n"
  using lookup_put_below [of t "butlast p" "last p" n "[]"]
  by (cases "p = []") (auto simp: tree_add_def split: if_splits)

text \<open>
  What a call may do to a file: leave it, or put contents of bounded length there; nothing beside it changes.
  A length that does not fit the address space does not occur in the program.
\<close>

definition confined :: "node \<Rightarrow> path \<Rightarrow> u64 \<Rightarrow> node \<Rightarrow> bool" where
  "confined t p mx t' \<longleftrightarrow>
     (lookup t' p = lookup t p \<or> (\<exists>b. lookup t' p = Some (FileNode b) \<and> (length b < 2 ^ 64 \<longrightarrow> length b \<le> unat mx))) \<and>
     (\<forall>q. \<not> prefix p q \<and> \<not> prefix q p \<longrightarrow> lookup t' q = lookup t q)"

lemma confined_refl: "confined t p mx t"
  by (simp add: confined_def)

lemma confined_trans: "confined t p mx t' \<Longrightarrow> confined t' p mx t'' \<Longrightarrow> confined t p mx t''"
  unfolding confined_def by metis

lemma confined_put: "lookup (put t p (FileNode b)) p = Some (FileNode b) \<Longrightarrow> length b < 2 ^ 64 \<longrightarrow> length b \<le> unat mx \<Longrightarrow> confined t p mx (put t p (FileNode b))"
  unfolding confined_def using lookup_put_frame by blast

lemma confined_add:
  assumes "length b < 2 ^ 64 \<longrightarrow> length b \<le> unat mx"
  shows "confined t p mx (fst (tree_add t p (FileNode b)))"
proof (cases "lookup t p = None \<and> is_dir t (butlast p)")
  case True
  then have "tree_add t p (FileNode b) = (put t p (FileNode b), Inr ())" by (simp add: tree_add_def)
  with tree_add_at [OF this] assms show ?thesis by (simp add: confined_put)
next
  case False
  then have "fst (tree_add t p (FileNode b)) = t" by (auto simp: tree_add_def)
  then show ?thesis by (simp add: confined_refl)
qed

lemma confined_write:
  assumes "length b < 2 ^ 64 \<longrightarrow> length b \<le> unat mx"
  shows "confined t p mx (fst (tree_write t p b))"
proof (cases "lookup t p")
  case None
  then show ?thesis using confined_add [OF assms] by (simp add: tree_write_def)
next
  case (Some n)
  then show ?thesis using confined_put [OF lookup_put_at [OF Some] assms]
    by (cases n) (simp_all add: tree_write_def confined_refl)
qed

lemma confined_append:
  assumes "\<And>c. lookup t p = Some (FileNode c) \<Longrightarrow> length (c @ b) < 2 ^ 64 \<longrightarrow> length (c @ b) \<le> unat mx" and "length b < 2 ^ 64 \<longrightarrow> length b \<le> unat mx"
  shows "confined t p mx (fst (tree_append t p b))"
proof (cases "\<exists>c. lookup t p = Some (FileNode c)")
  case True
  then obtain c where c: "lookup t p = Some (FileNode c)" by blast
  with assms(1) have "length (c @ b) < 2 ^ 64 \<longrightarrow> length (c @ b) \<le> unat mx" by blast
  from confined_put [OF lookup_put_at [OF c] this] c show ?thesis by (simp add: tree_append_def)
next
  case False
  then have "tree_append t p b = tree_write t p b" by (auto simp: tree_append_def split: option.splits node.splits)
  then show ?thesis using confined_write [OF assms(2)] by simp
qed

lemma put_empty_dir: "lookup t p = None \<Longrightarrow> lookup (put t p (DirNode [])) (p @ [c]) = None"
proof (induction t p "DirNode []" rule: put.induct)
  case (2 es d p)
  then show ?case by (cases p) (auto simp: AList.update_conv' split: option.splits)
qed auto

lemma confined_create_parents:
  assumes "p \<noteq> []"
  shows "confined t p mx (fst (tree_create_dir_all t (butlast p)))"
proof (cases "tree_create_dir_all t (butlast p) = (put t (butlast p) (DirNode []), Inr ()) \<and> \<not> is_dir t (butlast p)")
  case True
  have all: "lookup t (butlast p) = None"
    using True unfolding tree_create_dir_all_def by (auto split: if_splits)
  have none: "lookup t (butlast p @ r) = None" for r using all by (simp add: lookup_append)
  have frame: "lookup (put t (butlast p) (DirNode [])) q = lookup t q" if notpre: "\<not> prefix q p" for q
  proof (cases "prefix (butlast p) q")
    case True
    then obtain r where r: "q = butlast p @ r" by (auto simp: prefix_def)
    then obtain c r' where "r = c # r'" using notpre by (cases r) (auto simp: prefixeq_butlast)
    moreover have "lookup (put t (butlast p) (DirNode [])) (butlast p @ [c]) = None" using put_empty_dir [OF all] .
    ultimately show ?thesis using none [of r] r lookup_append [of "put t (butlast p) (DirNode [])" "butlast p @ [c]" r'] by simp
  next
    case False
    moreover have "\<not> prefix q (butlast p)" using notpre prefixeq_butlast prefix_order.trans by blast
    ultimately show ?thesis by (rule lookup_put_frame)
  qed
  have "p = butlast p @ [last p]" using assms by simp
  then have "lookup (put t (butlast p) (DirNode [])) p = lookup t p"
    using put_empty_dir [OF all, of "last p"] none [of "[last p]"] by simp
  with frame True show ?thesis by (simp add: confined_def)
next
  case False
  then have "fst (tree_create_dir_all t (butlast p)) = t" by (auto simp: tree_create_dir_all_def)
  then show ?thesis by (simp add: confined_refl)
qed

lemma confined_and_then:
  assumes "confined t p mx (fst r)" and "\<And>s x. r = (s, Inr x) \<Longrightarrow> confined s p mx (fst (k s x))"
  shows "confined t p mx (fst (and_then r k))"
proof (cases r)
  case (Pair s x)
  show ?thesis
  proof (cases x)
    case (Inr y)
    with assms Pair show ?thesis using confined_trans [of t p mx s] by (simp add: and_then_def)
  qed (use assms(1) Pair in \<open>simp add: and_then_def\<close>)
qed

lemma fst_map_err [simp]: "fst (map_err f r) = fst r"
  by (auto simp: map_err_def split: prod.splits sum.splits)

lemma size_ok: "enforce_size_limit (len64 b) mx path = Inr () \<Longrightarrow> length b < 2 ^ 64 \<longrightarrow> length b \<le> unat mx"
  using unat_of_nat_u64 [of "length b"] by (auto simp: enforce_size_limit_def word_less_nat_alt not_less split: if_splits)

lemma confined_write_file: "enforce_size_limit (len64 b) mx path = Inr u \<Longrightarrow> confined t p mx (fst (write_file (tree_ops dev) t p b))"
  using confined_write [OF size_ok] by (simp add: write_file_def tree_sel)

lemmas confined_intros = confined_and_then confined_write_file confined_refl

lemma confined_full_write: "confined t p mx (fst (handle_full_write http (tree_ops dev) t path p fw mx))"
  unfolding handle_full_write_def Let_def by (intro confined_and_then) (auto intro: confined_intros)

lemma confined_edited_write: "confined t p mx (fst (edited_write (tree_ops dev) t path p mx e))"
  unfolding edited_write_def by (intro confined_and_then) (auto intro!: confined_intros)

lemma confined_edited_edit: "confined t p mx (fst (edited_edit (tree_ops dev) t path p mx e))"
  unfolding edited_edit_def by (intro confined_and_then) (auto intro!: confined_intros)

lemma map_err_state: "map_err f (t, r) = (s, x) \<Longrightarrow> s = t"
  by (auto simp: map_err_def split: sum.splits)

lemma confined_string_edit: "confined t p mx (fst (handle_string_replace_edit (tree_ops dev) t path p sr mx))"
  unfolding handle_string_replace_edit_def Let_def
  by (intro confined_and_then) (auto intro!: confined_intros dest!: map_err_state)

lemma confined_handle_append: "confined t p mx (fst (handle_append (tree_ops dev) t path p content mx))"
proof -
  have "confined t p mx (fst (tree_append t p content))"
    if ok: "enforce_size_limit (saturating_add (case fs_metadata (tree_ops dev) t p of Inr m \<Rightarrow> md_len m | Inl _ \<Rightarrow> 0) (len64 content)) mx path = Inr ()"
  proof (rule confined_append)
    have le: "min (unat (case fs_metadata (tree_ops dev) t p of Inr m \<Rightarrow> md_len m | Inl _ \<Rightarrow> 0) + unat (len64 content :: u64)) (2 ^ 64 - 1) \<le> unat mx"
      using ok by (auto simp: enforce_size_limit_def word_less_nat_alt unat_saturating_add not_less split: if_splits)
    show "length (c @ content) < 2 ^ 64 \<longrightarrow> length (c @ content) \<le> unat mx" if "lookup t p = Some (FileNode c)" for c
    proof
      assume "length (c @ content) < 2 ^ 64"
      with le that show "length (c @ content) \<le> unat mx"
        by (simp add: tree_sel tree_stat_def node_metadata_def unat_of_nat_u64)
    qed
    show "length content < 2 ^ 64 \<longrightarrow> length content \<le> unat mx"
    proof
      assume "length content < 2 ^ 64"
      with le show "length content \<le> unat mx" by (simp add: unat_of_nat_u64 min_def split: if_splits)
    qed
  qed
  then show ?thesis
    unfolding handle_append_def Let_def
    by (intro confined_and_then) (auto intro: confined_refl simp: tree_sel)
qed

lemma fst_reject [simp]: "fst (reject_if_final_component_is_symlink ops s p path nf) = s"
  by (simp add: reject_if_final_component_is_symlink_def)

section \<open>Properties\<close>


text \<open>The result of an edit of a regular text file that is within the limits.\<close>

lemma handle_string_edit_tree:
  assumes "lookup t p = Some (FileNode raw)" and "from_utf8_ok raw" and "length raw < 2 ^ 64" and "length raw \<le> unat mx"
    and "ed_method req = Some (EStringReplace sr)" and "ed_encoding req = None"
  defines "n \<equiv> str_matches raw (sr_old_string sr)"
    and "updated \<equiv> (if sr_replace_all sr then str_replace raw (sr_old_string sr) (sr_new_string sr)
                     else str_replace_first raw (sr_old_string sr) (sr_new_string sr))"
  shows "handle_edit (tree_ops dev) t req p mx =
    (if n = 0 \<or> 1 < n \<and> \<not> sr_replace_all sr
     then (t, Inr \<lparr> edr_path = path_str p, edr_final_size = len64 raw, edr_replacements_made = Some 0,
             edr_match_error = Some (if n = 0 then ''old_string not found in '' @ ed_path req
                                     else ''multiple matches found ('' @ show_nat (unat n) @ '')'') \<rparr>)
     else (case enforce_size_limit (len64 updated) mx (ed_path req) of
             Inl e \<Rightarrow> (t, Inl e)
           | Inr _ \<Rightarrow> (put t p (FileNode updated), Inr \<lparr> edr_path = path_str p, edr_final_size = len64 updated,
                        edr_replacements_made = Some n, edr_match_error = None \<rparr>)))"
proof -
  let ?ops = "tree_ops dev"
  have meta: "fs_metadata ?ops t p = Inr (node_metadata (FileNode raw))" "fs_symlink_metadata ?ops t p = Inr (node_metadata (FileNode raw))"
    using assms(1) by (simp_all add: tree_sel tree_stat_def)
  have reject: "reject_if_final_component_is_symlink ?ops t p x y = (t, Inr ())" for x y
    by (simp add: reject_if_final_component_is_symlink_def meta node_metadata_def)
  have ex: "exists_at ?ops t p" using assms(1) by (simp add: exists_at_def tree_sel)
  have limit: "enforce_existing_size_limit ?ops t p mx x = Inr ()" for x
    using assms(3,4) by (simp add: enforce_existing_size_limit_def meta node_metadata_def word_less_nat_alt unat_of_nat_u64 not_less)
  have read: "read_to_string ?ops t p = Inr raw" using assms(1,2) by (simp add: read_to_string_def tree_sel tree_read_def)
  have written: "write_file ?ops t p b = (put t p (FileNode b), Inr ())" for b
    using assms(1) by (simp add: write_file_def tree_sel tree_write_def map_err_def)
  show ?thesis
    unfolding handle_edit_def assms(5,6) handle_string_replace_edit_def
    by (simp add: ensure_encoding_supported_def and_then_def reject ex meta node_metadata_def limit read written map_err_def Let_def
        n_def updated_def split: sum.split)
qed

lemma split_str_length:
  assumes "pat \<noteq> []"
  shows "length (split_str pat s) \<le> Suc (length s)"
  using assms
proof (induction s rule: split_str_induct)
  case (found s)
  have "0 < length s" "0 < length pat" using found(1) assms by auto
  moreover have "length (split_str pat (drop (length pat) s)) \<le> Suc (length s - length pat)" using found(2) by simp
  ultimately have "length (split_str pat (drop (length pat) s)) \<le> length s" by linarith
  then show ?case unfolding split_str_found [OF assms found(1)] by simp
next
  case (skip b bs)
  then show ?case unfolding split_str_skip [OF assms skip(1)] by simp
qed (simp add: split_str_empty assms)

lemma str_matches_cases:
  assumes "pat \<noteq> []" and "length raw < 2 ^ 32 - 1"
  shows "str_matches raw pat = 0 \<longleftrightarrow> \<not> sublist pat raw" and "1 < str_matches raw pat \<longleftrightarrow> occurs_twice pat raw"
proof -
  define k where "k = length (split_str pat raw)"
  have k: "0 < k" "k - 1 < 2 ^ 32" using split_str_ne [of pat raw] split_str_length [OF assms(1), of raw] assms(2) by (auto simp: k_def)
  have n: "unat (str_matches raw pat) = k - 1" using k(2) by (simp add: str_matches_def k_def unat_of_nat_u32)
  have "str_matches raw pat = 0 \<longleftrightarrow> k = 1" using n k(1) by (simp add: word_unat_eq_iff) linarith
  then show "str_matches raw pat = 0 \<longleftrightarrow> \<not> sublist pat raw" using split_str_single [OF assms(1)] by (simp add: k_def)
  have "1 < str_matches raw pat \<longleftrightarrow> 2 < k" using n k(1) by (simp add: word_less_nat_alt) linarith
  then show "1 < str_matches raw pat \<longleftrightarrow> occurs_twice pat raw" using split_str_twice [OF assms(1)] by (simp add: k_def)
qed

text \<open>
  C37. A string edit replaces exactly what it says or leaves the file alone. If the old string does not occur,
  or occurs in two places and not all are to be replaced, the file is unchanged and the answer says so.
  Otherwise the edit is refused as too large, or the new file is the old one with every occurrence, the
  only one unless all are asked for, replaced and all text between them kept.
\<close>

theorem string_edit_outcome:
  assumes "lookup t p = Some (FileNode raw)" and "from_utf8_ok raw" and "length raw < 2 ^ 32 - 1" and "length raw \<le> unat mx"
    and "ed_method req = Some (EStringReplace sr)" and "ed_encoding req = None" and "sr_old_string sr \<noteq> []"
  shows "let r = handle_edit (tree_ops dev) t req p mx; old = sr_old_string sr; new = sr_new_string sr
    in if \<not> sublist old raw \<or> occurs_twice old raw \<and> \<not> sr_replace_all sr
       then fst r = t \<and> (\<exists>res. snd r = Inr res \<and> edr_match_error res \<noteq> None \<and> edr_replacements_made res = Some 0)
       else (\<exists>e. r = (t, Inl e) \<and> fe_code e = TooLarge) \<or>
            (\<exists>parts. raw = join_with old parts \<and> (\<forall>x \<in> set parts. \<not> sublist old x) \<and> (\<not> sr_replace_all sr \<longrightarrow> length parts = 2) \<and>
               fst r = put t p (FileNode (join_with new parts)) \<and>
               (\<exists>res. snd r = Inr res \<and> edr_match_error res = None \<and> edr_replacements_made res = Some (word_of_nat (length parts - 1))))"
proof -
  define old where "old = sr_old_string sr"
  define new where "new = sr_new_string sr"
  define parts where "parts = split_str old raw"
  define updated where "updated = (if sr_replace_all sr then str_replace raw old new else str_replace_first raw old new)"
  have ne: "old \<noteq> []" using assms(7) by (simp add: old_def)
  note count = str_matches_cases [OF ne assms(3)]
  have small: "length raw < 2 ^ 64" using assms(3) by simp
  note eq = handle_string_edit_tree [OF assms(1,2) small assms(4,5,6), of dev, folded old_def new_def, folded updated_def]
  show ?thesis
  proof (cases "\<not> sublist old raw \<or> occurs_twice old raw \<and> \<not> sr_replace_all sr")
    case True
    then have "str_matches raw old = 0 \<or> 1 < str_matches raw old \<and> \<not> sr_replace_all sr" using count by blast
    then show ?thesis unfolding Let_def eq old_def [symmetric] using True by simp
  next
    case False
    then have sub: "\<not> (str_matches raw old = 0 \<or> 1 < str_matches raw old \<and> \<not> sr_replace_all sr)" using count by blast
    have two: "length parts = 2" if "\<not> sr_replace_all sr"
    proof -
      have "length parts \<noteq> 1" "\<not> 2 < length parts"
        using False that split_str_single [OF ne, of raw] split_str_twice [OF ne, of raw] by (auto simp: parts_def)
      moreover have "0 < length parts" using split_str_ne by (simp add: parts_def)
      ultimately show ?thesis by linarith
    qed
    have updated: "updated = join_with new parts"
    proof (cases "sr_replace_all sr")
      case False
      with two obtain a b where "parts = [a, b]" by (auto simp: length_Suc_conv numeral_2_eq_2)
      then show ?thesis using False by (simp add: updated_def str_replace_first_def parts_def)
    qed (simp add: updated_def str_replace_def parts_def)
    have "raw = join_with old parts" by (simp add: parts_def join_split)
    moreover have "\<forall>x \<in> set parts. \<not> sublist old x" using split_str_parts [OF ne] by (auto simp: parts_def)
    moreover have "str_matches raw old = word_of_nat (length parts - 1)" by (simp add: str_matches_def parts_def)
    ultimately have "\<exists>parts. raw = join_with old parts \<and> (\<forall>x \<in> set parts. \<not> sublist old x) \<and> (\<not> sr_replace_all sr \<longrightarrow> length parts = 2) \<and>
        updated = join_with new parts \<and> str_matches raw old = word_of_nat (length parts - 1)"
      using two updated by blast
    then show ?thesis
      unfolding Let_def eq old_def [symmetric] new_def [symmetric] if_not_P [OF sub] if_not_P [OF False]
      by (cases "enforce_size_limit (len64 updated) mx (ed_path req)")
        (auto simp: enforce_size_limit_def file_error_def split: if_splits)
  qed
qed

definition edit_string :: StringReplace where
  "edit_string = \<lparr> sr_old_string = [98, 13], sr_new_string = [99], sr_replace_all = False \<rparr>"

definition edit_request :: FileEdit where
  "edit_request = \<lparr> ed_path = ''/f'', ed_method = Some (EStringReplace edit_string), ed_encoding = None, ed_no_follow_symlink = False \<rparr>"

lemma text_tree_file: "lookup text_tree [''f''] = Some (FileNode text_file)"
  by (simp add: text_tree_def)

lemma text_file_utf8: "from_utf8_ok text_file"
  by (simp add: text_file_def utf8_tail_def between_def)

theorem string_edit_outcome_witness:
  "(\<exists>e. handle_edit (tree_ops (\<lambda>_. 0)) text_tree edit_request [''f''] 100 = (text_tree, Inl e)) \<or>
   (\<exists>parts. text_file = join_with [98, 13] parts \<and> length parts = 2 \<and>
      fst (handle_edit (tree_ops (\<lambda>_. 0)) text_tree edit_request [''f''] 100) = put text_tree [''f''] (FileNode (join_with [99] parts)))"
proof -
  have sub: "sublist [98, 13] text_file" by (simp add: text_file_def sublist_Cons_right)
  have once: "\<not> occurs_twice [98, 13] text_file"
    using split_str_twice [of "[98, 13]" text_file] by (simp add: text_file_def split_str.simps)
  have "length text_file < 2 ^ 32 - 1" "length text_file \<le> unat (100 :: u64)" by (simp_all add: text_file_def)
  moreover have "ed_method edit_request = Some (EStringReplace edit_string)" "ed_encoding edit_request = None"
    by (simp_all add: edit_request_def)
  moreover have sr: "sr_old_string edit_string = [98, 13]" "sr_new_string edit_string = [99]" "\<not> sr_replace_all edit_string"
    by (simp_all add: edit_string_def)
  ultimately show ?thesis
    using string_edit_outcome [OF text_tree_file text_file_utf8, of 100 edit_request edit_string "\<lambda>_. 0"] sub once
    unfolding Let_def sr by (simp del: handle_edit_def) blast
qed

section \<open>Ranges\<close>

fun is_lines :: "bytes list \<Rightarrow> bool" where
  "is_lines [] \<longleftrightarrow> True"
| "is_lines [l] \<longleftrightarrow> l \<noteq> [] \<and> LF \<notin> set (butlast l)"
| "is_lines (l # ls) \<longleftrightarrow> l \<noteq> [] \<and> LF \<notin> set (butlast l) \<and> last l = LF \<and> is_lines ls"

lemma is_lines_split: "is_lines (split_lines xs)"
proof (induction xs)
  case (Cons b bs)
  show ?case
  proof (cases "split_lines bs")
    case (Cons l ls)
    with \<open>is_lines (split_lines bs)\<close> show ?thesis by (cases ls) auto
  qed simp
qed simp

lemma is_lines_Cons: "is_lines (l # ls) \<Longrightarrow> is_lines ls"
  by (cases ls) auto

lemma is_lines_take: "is_lines ls \<Longrightarrow> is_lines (take k ls)"
proof (induction ls arbitrary: k rule: is_lines.induct)
  case (3 l l' ls)
  show ?case
  proof (cases k)
    case (Suc m)
    with 3(1) [of m] 3(2) show ?thesis by (cases m) auto
  qed simp
qed (auto simp: take_Cons split: nat.splits)

lemma is_lines_drop: "is_lines ls \<Longrightarrow> is_lines (drop k ls)"
  by (induction k arbitrary: ls) (auto simp: drop_Suc dest: is_lines_Cons split: list.splits, metis is_lines_Cons list.exhaust_sel drop_Nil list.sel(2))

lemma split_concat_lines: "is_lines ls \<Longrightarrow> split_lines (concat ls) = ls"
  by (induction ls rule: is_lines.induct) (simp_all add: split_lines_single split_lines_append)

lemma last_line_ends: "is_lines ls \<Longrightarrow> 0 < k \<Longrightarrow> k < length ls \<Longrightarrow> concat (take k ls) \<noteq> [] \<and> last (concat (take k ls)) = LF"
proof (induction ls arbitrary: k rule: is_lines.induct)
  case (3 l l' ls)
  from 3(3) obtain m where m: "k = Suc m" by (cases k) auto
  show ?case
  proof (cases m)
    case 0
    with m 3(2) show ?thesis by simp
  next
    case (Suc j)
    then have "concat (take m (l' # ls)) \<noteq> [] \<and> last (concat (take m (l' # ls))) = LF"
      using 3(2,4) m by (intro 3(1)) auto
    then show ?thesis using m 3(2) by (auto simp: last_append)
  qed
qed simp_all

lemma line_ends: "is_lines ls \<Longrightarrow> Suc i < length ls \<Longrightarrow> ls ! i \<noteq> [] \<and> last (ls ! i) = LF"
proof (induction ls arbitrary: i rule: is_lines.induct)
  case (3 l l' ls)
  then show ?case by (cases i) auto
qed simp_all



lemma byte_range_tree:
  assumes "lookup t p = Some (FileNode raw)" and "length raw < 2 ^ 64"
    and b: "b = take (unat (by_byte_offset br)) raw @ by_new_content br @ drop (unat (by_byte_offset br) + unat (by_byte_length br)) raw"
  shows "handle_byte_range_replace_edit (tree_ops dev) t path p br mx = (t', Inr res) \<longleftrightarrow>
    length raw \<le> unat mx \<and> unat (by_byte_offset br) + unat (by_byte_length br) \<le> length raw \<and>
    enforce_size_limit (len64 b) mx path = Inr () \<and> t' = put t p (FileNode b) \<and>
    res = \<lparr> edr_path = path_str p, edr_final_size = len64 b, edr_replacements_made = None, edr_match_error = None \<rparr>"
proof -
  have limit: "\<exists>e. enforce_existing_size_limit (tree_ops dev) t p mx path = (if unat mx < length raw then Inl e else Inr ())"
    using assms(1,2) by (simp add: enforce_existing_size_limit_def tree_sel tree_stat_def node_metadata_def word_less_nat_alt unat_of_nat_u64)
  have read: "fs_read (tree_ops dev) t p = Inr raw" using assms(1) by (simp add: tree_sel tree_read_def)
  have written: "write_file (tree_ops dev) t p b = (put t p (FileNode b), Inr ())"
    using assms(1) by (simp add: write_file_def tree_sel tree_write_def map_err_def)
  have sum: "unat (by_byte_offset br + by_byte_length br) = unat (by_byte_offset br) + unat (by_byte_length br)"
    if "\<not> 2 ^ 64 \<le> unat (by_byte_offset br) + unat (by_byte_length br)"
    using that by (simp add: unat_word_ariths(1))
  have apply_eq: "\<exists>e. apply_byte_range_replace (tree_ops dev) t path p br mx =
      (if length raw \<le> unat mx \<and> unat (by_byte_offset br) + unat (by_byte_length br) \<le> length raw then Inr b else Inl e)"
    using sum limit assms(2)
    by (auto simp: apply_byte_range_replace_def read attempt_def word_less_nat_alt unat_of_nat_u64 Let_def b)
  then show ?thesis
    by (auto simp: handle_byte_range_replace_edit_def edited_edit_def written and_then_def split: sum.splits if_splits)
qed

text \<open>
  C39. A byte range edit can be undone. After a successful edit, replacing the inserted bytes by those that were there
  restores the file exactly.
\<close>

theorem byte_range_edit_undo:
  assumes "lookup t p = Some (FileNode raw)" and "length raw + length (by_new_content br) < 2 ^ 64"
    and "handle_byte_range_replace_edit (tree_ops dev) t path p br mx = (t', Inr res)"
  defines "back \<equiv> \<lparr> by_byte_offset = by_byte_offset br, by_byte_length = len64 (by_new_content br),
                      by_new_content = take (unat (by_byte_length br)) (drop (unat (by_byte_offset br)) raw) \<rparr>"
  shows "\<exists>t'' res'. handle_byte_range_replace_edit (tree_ops dev) t' path p back mx = (t'', Inr res') \<and> lookup t'' p = Some (FileNode raw)"
proof -
  define o' where "o' = unat (by_byte_offset br)"
  define l where "l = unat (by_byte_length br)"
  define new where "new = by_new_content br"
  define b where "b = take o' raw @ new @ drop (o' + l) raw"
  have raw: "length raw < 2 ^ 64" using assms(2) by simp
  from assms(3) have ok: "length raw \<le> unat mx" "o' + l \<le> length raw" "enforce_size_limit (len64 b) mx path = Inr ()" "t' = put t p (FileNode b)"
    unfolding byte_range_tree [OF assms(1) raw b_def [unfolded o'_def l_def new_def]] o'_def l_def by auto
  have b: "length b < 2 ^ 64" using assms(2) ok(2) by (simp add: b_def new_def)
  then have small: "length b \<le> unat mx" using size_ok [OF ok(3)] by simp
  have t': "lookup t' p = Some (FileNode b)" unfolding ok(4) using assms(1) by (rule lookup_put_at)
  have new: "unat (by_byte_length back) = length new" using assms(2) by (simp add: back_def new_def unat_of_nat_u64)
  have restored: "raw = take (unat (by_byte_offset back)) b @ by_new_content back @ drop (unat (by_byte_offset back) + unat (by_byte_length back)) b"
  proof -
    have "take o' b = take o' raw" "drop (o' + length new) b = drop (o' + l) raw" using ok(2) by (simp_all add: b_def)
    moreover have "take o' raw @ take l (drop o' raw) @ drop (o' + l) raw = raw"
      by (metis append_assoc append_take_drop_id take_add)
    ultimately show ?thesis unfolding new by (simp add: back_def o'_def l_def)
  qed
  have "enforce_size_limit (len64 raw) mx path = Inr ()"
    using ok(1) raw by (simp add: enforce_size_limit_def word_less_nat_alt unat_of_nat_u64)
  moreover have "by_byte_offset back = by_byte_offset br" by (simp add: back_def)
  moreover have "o' + length new \<le> length b" using ok(2) by (simp add: b_def)
  ultimately have "\<exists>res'. handle_byte_range_replace_edit (tree_ops dev) t' path p back mx = (put t' p (FileNode raw), Inr res')"
    unfolding byte_range_tree [OF t' b restored] new using small by (simp add: o'_def)
  then show ?thesis using lookup_put_at [OF t'] by blast
qed

theorem byte_range_edit_undo_witness:
  "\<exists>t'' res'. handle_byte_range_replace_edit (tree_ops (\<lambda>_. 0)) (DirNode [(''f'', FileNode [97, 7, 7, 10, 10, 99])]) ''/f'' [''f'']
     \<lparr> by_byte_offset = 1, by_byte_length = 2, by_new_content = [98, 13] \<rparr> 100 = (t'', Inr res') \<and> lookup t'' [''f''] = Some (FileNode text_file)"
proof -
  let ?br = "\<lparr> by_byte_offset = 1, by_byte_length = 2, by_new_content = [7, 7] \<rparr>"
  have b: "[97, 7, 7, 10, 10, 99] = take (unat (by_byte_offset ?br)) text_file @ by_new_content ?br @
      drop (unat (by_byte_offset ?br) + unat (by_byte_length ?br)) text_file" and len: "length text_file < 2 ^ 64"
    by (simp_all add: text_file_def)
  have "\<exists>res. handle_byte_range_replace_edit (tree_ops (\<lambda>_. 0)) text_tree ''/f'' [''f''] ?br 100 =
      (DirNode [(''f'', FileNode [97, 7, 7, 10, 10, 99])], Inr res)"
    unfolding byte_range_tree [OF text_tree_file len b] by (simp add: enforce_size_limit_def text_tree_def text_file_def)
  then obtain res where "handle_byte_range_replace_edit (tree_ops (\<lambda>_. 0)) text_tree ''/f'' [''f''] ?br 100 =
      (DirNode [(''f'', FileNode [97, 7, 7, 10, 10, 99])], Inr res)" by blast
  from byte_range_edit_undo [OF text_tree_file _ this] show ?thesis by (simp add: text_file_def)
qed

text \<open>
  A write that asks for the parent directories to be created and then fails leaves them behind, also for the
  methods that only edit an existing file.
\<close>

lemma failed_write_leaves_parents:
  "handle_write http (tree_ops dev) (DirNode []) \<lparr> wr_path = ''/a/f'', wr_create_parents = True,
       wr_method = Some (WStringReplace sr), wr_encoding = None, wr_no_follow_symlink = False \<rparr> [''a'', ''f''] mx =
     (DirNode [(''a'', DirNode [])], Inl (io_err [''a'', ''f''] ENOENT))"
  by (simp add: handle_write_def ensure_encoding_supported_def and_then_def reject_if_final_component_is_symlink_def map_err_def tree_sel
      tree_create_dir_all_def is_dir_def handle_string_replace_write_def edited_write_def apply_string_replace_def attempt_def
      enforce_existing_size_limit_def tree_stat_def read_to_string_def tree_read_def)

end
