(* ===== verification/File_Manager.thy ===== *)
theory File_Manager
  imports File_Policy Dir_List Write_Ops
begin

text \<open>
  \<^verbatim>\<open>FileManager\<close> (\<^verbatim>\<open>ahandd/src/file_manager/mod.rs\<close>): the check of a request before an approval, the
  dispatch of a request to the handlers of the other theories on the paths the policy resolved, and the
  check after a creation; with \<^verbatim>\<open>handle_stat\<close> and \<^verbatim>\<open>handle_glob\<close> of \<^verbatim>\<open>fs_ops.rs\<close>.

  \<open>FileEnv\<close> collects what the operations are given from outside. Reading images and PDF files is left to
  parameters. \<open>None\<close> is a walk through a directory that has not ended within the fuel.
\<close>

section \<open>Definitions\<close>

subsection \<open>Requests\<close>

record FileStat =
  fst_path :: string
  fst_no_follow_symlink :: bool

record FileGlob =
  fg_pattern :: string
  fg_base_path :: "string option"
  fg_max_results :: "u32 option"

record FileCreateSymlink =
  sl_target :: string
  sl_link_path :: string

text \<open>A request to read an image or a PDF file; its other fields are for the decoder.\<close>

record FileDecode =
  dc_path :: string
  dc_no_follow_symlink :: bool

datatype Operation =
    OpReadText FileReadText
  | OpReadBinary FileReadBinary
  | OpReadImage FileDecode
  | OpReadPdf FileDecode
  | OpWrite FileWrite
  | OpEdit FileEdit
  | OpDelete FileDelete
  | OpChmod FileChmod
  | OpStat FileStat
  | OpList FileList
  | OpGlob FileGlob
  | OpMkdir FileMkdir
  | OpCopy FileCopy
  | OpMove FileMove
  | OpCreateSymlink FileCreateSymlink

definition base_of :: "string option \<Rightarrow> string option" where
  "base_of base = (case base of Some b \<Rightarrow> if b = [] then None else Some b | None \<Rightarrow> None)"

definition collect_request_paths :: "Operation \<Rightarrow> (string \<times> bool \<times> bool) list" where
  "collect_request_paths op =
     (case op of
        OpStat r \<Rightarrow> [(fst_path r, False, fst_no_follow_symlink r)]
      | OpList r \<Rightarrow> [(fl_path r, False, False)]
      | OpGlob r \<Rightarrow> (case base_of (fg_base_path r) of Some b \<Rightarrow> [(b, False, False)] | None \<Rightarrow> [])
      | OpMkdir r \<Rightarrow> [(fm_path r, True, False)]
      | OpReadText r \<Rightarrow> [(rq_path r, False, rq_no_follow_symlink r)]
      | OpReadBinary r \<Rightarrow> [(rb_path r, False, rb_no_follow_symlink r)]
      | OpReadImage r \<Rightarrow> [(dc_path r, False, dc_no_follow_symlink r)]
      | OpReadPdf r \<Rightarrow> [(dc_path r, False, dc_no_follow_symlink r)]
      | OpWrite r \<Rightarrow> [(wr_path r, True, wr_no_follow_symlink r)]
      | OpEdit r \<Rightarrow> [(ed_path r, True, ed_no_follow_symlink r)]
      | OpDelete r \<Rightarrow> [(fd_path r, True, fd_no_follow_symlink r)]
      | OpChmod r \<Rightarrow> [(ch_path r, True, ch_no_follow_symlink r)]
      | OpCopy r \<Rightarrow> [(fc_source r, False, False), (fc_destination r, True, False)]
      | OpMove r \<Rightarrow> [(mv_source r, True, False), (mv_destination r, True, False)]
      | OpCreateSymlink r \<Rightarrow>
          (sl_link_path r, True, True) #
          (if sl_target r = [] then []
           else if is_absolute (sl_target r) then [(sl_target r, False, True)]
           else (case parent_of (components (sl_link_path r)) of
                   Some parent \<Rightarrow> [(render (lexically_normalize (path_join parent (sl_target r))), False, True)]
                 | None \<Rightarrow> [])))"

definition request_paths :: "Operation option \<Rightarrow> string list" where
  "request_paths operation = (case operation of None \<Rightarrow> [] | Some op \<Rightarrow> map fst (collect_request_paths op))"

subsection \<open>The check before an approval\<close>

datatype EscalationKind = RecursivePermanentDelete | DangerousPath | DangerousGlobMatch | GlobScanCapHit

record ApprovalEscalation =
  ae_kind :: EscalationKind
  ae_reason :: string
  ae_path :: "string option"

datatype GlobScanOutcome = FoundDangerous string | CapHit | Clean

definition pattern_has_parent :: "string \<Rightarrow> bool" where
  "pattern_has_parent pattern \<longleftrightarrow> ''..'' \<in> set (split_at (\<lambda>c. c = CHR ''/'' \<or> c = CHR 0x5C) pattern)"

text \<open>At the cap, one more match decides between \<open>Clean\<close> and \<open>CapHit\<close>.\<close>

fun scan_matches :: "'s PolicyEnv \<Rightarrow> FilePolicyChecker \<Rightarrow> 's \<Rightarrow> nat \<Rightarrow> string option list \<Rightarrow> GlobScanOutcome" where
  "scan_matches env pc s 0 entries = (if entries = [] then Clean else CapHit)"
| "scan_matches env pc s (Suc n) [] = Clean"
| "scan_matches env pc s (Suc n) (None # entries) = scan_matches env pc s n entries"
| "scan_matches env pc s (Suc n) (Some p # entries) =
     (case check_path env pc s p False False of
        Inr result \<Rightarrow> if pr_needs_approval result then FoundDangerous p else scan_matches env pc s n entries
      | Inl _ \<Rightarrow> scan_matches env pc s n entries)"

definition full_pattern :: "path option \<Rightarrow> string \<Rightarrow> string" where
  "full_pattern base pattern = (case base of Some b \<Rightarrow> push_path (path_str b) pattern | None \<Rightarrow> pattern)"

definition glob_has_dangerous_match :: "'s PolicyEnv \<Rightarrow> FilePolicyChecker \<Rightarrow> nat \<Rightarrow> 's \<Rightarrow> FileGlob \<Rightarrow> GlobScanOutcome" where
  "glob_has_dangerous_match env pc cap s req =
     (if is_absolute (fg_pattern req) then Clean
      else if pattern_has_parent (fg_pattern req) then Clean
      else
        (let scan = (\<lambda>base. case pe_search env s (full_pattern base (fg_pattern req)) of
               None \<Rightarrow> Clean
             | Some entries \<Rightarrow> scan_matches env pc s cap entries)
         in case base_of (fg_base_path req) of
              None \<Rightarrow> scan None
            | Some b \<Rightarrow> (case check_path env pc s b False False of Inl _ \<Rightarrow> Clean | Inr r \<Rightarrow> scan (Some (pr_resolved_path r)))))"

fun first_escalation ::
  "'s PolicyEnv \<Rightarrow> FilePolicyChecker \<Rightarrow> 's \<Rightarrow> (string \<times> bool \<times> bool) list \<Rightarrow> FileError + ApprovalEscalation option" where
  "first_escalation env pc s [] = Inr None"
| "first_escalation env pc s ((p, is_write, no_follow) # ps) =
     (case check_path env pc s p is_write no_follow of
        Inl e \<Rightarrow> Inl e
      | Inr result \<Rightarrow>
          if pr_needs_approval result
          then Inr (Some \<lparr> ae_kind = DangerousPath, ae_reason = ''path '' @ [CHR 0x27] @ p @ [CHR 0x27] @ '' is listed in dangerous_paths'',
                           ae_path = Some p \<rparr>)
          else first_escalation env pc s ps)"

definition recursive_permanent_delete :: "Operation \<Rightarrow> string option" where
  "recursive_permanent_delete op =
     (case op of OpDelete d \<Rightarrow> if fd_mode d = Permanent \<and> fd_recursive d then Some (fd_path d) else None | _ \<Rightarrow> None)"

definition check_request_approval ::
  "'s PolicyEnv \<Rightarrow> FilePolicyChecker \<Rightarrow> nat \<Rightarrow> 's \<Rightarrow> Operation option \<Rightarrow> FileError + ApprovalEscalation option" where
  "check_request_approval env pc cap s operation =
     (case operation of
        None \<Rightarrow> Inr None
      | Some op \<Rightarrow>
          (case recursive_permanent_delete op of
             Some p \<Rightarrow>
               Inr (Some \<lparr> ae_kind = RecursivePermanentDelete, ae_reason = ''recursive permanent delete requires explicit approval'',
                           ae_path = Some p \<rparr>)
           | None \<Rightarrow>
               (case first_escalation env pc s (collect_request_paths op) of
                  Inl e \<Rightarrow> Inl e
                | Inr (Some escalation) \<Rightarrow> Inr (Some escalation)
                | Inr None \<Rightarrow>
                    (case op of
                       OpGlob g \<Rightarrow>
                         (case glob_has_dangerous_match env pc cap s g of
                            FoundDangerous p \<Rightarrow>
                              Inr (Some \<lparr> ae_kind = DangerousGlobMatch,
                                ae_reason = ''glob pattern matches a path '' @ [CHR 0x27] @ p @ [CHR 0x27] @ '' listed in dangerous_paths'',
                                ae_path = Some p \<rparr>)
                          | CapHit \<Rightarrow>
                              Inr (Some \<lparr> ae_kind = GlobScanCapHit,
                                ae_reason = ''glob pattern matches more than '' @ show_nat cap @
                                  '' paths; approval required because not all matches could be checked against dangerous_paths'',
                                ae_path = None \<rparr>)
                          | Clean \<Rightarrow> Inr None)
                     | _ \<Rightarrow> Inr None))))"

subsection \<open>Metadata and matches\<close>

record FileStatResult =
  st_path :: string
  st_file_type :: FileType
  st_size :: u64
  st_modified_ms :: u64
  st_created_ms :: u64
  st_accessed_ms :: u64
  st_mode :: u32
  st_symlink_target :: "string option"

definition link_target :: "'s FsOps \<Rightarrow> 's \<Rightarrow> path \<Rightarrow> Metadata \<Rightarrow> string option" where
  "link_target ops s p metadata =
     (if md_type metadata = FtSymlink then (case fs_read_link ops s p of Inr l \<Rightarrow> Some l | Inl _ \<Rightarrow> None) else None)"

definition handle_stat :: "'s FsOps \<Rightarrow> 's \<Rightarrow> FileStat \<Rightarrow> path \<Rightarrow> FileError + FileStatResult" where
  "handle_stat ops s req resolved =
     (case (if fst_no_follow_symlink req then fs_symlink_metadata ops s resolved else fs_metadata ops s resolved) of
        Inl e \<Rightarrow> Inl (io_err resolved e)
      | Inr metadata \<Rightarrow>
          Inr \<lparr> st_path = path_str resolved, st_file_type = md_type metadata, st_size = md_len metadata,
                st_modified_ms = system_time_to_ms (md_modified metadata), st_created_ms = system_time_to_ms (md_created metadata),
                st_accessed_ms = system_time_to_ms (md_accessed metadata), st_mode = md_mode metadata,
                st_symlink_target = link_target ops s resolved metadata \<rparr>)"

record FileGlobResult =
  gr_entries :: "FileEntry list"
  gr_total_matches :: u32
  gr_has_more :: bool

definition DEFAULT_GLOB_MAX :: u32 where
  "DEFAULT_GLOB_MAX = 1000"

fun glob_entries ::
  "'s PolicyEnv \<Rightarrow> FilePolicyChecker \<Rightarrow> 's FsOps \<Rightarrow> 's \<Rightarrow> nat \<Rightarrow> string option list \<Rightarrow> FileEntry list \<Rightarrow> u32 \<Rightarrow> FileEntry list \<times> u32" where
  "glob_entries env pc ops s max_results [] entries total_matches = (entries, total_matches)"
| "glob_entries env pc ops s max_results (None # matches) entries total_matches =
     glob_entries env pc ops s max_results matches entries total_matches"
| "glob_entries env pc ops s max_results (Some p # matches) entries total_matches =
     (case check_path env pc s p False False of
        Inl _ \<Rightarrow> glob_entries env pc ops s max_results matches entries total_matches
      | Inr _ \<Rightarrow>
          (let total_matches = saturating_inc total_matches
           in if max_results \<le> length entries then glob_entries env pc ops s max_results matches entries total_matches
              else (case fs_symlink_metadata ops s (below_root p) of
                      Inl _ \<Rightarrow> glob_entries env pc ops s max_results matches entries total_matches
                    | Inr metadata \<Rightarrow>
                        glob_entries env pc ops s max_results matches
                          (entries @ [\<lparr> en_name = p, en_type = md_type metadata, en_size = md_len metadata,
                                        en_modified_ms = system_time_to_ms (md_modified metadata),
                                        en_symlink_target = link_target ops s (below_root p) metadata \<rparr>]) total_matches)))"

definition handle_glob ::
  "'s PolicyEnv \<Rightarrow> FilePolicyChecker \<Rightarrow> 's FsOps \<Rightarrow> (string \<Rightarrow> string) \<Rightarrow> 's \<Rightarrow> FileGlob \<Rightarrow> path option \<Rightarrow> FileError + FileGlobResult" where
  "handle_glob env pc ops pattern_error s req base =
     (let max_results = unat (case fg_max_results req of Some n \<Rightarrow> n | None \<Rightarrow> DEFAULT_GLOB_MAX);
          pattern = full_pattern base (fg_pattern req)
      in case pe_search env s pattern of
           None \<Rightarrow> Inl (file_error InvalidPath (fg_pattern req) (''invalid glob pattern: '' @ pattern_error pattern))
         | Some matches \<Rightarrow>
             (case glob_entries env pc ops s max_results matches [] 0 of
                (entries, total_matches) \<Rightarrow>
                  Inr \<lparr> gr_entries = sort_key (\<lambda>e. - 1 - en_modified_ms e) entries, gr_total_matches = total_matches,
                        gr_has_more = (length entries < unat total_matches) \<rparr>))"

subsection \<open>Dispatch\<close>

datatype ('i, 'd) OpResult =
    RStat FileStatResult
  | RList FileListResult
  | RGlob FileGlobResult
  | RMkdir string bool
  | RReadText FileReadTextResult
  | RReadBinary FileReadBinaryResult
  | RReadImage 'i
  | RReadPdf 'd
  | RWrite FileWriteResult
  | REdit FileEditResult
  | RDelete FileDeleteResult
  | RChmod string u32
  | RCopy string string u32
  | RMove string string
  | RCreateSymlink string string

record ('s, 'e, 'i, 'd) FileEnv =
  fe_policy_env :: "'s PolicyEnv"
  fe_ops :: "'s FsOps"
  fe_fuel :: nat
  fe_list_dir :: "'s \<Rightarrow> path \<Rightarrow> IoError + (IoError + DirEntry) list"
  fe_pattern_error :: "string \<Rightarrow> string"
  fe_encs :: "'e Encodings"
  fe_image :: "'s \<Rightarrow> FileDecode \<Rightarrow> path \<Rightarrow> u64 \<Rightarrow> FileError + 'i"
  fe_pdf :: "'s \<Rightarrow> FileDecode \<Rightarrow> path \<Rightarrow> u64 \<Rightarrow> FileError + 'd"
  fe_http :: HttpEnv
  fe_guess_trash :: "path \<Rightarrow> string option"

datatype PostCreateCleanup = RemoveFileOrDir | RemoveTreeAll | Leave

definition verify_post_create ::
  "'s PolicyEnv \<Rightarrow> FilePolicyChecker \<Rightarrow> 's FsOps \<Rightarrow> 's \<Rightarrow> path \<Rightarrow> PostCreateCleanup \<Rightarrow> ('s, FileError, unit) fs_result" where
  "verify_post_create env pc ops s resolved cleanup =
     (case check_path env pc s (path_str resolved) False False of
        Inr _ \<Rightarrow> (s, Inr ())
      | Inl err \<Rightarrow>
          (let remove = (\<lambda>remove_dir. case fs_symlink_metadata ops s resolved of
                 Inl _ \<Rightarrow> s
               | Inr metadata \<Rightarrow> fst (if md_type metadata = FtDirectory then remove_dir s resolved else fs_remove_file ops s resolved))
           in (case cleanup of
                 RemoveFileOrDir \<Rightarrow> remove (fs_remove_dir ops)
               | RemoveTreeAll \<Rightarrow> remove (fs_remove_dir_all ops)
               | Leave \<Rightarrow> s, Inl err)))"

text \<open>The path of a relative symlink target, resolved against the resolved parent of the link.\<close>

definition symlink_target :: "string \<Rightarrow> path \<Rightarrow> string" where
  "symlink_target target link =
     (if is_absolute target then target
      else render (lexically_normalize (path_join (RootDir # map Normal (butlast link)) target)))"

text \<open>A path is checked, then handed over; a created path is checked again.\<close>

definition checked ::
  "'s PolicyEnv \<Rightarrow> FilePolicyChecker \<Rightarrow> 's \<Rightarrow> string \<Rightarrow> bool \<Rightarrow> bool \<Rightarrow>
   ('s \<Rightarrow> path \<Rightarrow> ('s, FileError, 'r) fs_result option) \<Rightarrow> ('s, FileError, 'r) fs_result option" where
  "checked env pc s p is_write no_follow k =
     (case check_path env pc s p is_write no_follow of Inl e \<Rightarrow> Some (s, Inl e) | Inr r \<Rightarrow> k s (pr_resolved_path r))"

definition then_verify ::
  "'s PolicyEnv \<Rightarrow> FilePolicyChecker \<Rightarrow> 's FsOps \<Rightarrow> path \<Rightarrow> PostCreateCleanup \<Rightarrow> ('s, FileError, 'r) fs_result option \<Rightarrow> ('s, FileError, 'r) fs_result option" where
  "then_verify env pc ops p cleanup r =
     then_walk r (\<lambda>s result. Some (and_then (verify_post_create env pc ops s p cleanup) (\<lambda>s _. (s, Inr result))))"

definition result_map :: "('a \<Rightarrow> 'r) \<Rightarrow> ('s, FileError, 'a) fs_result option \<Rightarrow> ('s, FileError, 'r) fs_result option" where
  "result_map f r = then_walk r (\<lambda>s x. Some (s, Inr (f x)))"

definition dispatch ::
  "('s, 'e, 'i, 'd) FileEnv \<Rightarrow> FilePolicyChecker \<Rightarrow> 's \<Rightarrow> Operation \<Rightarrow> ('s, FileError, ('i, 'd) OpResult) fs_result option" where
  "dispatch fe pc s op =
     (let env = fe_policy_env fe; ops = fe_ops fe; chk = checked env pc s
      in case op of
           OpStat req \<Rightarrow> chk (fst_path req) False (fst_no_follow_symlink req) (\<lambda>s p. result_map RStat (Some (s, handle_stat ops s req p)))
         | OpList req \<Rightarrow>
             chk (fl_path req) False False (\<lambda>s p.
               result_map RList (Some (s, handle_list (map_sum id md_type (fs_metadata ops s p)) (fe_list_dir fe s p) req (path_str p))))
         | OpGlob req \<Rightarrow>
             if is_absolute (fg_pattern req)
             then Some (s, Inl (file_error InvalidPath (fg_pattern req) ''absolute glob patterns are not allowed''))
             else if pattern_has_parent (fg_pattern req)
             then Some (s, Inl (file_error InvalidPath (fg_pattern req) ''glob patterns must not contain .. components''))
             else
               (let run = (\<lambda>s base. result_map RGlob (Some (s, handle_glob env pc ops (fe_pattern_error fe) s req base)))
                in case base_of (fg_base_path req) of
                     None \<Rightarrow> run s None
                   | Some b \<Rightarrow> chk b False False (\<lambda>s p. run s (Some p)))
         | OpMkdir req \<Rightarrow>
             chk (fm_path req) True False (\<lambda>s p.
               then_verify env pc ops p RemoveFileOrDir (result_map (case_prod RMkdir) (Some (handle_mkdir ops s req p))))
         | OpReadText req \<Rightarrow>
             chk (rq_path req) False (rq_no_follow_symlink req) (\<lambda>s p.
               result_map RReadText (Some (s, handle_read_text (fe_encs fe) ops s req p (pc_max_read_bytes pc))))
         | OpReadBinary req \<Rightarrow>
             chk (rb_path req) False (rb_no_follow_symlink req) (\<lambda>s p.
               result_map RReadBinary (Some (s, handle_read_binary ops s req p (pc_max_read_bytes pc))))
         | OpReadImage req \<Rightarrow>
             chk (dc_path req) False (dc_no_follow_symlink req) (\<lambda>s p.
               result_map RReadImage (Some (s, fe_image fe s req p (pc_max_read_bytes pc))))
         | OpReadPdf req \<Rightarrow>
             chk (dc_path req) False (dc_no_follow_symlink req) (\<lambda>s p.
               result_map RReadPdf (Some (s, fe_pdf fe s req p (pc_max_read_bytes pc))))
         | OpWrite req \<Rightarrow>
             chk (wr_path req) True (wr_no_follow_symlink req) (\<lambda>s p.
               then_verify env pc ops p RemoveFileOrDir
                 (result_map RWrite (Some (handle_write (fe_http fe) ops s req p (pc_max_write_bytes pc)))))
         | OpEdit req \<Rightarrow>
             chk (ed_path req) True (ed_no_follow_symlink req) (\<lambda>s p.
               result_map REdit (Some (handle_edit ops s req p (pc_max_write_bytes pc))))
         | OpDelete req \<Rightarrow>
             chk (fd_path req) True (fd_no_follow_symlink req) (\<lambda>s p.
               result_map RDelete (handle_delete ops (fe_fuel fe) (fe_guess_trash fe) s req p))
         | OpChmod req \<Rightarrow>
             chk (ch_path req) True (ch_no_follow_symlink req) (\<lambda>s p.
               result_map (case_prod RChmod) (handle_chmod ops (fe_fuel fe) s req p))
         | OpCopy req \<Rightarrow>
             chk (fc_source req) False False (\<lambda>s source.
               checked env pc s (fc_destination req) True False (\<lambda>s dest.
                 then_verify env pc ops dest RemoveTreeAll
                   (result_map (\<lambda>(a, b, n). RCopy a b n) (handle_copy ops (fe_fuel fe) s req source dest))))
         | OpMove req \<Rightarrow>
             chk (mv_source req) True False (\<lambda>s source.
               checked env pc s (mv_destination req) True False (\<lambda>s dest.
                 then_verify env pc ops dest Leave
                   (result_map (case_prod RMove) (handle_move ops (fe_fuel fe) s req source dest))))
         | OpCreateSymlink req \<Rightarrow>
             chk (sl_link_path req) True True (\<lambda>s link.
               checked env pc s (symlink_target (sl_target req) link) False True (\<lambda>s _.
                 then_verify env pc ops link RemoveFileOrDir
                   (result_map (case_prod RCreateSymlink) (Some (handle_create_symlink ops s (sl_target req) link))))))"

definition handle_request ::
  "('s, 'e, 'i, 'd) FileEnv \<Rightarrow> FilePolicyChecker \<Rightarrow> 's \<Rightarrow> Operation option \<Rightarrow> ('s, FileError, ('i, 'd) OpResult) fs_result option" where
  "handle_request fe pc s operation =
     (if \<not> pc_enabled pc then Some (s, Inl (file_error PolicyDenied [] ''file operations are disabled''))
      else (case operation of
              None \<Rightarrow> Some (s, Inl (file_error Unspecified [] ''no operation specified''))
            | Some op \<Rightarrow> dispatch fe pc s op))"

section \<open>The check before an approval\<close>

text \<open>The policy with the dangerous paths denied outright.\<close>

definition deny_dangerous :: "FilePolicyChecker \<Rightarrow> FilePolicyChecker" where
  "deny_dangerous pc = pc\<lparr>pc_denylist := pc_denylist pc @ pc_dangerous_paths pc\<rparr>"

lemma deny_dangerous_sel [simp]:
  "pc_enabled (deny_dangerous pc) = pc_enabled pc" "pc_allowlist (deny_dangerous pc) = pc_allowlist pc"
  "pc_denylist (deny_dangerous pc) = pc_denylist pc @ pc_dangerous_paths pc"
  "pc_dangerous_paths (deny_dangerous pc) = pc_dangerous_paths pc"
  "pc_max_read_bytes (deny_dangerous pc) = pc_max_read_bytes pc" "pc_max_write_bytes (deny_dangerous pc) = pc_max_write_bytes pc"
  by (simp_all add: deny_dangerous_def)

lemma check_path_dangerous:
  "check_path env pc s p w nf = Inr r \<Longrightarrow>
     (if pr_needs_approval r then \<exists>e. check_path env (deny_dangerous pc) s p w nf = Inl e else check_path env (deny_dangerous pc) s p w nf = Inr r)"
  by (auto simp: check_path_def Let_def bex_Un split: if_splits sum.splits)

lemma check_path_denied:
  "check_path env pc s p w nf = Inl e \<Longrightarrow> \<exists>e'. check_path env (deny_dangerous pc) s p w nf = Inl e'"
  by (auto simp: check_path_def Let_def bex_Un split: if_splits sum.splits)

lemma first_escalation_None:
  "first_escalation env pc s ps = Inr None \<Longrightarrow> (p, w, nf) \<in> set ps \<Longrightarrow>
     \<exists>r. check_path env pc s p w nf = Inr r \<and> check_path env (deny_dangerous pc) s p w nf = Inr r"
proof (induction env pc s ps rule: first_escalation.induct)
  case (2 env pc s p' w' nf' ps)
  then show ?case using check_path_dangerous [of env pc s p' w' nf']
    by (cases "check_path env pc s p' w' nf'") (auto split: if_splits)
qed simp

lemma check_path_write_irrelevant: "check_path env pc s p w nf = check_path env pc s p w' nf"
  by (simp add: check_path_def)

lemma scan_matches_Clean:
  "scan_matches env pc s n entries = Clean \<Longrightarrow> Some p \<in> set entries \<Longrightarrow> check_path env pc s p False False = Inr r \<Longrightarrow> \<not> pr_needs_approval r"
proof (induction env pc s n entries rule: scan_matches.induct)
  case (4 env pc s n p' entries)
  then show ?case by (cases "check_path env pc s p' False False") (auto split: if_splits)
qed (auto split: if_splits)

lemma glob_entries_deny:
  "\<forall>p r. Some p \<in> set matches \<longrightarrow> check_path env pc s p False False = Inr r \<longrightarrow> \<not> pr_needs_approval r \<Longrightarrow>
     glob_entries env (deny_dangerous pc) ops s mx matches es n = glob_entries env pc ops s mx matches es n"
proof (induction env pc ops s mx matches es n rule: glob_entries.induct)
  case (3 env pc ops s mx p matches es n)
  show ?case
  proof (cases "check_path env pc s p False False")
    case (Inl e)
    with check_path_denied [OF this] 3 show ?thesis by auto
  next
    case (Inr r)
    with 3 have "\<not> pr_needs_approval r" by auto
    with check_path_dangerous [OF Inr] Inr 3 show ?thesis by (auto simp: Let_def split: sum.splits)
  qed
qed auto

fun creates :: "Operation \<Rightarrow> bool" where
  "creates (OpWrite _) = True"
| "creates (OpMkdir _) = True"
| "creates (OpCopy _) = True"
| "creates (OpMove _) = True"
| "creates (OpCreateSymlink _) = True"
| "creates _ = False"

text \<open>
  C34. A request that needs no approval for its paths behaves as if the dangerous paths were denied. If the check
  before the approval finds nothing, dispatching a request that creates nothing gives the same result, on the
  same state, as under the policy that denies every dangerous path; in particular a search never returns one.
\<close>

theorem unapproved_never_dangerous:
  assumes "check_request_approval (fe_policy_env fe) pc cap s (Some op) = Inr None" and "\<not> creates op"
  shows "dispatch fe pc s op = dispatch fe (deny_dangerous pc) s op"
proof -
  define env where "env = fe_policy_env fe"
  have first: "first_escalation env pc s (collect_request_paths op) = Inr None"
    using assms(1) by (auto simp: check_request_approval_def env_def split: option.splits sum.splits)
  have same: "\<forall>(p, w, nf) \<in> set (collect_request_paths op). check_path env (deny_dangerous pc) s p w nf = check_path env pc s p w nf"
    using first_escalation_None [OF first] by fastforce
  show ?thesis
  proof (cases op)
    case (OpGlob g)
    have clean: "glob_has_dangerous_match env pc cap s g = Clean"
      using assms(1) OpGlob by (auto simp: check_request_approval_def env_def split: option.splits sum.splits GlobScanOutcome.splits)
    have glob: "handle_glob env (deny_dangerous pc) ops pe s g base = handle_glob env pc ops pe s g base"
      if "case pe_search env s (full_pattern base (fg_pattern g)) of None \<Rightarrow> True | Some entries \<Rightarrow> scan_matches env pc s cap entries = Clean"
      for ops pe base
      using that scan_matches_Clean [of env pc s cap] glob_entries_deny [of _ env pc s]
      by (auto simp: handle_glob_def Let_def split: option.splits)
    have base: "check_path env (deny_dangerous pc) s b False False = check_path env pc s b False False" if "base_of (fg_base_path g) = Some b" for b
      using first_escalation_None [OF first, of b False False] that by (auto simp: OpGlob collect_request_paths_def)
    show ?thesis
      using clean glob base
      by (auto simp: OpGlob dispatch_def checked_def glob_has_dangerous_match_def env_def [symmetric] Let_def split: option.splits sum.splits)
  qed (use assms(2) same in \<open>simp_all add: dispatch_def checked_def collect_request_paths_def env_def [symmetric] Let_def\<close>)
qed

definition sample_env :: "node PolicyEnv \<Rightarrow> (node, unit, unit, unit) FileEnv" where
  "sample_env env =
     \<lparr> fe_policy_env = env, fe_ops = tree_ops (\<lambda>_. 0), fe_fuel = 10, fe_list_dir = (\<lambda>t p. Inr []), fe_pattern_error = (\<lambda>_. []),
       fe_encs = ascii, fe_image = (\<lambda>t req p m. Inr ()), fe_pdf = (\<lambda>t req p m. Inr ()),
       fe_http = \<lparr> he_scheme = (\<lambda>_. Inl []), he_client = Inr (), he_get = (\<lambda>_. Inl []) \<rparr>, fe_guess_trash = (\<lambda>_. None) \<rparr>"

lemmas manager_eval = policy_eval check_request_approval_def collect_request_paths_def recursive_permanent_delete_def
  glob_has_dangerous_match_def base_of_def pattern_has_parent_def full_pattern_def deny_dangerous_def sample_env_def

theorem unapproved_never_dangerous_witness:
  "let env = literal_env\<lparr>pe_search := (\<lambda>t pattern. Some [Some ''/b/x''])\<rparr>; pc = (allow_only [''/b/x''])\<lparr>pc_dangerous_paths := [''/b/y'']\<rparr>;
       op = OpGlob \<lparr> fg_pattern = ''x'', fg_base_path = None, fg_max_results = None \<rparr>
   in check_request_approval env pc 10 link_tree (Some op) = Inr None \<and>
      dispatch (sample_env env) pc link_tree op = dispatch (sample_env env) (deny_dangerous pc) link_tree op"
proof -
  let ?env = "literal_env\<lparr>pe_search := (\<lambda>t pattern. Some [Some ''/b/x''])\<rparr>" and ?pc = "(allow_only [''/b/x''])\<lparr>pc_dangerous_paths := [''/b/y'']\<rparr>"
  let ?op = "OpGlob \<lparr> fg_pattern = ''x'', fg_base_path = None, fg_max_results = None \<rparr>"
  have "check_request_approval ?env ?pc 10 link_tree (Some ?op) = Inr None"
    by (simp add: manager_eval link_tree_def)
  moreover from this have "dispatch (sample_env ?env) ?pc link_tree ?op = dispatch (sample_env ?env) (deny_dangerous ?pc) link_tree ?op"
    by (intro unapproved_never_dangerous [of _ _ 10]) (simp_all add: sample_env_def)
  ultimately show ?thesis by (simp add: Let_def)
qed

section \<open>Dispatching a request\<close>

fun reads_only :: "Operation \<Rightarrow> bool" where
  "reads_only (OpStat _) = True"
| "reads_only (OpList _) = True"
| "reads_only (OpGlob _) = True"
| "reads_only (OpReadText _) = True"
| "reads_only (OpReadBinary _) = True"
| "reads_only (OpReadImage _) = True"
| "reads_only (OpReadPdf _) = True"
| "reads_only _ = False"

text \<open>The checks an operation has to pass first, in order: the path, whether it is written, whether a final link is followed.\<close>

definition required_checks :: "'s PolicyEnv \<Rightarrow> FilePolicyChecker \<Rightarrow> 's \<Rightarrow> Operation \<Rightarrow> (string \<times> bool \<times> bool) list" where
  "required_checks env pc s op =
     (case op of
        OpCreateSymlink r \<Rightarrow>
          (sl_link_path r, True, True) #
          (case check_path env pc s (sl_link_path r) True True of
             Inr l \<Rightarrow> [(symlink_target (sl_target r) (pr_resolved_path l), False, True)]
           | Inl _ \<Rightarrow> [])
      | _ \<Rightarrow> collect_request_paths op)"

text \<open>The path an operation creates, as the policy resolves it.\<close>

definition created_path :: "Operation \<Rightarrow> (string \<times> bool) option" where
  "created_path op =
     (case op of
        OpWrite r \<Rightarrow> Some (wr_path r, wr_no_follow_symlink r)
      | OpMkdir r \<Rightarrow> Some (fm_path r, False)
      | OpCopy r \<Rightarrow> Some (fc_destination r, False)
      | OpMove r \<Rightarrow> Some (mv_destination r, False)
      | OpCreateSymlink r \<Rightarrow> Some (sl_link_path r, True)
      | _ \<Rightarrow> None)"

lemma checked_Some:
  "checked env pc s p w nf k = Some (s', out) \<Longrightarrow>
     (\<exists>e. check_path env pc s p w nf = Inl e \<and> s' = s \<and> out = Inl e) \<or>
     (\<exists>r. check_path env pc s p w nf = Inr r \<and> k s (pr_resolved_path r) = Some (s', out))"
  by (auto simp: checked_def split: sum.splits)

lemma result_map_keeps: "result_map f (Some (s, x)) = Some (s', out) \<Longrightarrow> s' = s"
  by (auto simp: result_map_def then_walk_def split: sum.splits)

lemma then_verify_Inr:
  "then_verify env pc ops p c r = Some (s', Inr x) \<Longrightarrow> \<exists>r'. check_path env pc s' (path_str p) False False = Inr r'"
  by (auto simp: then_verify_def then_walk_def and_then_def verify_post_create_def Let_def split: option.splits sum.splits prod.splits)

lemma reads_only_keeps: "dispatch fe pc s op = Some (s', out) \<Longrightarrow> reads_only op \<Longrightarrow> s' = s"
  by (cases op) (auto simp: dispatch_def Let_def dest!: checked_Some result_map_keeps split: if_splits option.splits)

lemma change_checked:
  assumes "dispatch fe pc s op = Some (s', out)" and "s' \<noteq> s \<or> (\<exists>x. out = Inr x)" and "\<not> reads_only op"
  shows "\<forall>(p, w, nf) \<in> set (required_checks (fe_policy_env fe) pc s op). \<exists>r. check_path (fe_policy_env fe) pc s p w nf = Inr r"
  using assms by (cases op) (auto simp: dispatch_def Let_def required_checks_def collect_request_paths_def dest!: checked_Some)

lemma success_rechecked:
  assumes "dispatch fe pc s op = Some (s', Inr x)" and "created_path op = Some (p, nf)"
  shows "\<exists>r r'. check_path (fe_policy_env fe) pc s p True nf = Inr r \<and>
    check_path (fe_policy_env fe) pc s' (path_str (pr_resolved_path r)) False False = Inr r'"
  using assms by (cases op) (auto simp: dispatch_def Let_def created_path_def dest!: checked_Some dest: then_verify_Inr)

text \<open>
  C33. Nothing changes without the policy: if handling a request changed the file system, file operations are enabled, the
  operation is not one that only reads, and every path it names was allowed before the change. If an operation that creates
  a file, a directory or a link reports success, the created path is still allowed by the policy afterwards.
\<close>

theorem changes_are_authorised:
  assumes "handle_request fe pc s (Some op) = Some (s', out)"
  shows "(s' \<noteq> s \<longrightarrow> pc_enabled pc \<and> \<not> reads_only op \<and>
      (\<forall>(p, w, nf) \<in> set (required_checks (fe_policy_env fe) pc s op). \<exists>r. check_path (fe_policy_env fe) pc s p w nf = Inr r)) \<and>
    (\<forall>x p nf. out = Inr x \<and> created_path op = Some (p, nf) \<longrightarrow>
      (\<exists>r r'. check_path (fe_policy_env fe) pc s p True nf = Inr r \<and>
         check_path (fe_policy_env fe) pc s' (path_str (pr_resolved_path r)) False False = Inr r'))"
proof -
  have run: "s' \<noteq> s \<or> (\<exists>x. out = Inr x) \<Longrightarrow> pc_enabled pc \<and> dispatch fe pc s op = Some (s', out)"
    using assms by (auto simp: handle_request_def split: if_splits)
  then show ?thesis
    using change_checked [of fe pc s op s' out] reads_only_keeps [of fe pc s op s' out] success_rechecked [of fe pc s op s'] by blast
qed

text \<open>What \<^verbatim>\<open>open\<close> without \<^verbatim>\<open>O_NOFOLLOW\<close> does on an absolute symbolic link: it creates or truncates the file the link names.\<close>

definition follow_write :: "node \<Rightarrow> path \<Rightarrow> bytes \<Rightarrow> (node, IoError, unit) fs_result" where
  "follow_write t p b = (case lookup t p of Some (LinkNode l) \<Rightarrow> tree_write t (below_root l) b | _ \<Rightarrow> tree_write t p b)"

definition following_env :: "(node, unit, unit, unit) FileEnv" where
  "following_env = (sample_env literal_env)\<lparr>fe_ops := (tree_ops (\<lambda>_. 0))\<lparr>fs_write := follow_write\<rparr>\<rparr>"

definition full_write :: "string \<Rightarrow> bytes \<Rightarrow> FileWrite" where
  "full_write p b = \<lparr> wr_path = p, wr_create_parents = False,
     wr_method = Some (WFullWrite \<lparr> fw_source = Some (Content b), fw_s3_download_url = None \<rparr>), wr_encoding = None, wr_no_follow_symlink = False \<rparr>"

lemma small_write: "enforce_size_limit 1 100 p = Inr ()" "enforce_size_limit 2 100 p = Inr ()"
  by (simp_all add: enforce_size_limit_def)

lemmas dispatch_eval = manager_eval handle_request_def dispatch_def checked_def result_map_def then_verify_def then_walk_def and_then_def
  map_err_def verify_post_create_def following_env_def follow_write_def full_write_def handle_write_def handle_full_write_def write_file_def
  exists_at_def ensure_encoding_supported_def reject_if_final_component_is_symlink_def small_write attempt_def file_error_def
  tree_sel tree_write_def tree_add_def tree_stat_def tree_remove_def node_metadata_def

lemma full_write_done:
  "\<exists>t x. handle_request following_env (allow_only [''/b/y'']) link_tree (Some (OpWrite (full_write ''/b/y'' [1]))) = Some (t, Inr x) \<and>
     lookup t [''b'', ''y''] = Some (FileNode [1])"
  by (simp add: dispatch_eval link_tree_def)

theorem changes_are_authorised_witness:
  "\<exists>t x r r'. handle_request following_env (allow_only [''/b/y'']) link_tree (Some (OpWrite (full_write ''/b/y'' [1]))) = Some (t, Inr x) \<and>
     lookup t [''b'', ''y''] = Some (FileNode [1]) \<and> check_path literal_env (allow_only [''/b/y'']) link_tree ''/b/y'' True False = Inr r \<and>
     check_path literal_env (allow_only [''/b/y'']) t (path_str (pr_resolved_path r)) False False = Inr r'"
proof -
  obtain t x where t: "handle_request following_env (allow_only [''/b/y'']) link_tree (Some (OpWrite (full_write ''/b/y'' [1]))) = Some (t, Inr x)"
    "lookup t [''b'', ''y''] = Some (FileNode [1])"
    using full_write_done by blast
  moreover have "created_path (OpWrite (full_write ''/b/y'' [1])) = Some (''/b/y'', False)" by (simp add: created_path_def full_write_def)
  moreover have "fe_policy_env following_env = literal_env" by (simp add: following_env_def sample_env_def)
  ultimately show ?thesis using changes_are_authorised [OF t(1)] by fastforce
qed

definition dangling_tree :: node where
  "dangling_tree = DirNode [(''a'', DirNode [(''l'', LinkNode ''/b/x'')]), (''b'', DirNode [])]"


definition detour_tree :: node where
  "detour_tree = DirNode [(''a'', DirNode [(''d'', LinkNode ''/b'')]), (''b'', DirNode []), (''k'', FileNode [7])]"

definition detour_policy :: FilePolicyChecker where
  "detour_policy = (allow_only [''/b/l'', ''/a/k'', ''/k''])\<lparr>pc_dangerous_paths := [''/k'']\<rparr>"

text \<open>
  The approval check and the dispatch do not agree on where a relative link target leads: the first resolves it against
  the parent as the client wrote it, the second against the parent with links resolved. A link to a dangerous path is
  created with no approval when the parent in the request is itself a link: the approval check saw another, harmless path.
\<close>

theorem symlink_approval_bypass:
  "let op = OpCreateSymlink \<lparr> sl_target = ''../k'', sl_link_path = ''/a/d/l'' \<rparr>
   in check_request_approval literal_env detour_policy 10 detour_tree (Some op) = Inr None \<and>
      (\<exists>t x r. handle_request (sample_env literal_env) detour_policy detour_tree (Some op) = Some (t, Inr x) \<and>
         tree_canonicalize t ''/a/d/l'' = Inr [''k''] \<and>
         check_path literal_env detour_policy t ''/a/d/l'' False False = Inr r \<and> pr_needs_approval r)"
  by (simp add: dispatch_eval detour_tree_def detour_policy_def symlink_target_def lexically_normalize_def render_def path_join_def parent_of_def
      handle_create_symlink_def safe_open_parent_dirfd_for_def tree_open_dir_def)

definition secret_tree :: node where
  "secret_tree = DirNode [(''a'', DirNode [(''k'', FileNode [7])])]"

definition secret_policy :: FilePolicyChecker where
  "secret_policy = (allow_only [''/a'', ''/c'', ''/c/k''])\<lparr>pc_denylist := [''/a/k'']\<rparr>"

text \<open>
  The deny list does not cover what a recursive copy reads: a file the policy denies is copied with its directory, and
  the copy can be read, since only the two paths of the request are checked.
\<close>

theorem copy_ignores_denied_children:
  "\<exists>t x r. handle_request (sample_env literal_env) secret_policy secret_tree
       (Some (OpCopy \<lparr> fc_source = ''/a'', fc_destination = ''/c'', fc_recursive = True, fc_overwrite = False \<rparr>)) = Some (t, Inr x) \<and>
     lookup t [''c'', ''k''] = Some (FileNode [7]) \<and> check_path literal_env secret_policy t ''/c/k'' False False = Inr r \<and>
     (\<exists>e. check_path literal_env secret_policy secret_tree ''/a/k'' False False = Inl e \<and> fe_code e = PolicyDenied)"
proof -
  let ?req = "\<lparr> fc_source = ''/a'', fc_destination = ''/c'', fc_recursive = True, fc_overwrite = False \<rparr>"
  have "handle_copy (tree_ops (\<lambda>_. 0)) 10 secret_tree ?req [''a''] [''c''] =
      Some (with_dir secret_tree [] ''c'' [(''k'', FileNode [7])], Inr (''/a'', ''/c'', 1))"
    using handle_copy_tree [of secret_tree "[''a'']" "[(''k'', FileNode [7])]" "[]" "''c''" 10 ?req "\<lambda>_. 0"]
    by (simp add: secret_tree_def is_dir_def path_str_def)
  then show ?thesis
    by (simp add: dispatch_eval secret_tree_def secret_policy_def)
qed

end
