(* ===== verification/Spec2Isabelle.thy ===== *)
theory Spec2Isabelle
  imports Hub_Core Delivery Pending_Requests Control_Jobs Tool_Policy Daemon_Jobs Output_Stream Job_Runtime
    File_Manager
begin

text \<open>
  A model of the aHand hub and daemon, component by component.
\<close>

end
